(* ===== verification/Prelude.thy ===== *)
theory Prelude
  imports Main "HOL-Library.Word" "HOL-Library.Sublist" "HOL-Library.Multiset"
begin

text \<open>
  Shared vocabulary of the development: the machine integers of the Rust sources, byte
  strings, the handful of \<open>str\<close> operations the server relies on, and the generic lemmas on
  lists and words that the component theories use.

  A Rust \<open>String\<close> is its UTF-8 byte sequence, one \<^typ>\<open>char\<close> per byte, so
  \<^term>\<open>length\<close> is \<open>str::len\<close>.  Sizes and buffer positions (\<open>usize\<close>) are
  \<^typ>\<open>nat\<close>; \<open>u8\<close>, \<open>u16\<close>, \<open>u32\<close> and \<open>u64\<close> keep their width.
\<close>

unbundle bit_operations_syntax

type_synonym u8 = "8 word"
type_synonym u16 = "16 word"
type_synonym u32 = "32 word"
type_synonym u64 = "64 word"

named_theorems str_simps "evaluation of the string operations"
named_theorems wire_simps "evaluation of readers and writers"
named_theorems wire_len "lengths of encodings"

section \<open>Bytes and characters\<close>

definition byte_of_char :: "char \<Rightarrow> u8" where
  "byte_of_char c = of_nat (of_char c)"

definition char_of_byte :: "u8 \<Rightarrow> char" where
  "char_of_byte b = char_of (unat b)"

abbreviation str_bytes :: "string \<Rightarrow> u8 list" where
  "str_bytes s \<equiv> map byte_of_char s"

abbreviation bytes_str :: "u8 list \<Rightarrow> string" where
  "bytes_str bs \<equiv> map char_of_byte bs"

lemma unat_u8_less [simp]: "unat (b :: u8) < 256"
proof -
  have "unat b < 2 ^ LENGTH(8)" by (rule unsigned_less)
  then show ?thesis by simp
qed

lemma unat_u16_less [simp]: "unat (w :: u16) < 65536"
proof -
  have "unat w < 2 ^ LENGTH(16)" by (rule unsigned_less)
  then show ?thesis by simp
qed

lemma unat_byte_of_char [simp]: "unat (byte_of_char c) = of_char c"
proof -
  have "(of_char c :: nat) < 256" by (rule nat_of_char_less_256)
  then show ?thesis by (simp add: byte_of_char_def unat_of_nat)
qed

lemma char_of_byte_of_char [simp]: "char_of_byte (byte_of_char c) = c"
  by (simp add: char_of_byte_def)

lemma byte_of_char_of_byte [simp]: "byte_of_char (char_of_byte b) = b"
proof -
  have "unat b mod 256 = unat b"
    using unat_u8_less [of b] by simp
  then show ?thesis
    by (simp add: char_of_byte_def byte_of_char_def)
qed

lemma byte_of_char_eq_iff [simp]: "byte_of_char c = byte_of_char d \<longleftrightarrow> c = d"
  by (metis char_of_byte_of_char)

lemma bytes_str_of_str_bytes [simp]: "bytes_str (str_bytes s) = s"
  by (simp add: comp_def)

lemma str_bytes_of_bytes_str [simp]: "str_bytes (bytes_str bs) = bs"
  by (simp add: comp_def)

section \<open>ASCII case folding\<close>

text \<open>\<open>str::to_ascii_lowercase\<close>: only the letters A to Z change.\<close>

definition ascii_lower :: "char \<Rightarrow> char" where
  "ascii_lower c =
     (if 65 \<le> (of_char c :: nat) \<and> (of_char c :: nat) \<le> 90
      then char_of ((of_char c :: nat) + 32) else c)"

definition to_lower :: "string \<Rightarrow> string" where
  "to_lower s = map ascii_lower s"

lemma of_char_char_of_nat: "(n::nat) < 256 \<Longrightarrow> of_char (char_of n) = n"
  by simp

lemma ascii_lower_idem [simp]: "ascii_lower (ascii_lower c) = ascii_lower c"
  by (auto simp: ascii_lower_def)

lemma to_lower_idem [simp]: "to_lower (to_lower s) = to_lower s"
  by (simp add: to_lower_def comp_def)

lemma length_to_lower [simp]: "length (to_lower s) = length s"
  by (simp add: to_lower_def)

lemma to_lower_Nil [simp]: "to_lower [] = []"
  by (simp add: to_lower_def)

lemma to_lower_Cons: "to_lower (c # s) = ascii_lower c # to_lower s"
  by (simp add: to_lower_def)

lemma to_lower_append [simp]: "to_lower (s @ t) = to_lower s @ to_lower t"
  by (simp add: to_lower_def)

lemma to_lower_eq_Nil [simp]: "to_lower s = [] \<longleftrightarrow> s = []"
  by (simp add: to_lower_def)

lemma ascii_lower_dot [simp]: "ascii_lower (CHR ''.'') = CHR ''.''"
  by (simp add: ascii_lower_def)

lemma ascii_lower_eq_dot [simp]: "ascii_lower c = CHR ''.'' \<longleftrightarrow> c = CHR ''.''"
proof
  assume eq: "ascii_lower c = CHR ''.''"
  show "c = CHR ''.''"
  proof (cases "65 \<le> (of_char c :: nat) \<and> (of_char c :: nat) \<le> 90")
    case True
    then have "(of_char (ascii_lower c) :: nat) = of_char c + 32"
      by (simp add: ascii_lower_def)
    with eq True show ?thesis by simp
  next
    case False
    with eq show ?thesis by (simp add: ascii_lower_def split: if_splits)
  qed
qed simp

text \<open>Evaluation of case folding on literals.\<close>

lemmas lower_eval = to_lower_def ascii_lower_def char_of_def bit_0

section \<open>Splitting and joining\<close>

text \<open>\<open>str::split\<close> on one separator: always at least one piece.\<close>

fun split_on :: "'a \<Rightarrow> 'a list \<Rightarrow> 'a list list" where
  "split_on d [] = [[]]"
| "split_on d (c # cs) =
     (if c = d then [] # split_on d cs
      else (case split_on d cs of [] \<Rightarrow> [[c]] | x # xs \<Rightarrow> (c # x) # xs))"

text \<open>\<open>[T]::join\<close> with a one-element separator.\<close>

fun join_on :: "'a \<Rightarrow> 'a list list \<Rightarrow> 'a list" where
  "join_on d [] = []"
| "join_on d [x] = x"
| "join_on d (x # y # xs) = x @ d # join_on d (y # xs)"

abbreviation split_dots :: "string \<Rightarrow> string list" where
  "split_dots \<equiv> split_on (CHR ''.'')"

abbreviation join_dots :: "string list \<Rightarrow> string" where
  "join_dots \<equiv> join_on (CHR ''.'')"

text \<open>\<open>str::trim_end_matches\<close> with a dot.\<close>

definition trim_end_dots :: "string \<Rightarrow> string" where
  "trim_end_dots s = rev (dropWhile (\<lambda>c. c = CHR ''.'') (rev s))"

lemma split_on_not_Nil [simp]: "split_on d s \<noteq> []"
  by (cases s) (auto split: list.splits)

lemma split_on_no_sep: "d \<notin> set s \<Longrightarrow> split_on d s = [s]"
  by (induction s) auto

lemma split_on_append_sep:
  "d \<notin> set x \<Longrightarrow> split_on d (x @ d # s) = x # split_on d s"
  by (induction x) auto

lemma split_on_no_sep_pieces: "x \<in> set (split_on d s) \<Longrightarrow> d \<notin> set x"
  by (induction s arbitrary: x) (auto split: list.splits if_splits)

lemma join_on_split_on [simp]: "join_on d (split_on d s) = s"
proof (induction s)
  case Nil
  show ?case by simp
next
  case (Cons c s)
  obtain x xs where "split_on d s = x # xs"
    by (cases "split_on d s") auto
  with Cons show ?case by (cases xs) auto
qed

lemma split_on_join_on:
  "xs \<noteq> [] \<Longrightarrow> (\<And>x. x \<in> set xs \<Longrightarrow> d \<notin> set x) \<Longrightarrow> split_on d (join_on d xs) = xs"
  by (induction d xs rule: join_on.induct) (auto simp: split_on_no_sep split_on_append_sep)

lemma join_on_eq_Nil: "join_on d xs = [] \<longleftrightarrow> xs = [] \<or> xs = [[]]"
  by (cases "(d, xs)" rule: join_on.cases) auto

lemma map_split_on:
  "(\<And>c. f c = f d \<longleftrightarrow> c = d) \<Longrightarrow> split_on (f d) (map f s) = map (map f) (split_on d s)"
  by (induction s) (auto split: list.splits)

lemma split_dots_to_lower: "split_dots (to_lower s) = map to_lower (split_dots s)"
  using map_split_on [of ascii_lower "CHR ''.''" s] by (simp add: to_lower_def)

lemma trim_end_dots_snoc [simp]:
  "trim_end_dots (s @ [c]) = (if c = CHR ''.'' then trim_end_dots s else s @ [c])"
  by (simp add: trim_end_dots_def)

lemma trim_end_dots_Nil [simp]: "trim_end_dots [] = []"
  by (simp add: trim_end_dots_def)

lemma trim_end_dots_id: "s = [] \<or> last s \<noteq> CHR ''.'' \<Longrightarrow> trim_end_dots s = s"
  by (cases s rule: rev_cases) auto

lemma trim_end_dots_last: "trim_end_dots s \<noteq> [] \<Longrightarrow> last (trim_end_dots s) \<noteq> CHR ''.''"
  by (induction s rule: rev_induct) (auto split: if_splits)

lemma trim_end_dots_idem [simp]: "trim_end_dots (trim_end_dots s) = trim_end_dots s"
  using trim_end_dots_last trim_end_dots_id by blast

lemma trim_end_dots_to_lower: "trim_end_dots (to_lower s) = to_lower (trim_end_dots s)"
  by (induction s rule: rev_induct) (auto simp: to_lower_Cons)

lemma last_join_on:
  "xs \<noteq> [] \<Longrightarrow> last xs \<noteq> [] \<Longrightarrow> last (join_on d xs) = last (last xs)"
  by (induction d xs rule: join_on.induct) (auto simp: join_on_eq_Nil)

section \<open>UTF-8\<close>

text \<open>
  \<open>std::str::from_utf8\<close> accepts exactly the well-formed byte sequences of the Unicode
  standard (table 3-7): no overlong forms, no surrogates, nothing above U+10FFFF.
\<close>

definition in_range :: "u8 \<Rightarrow> u8 \<Rightarrow> u8 \<Rightarrow> bool" where
  "in_range lo hi b \<longleftrightarrow> lo \<le> b \<and> b \<le> hi"

abbreviation utf8_cont :: "u8 \<Rightarrow> bool" where
  "utf8_cont \<equiv> in_range 0x80 0xBF"

fun utf8_valid :: "u8 list \<Rightarrow> bool" where
  "utf8_valid [] = True"
| "utf8_valid (b # bs) =
     (if b < 0x80 then utf8_valid bs
      else case bs of [] \<Rightarrow> False | c # bs2 \<Rightarrow>
        if in_range 0xC2 0xDF b then utf8_cont c \<and> utf8_valid bs2
        else case bs2 of [] \<Rightarrow> False | d # bs3 \<Rightarrow>
          if b = 0xE0 then in_range 0xA0 0xBF c \<and> utf8_cont d \<and> utf8_valid bs3
          else if in_range 0xE1 0xEC b \<or> in_range 0xEE 0xEF b
            then utf8_cont c \<and> utf8_cont d \<and> utf8_valid bs3
          else if b = 0xED then in_range 0x80 0x9F c \<and> utf8_cont d \<and> utf8_valid bs3
          else case bs3 of [] \<Rightarrow> False | e # bs4 \<Rightarrow>
            if b = 0xF0 then in_range 0x90 0xBF c \<and> utf8_cont d \<and> utf8_cont e \<and> utf8_valid bs4
            else if in_range 0xF1 0xF3 b
              then utf8_cont c \<and> utf8_cont d \<and> utf8_cont e \<and> utf8_valid bs4
            else if b = 0xF4 then in_range 0x80 0x8F c \<and> utf8_cont d \<and> utf8_cont e \<and> utf8_valid bs4
            else False)"

lemma utf8_valid_ascii: "(\<And>b. b \<in> set bs \<Longrightarrow> b < 0x80) \<Longrightarrow> utf8_valid bs"
  by (induction bs) auto

section \<open>Big-endian integers\<close>

text \<open>\<open>u16::to_be_bytes\<close> and \<open>u32::to_be_bytes\<close>, and the shifts that read them back.\<close>

definition be16 :: "u16 \<Rightarrow> u8 list" where
  "be16 w = [ucast (drop_bit 8 w), ucast w]"

definition be32 :: "u32 \<Rightarrow> u8 list" where
  "be32 w = be16 (ucast (drop_bit 16 w)) @ be16 (ucast w)"

definition of_be16 :: "u8 \<Rightarrow> u8 \<Rightarrow> u16" where
  "of_be16 hi lo = push_bit 8 (ucast hi) OR ucast lo"

definition of_be32 :: "u16 \<Rightarrow> u16 \<Rightarrow> u32" where
  "of_be32 hi lo = push_bit 16 (ucast hi) OR ucast lo"

lemma of_be16_be16 [simp]: "of_be16 (ucast (drop_bit 8 w)) (ucast w) = w"
  by (rule bit_word_eqI)
    (auto simp: of_be16_def bit_or_iff bit_push_bit_iff bit_ucast_iff bit_drop_bit_eq)

lemma of_be32_be32 [simp]: "of_be32 (ucast (drop_bit 16 w)) (ucast w) = w"
  by (rule bit_word_eqI)
    (auto simp: of_be32_def bit_or_iff bit_push_bit_iff bit_ucast_iff bit_drop_bit_eq)

lemma ucast_of_be16_lo [simp]: "ucast (of_be16 hi lo) = lo"
  by (rule bit_word_eqI)
    (auto simp: of_be16_def bit_or_iff bit_push_bit_iff bit_ucast_iff)

lemma drop_bit_of_be16 [simp]: "ucast (drop_bit 8 (of_be16 hi lo)) = hi"
  by (rule bit_word_eqI)
    (auto simp: of_be16_def bit_or_iff bit_push_bit_iff bit_ucast_iff bit_drop_bit_eq
      dest: bit_imp_le_length)

lemma be16_of_be16 [simp]: "be16 (of_be16 hi lo) = [hi, lo]"
  by (simp add: be16_def)

lemma length_be16 [simp, wire_len]: "length (be16 w) = 2"
  by (simp add: be16_def)

lemma length_be32 [simp, wire_len]: "length (be32 w) = 4"
  by (simp add: be32_def)

section \<open>Lists\<close>

lemma nth_append_at [simp]: "(xs @ y # ys) ! length xs = y"
  by (simp add: nth_append)

lemma take_drop_at: "n = length ys \<Longrightarrow> take n (drop (length xs) (xs @ ys @ zs)) = ys"
  by simp

lemma length_concat_map: "length (concat (map f xs)) = (\<Sum>x\<leftarrow>xs. length (f x))"
  by (simp add: length_concat comp_def)

section \<open>Transition systems\<close>

text \<open>What every step keeps holds in every reachable state.\<close>

locale transition_invariant =
  fixes step :: "'s \<Rightarrow> 's \<Rightarrow> bool" and inv :: "'s \<Rightarrow> bool"
  assumes step_inv: "step s s' \<Longrightarrow> inv s \<Longrightarrow> inv s'"
begin

lemma reachable: "step\<^sup>*\<^sup>* s s' \<Longrightarrow> inv s \<Longrightarrow> inv s'"
  by (induction rule: rtranclp_induct) (simp_all add: step_inv)

end

end
