(* ===== verification/Proto.thy ===== *)
theory Proto
  imports Prelude
begin

text \<open>
  The data model of \<open>src/src/proto.rs\<close>: record types and their IANA numbers, questions,
  resource records, packets, and the accessors of the packed header flags.
\<close>

section \<open>Record types\<close>

datatype RType =
    A | NS | CNAME | SOA | PTR | MX | TXT | AAAA | SRV | NAPTR | OPT | DS | RRSIG | NSEC
  | DNSKEY | NSEC3 | NSEC3PARAM | TSIG | IXFR | AXFR | ANY | Unknown u16

definition rtype_from :: "u16 \<Rightarrow> RType" where
  "rtype_from n =
     (if n = 1 then A else if n = 2 then NS else if n = 5 then CNAME else if n = 6 then SOA
      else if n = 12 then PTR else if n = 15 then MX else if n = 16 then TXT
      else if n = 28 then AAAA else if n = 33 then SRV else if n = 35 then NAPTR
      else if n = 41 then OPT else if n = 43 then DS else if n = 46 then RRSIG
      else if n = 47 then NSEC else if n = 48 then DNSKEY else if n = 50 then NSEC3
      else if n = 51 then NSEC3PARAM else if n = 250 then TSIG else if n = 251 then IXFR
      else if n = 252 then AXFR else if n = 255 then ANY else Unknown n)"

fun rtype_to :: "RType \<Rightarrow> u16" where
  "rtype_to A = 1"
| "rtype_to NS = 2"
| "rtype_to CNAME = 5"
| "rtype_to SOA = 6"
| "rtype_to PTR = 12"
| "rtype_to MX = 15"
| "rtype_to TXT = 16"
| "rtype_to AAAA = 28"
| "rtype_to SRV = 33"
| "rtype_to NAPTR = 35"
| "rtype_to OPT = 41"
| "rtype_to DS = 43"
| "rtype_to RRSIG = 46"
| "rtype_to NSEC = 47"
| "rtype_to DNSKEY = 48"
| "rtype_to NSEC3 = 50"
| "rtype_to NSEC3PARAM = 51"
| "rtype_to TSIG = 250"
| "rtype_to IXFR = 251"
| "rtype_to AXFR = 252"
| "rtype_to ANY = 255"
| "rtype_to (Unknown n) = n"

text \<open>A type is canonical when it is the one the parser produces for its number.\<close>

definition canonical_rtype :: "RType \<Rightarrow> bool" where
  "canonical_rtype t \<longleftrightarrow> rtype_from (rtype_to t) = t"

lemma rtype_to_from [simp]: "rtype_to (rtype_from n) = n"
  by (simp add: rtype_from_def)

lemma canonical_rtype_from [simp]: "canonical_rtype (rtype_from n)"
  by (simp add: canonical_rtype_def)

lemma canonical_rtype_known: "(\<And>n. t \<noteq> Unknown n) \<Longrightarrow> canonical_rtype t"
  by (cases t) (simp_all add: canonical_rtype_def rtype_from_def)

lemma canonical_rtype_inj:
  "canonical_rtype t \<Longrightarrow> canonical_rtype u \<Longrightarrow> rtype_to t = rtype_to u \<longleftrightarrow> t = u"
  by (metis canonical_rtype_def)

section \<open>Constants\<close>

definition CLASS_IN :: u16 where "CLASS_IN = 1"
definition CLASS_ANY :: u16 where "CLASS_ANY = 255"
definition RCODE_NOERROR :: u8 where "RCODE_NOERROR = 0"
definition RCODE_FORMERR :: u8 where "RCODE_FORMERR = 1"
definition RCODE_SERVFAIL :: u8 where "RCODE_SERVFAIL = 2"
definition RCODE_NXDOMAIN :: u8 where "RCODE_NXDOMAIN = 3"
definition RCODE_NOTIMP :: u8 where "RCODE_NOTIMP = 4"
definition RCODE_REFUSED :: u8 where "RCODE_REFUSED = 5"

lemmas rcode_defs =
  RCODE_NOERROR_def RCODE_FORMERR_def RCODE_SERVFAIL_def RCODE_NXDOMAIN_def RCODE_NOTIMP_def
  RCODE_REFUSED_def

section \<open>Questions, records, packets\<close>

record question =
  q_name :: string
  q_type :: RType
  q_class :: u16

record rr =
  r_name :: string
  r_type :: RType
  r_class :: u16
  r_ttl :: u32
  r_rdata :: "u8 list"

record rrsig_fields =
  type_covered :: u16
  sig_algorithm :: u8
  sig_labels :: u8
  orig_ttl :: u32
  sig_expiry :: u32
  sig_inception :: u32
  sig_key_tag :: u16
  signer_name :: string
  signature :: "u8 list"

record dnskey_fields =
  dk_flags :: u16
  dk_protocol :: u8
  dk_algorithm :: u8
  public_key :: "u8 list"

record ds_fields =
  ds_key_tag :: u16
  ds_algorithm :: u8
  digest_type :: u8
  digest :: "u8 list"

record packet =
  p_id :: u16
  p_flags :: u16
  p_questions :: "question list"
  p_answers :: "rr list"
  p_authority :: "rr list"
  p_additional :: "rr list"
  edns_udp_size :: u16
  dnssec_ok :: bool

section \<open>Header flags\<close>

definition new_response :: "u16 \<Rightarrow> u16 \<Rightarrow> packet" where
  "new_response qid req_flags =
     \<lparr>p_id = qid, p_flags = 0x8000 OR (req_flags AND 0x0100) OR 0x0080,
      p_questions = [], p_answers = [], p_authority = [], p_additional = [],
      edns_udp_size = 0, dnssec_ok = False\<rparr>"

definition is_response :: "packet \<Rightarrow> bool" where
  "is_response p \<longleftrightarrow> p_flags p AND 0x8000 \<noteq> 0"

definition is_query :: "packet \<Rightarrow> bool" where
  "is_query p \<longleftrightarrow> p_flags p AND 0x8000 = 0"

definition rd :: "packet \<Rightarrow> bool" where
  "rd p \<longleftrightarrow> p_flags p AND 0x0100 \<noteq> 0"

definition truncated :: "packet \<Rightarrow> bool" where
  "truncated p \<longleftrightarrow> p_flags p AND 0x0200 \<noteq> 0"

definition set_aa :: "packet \<Rightarrow> packet" where
  "set_aa p = p\<lparr>p_flags := p_flags p OR 0x0400\<rparr>"

definition set_tc :: "packet \<Rightarrow> packet" where
  "set_tc p = p\<lparr>p_flags := p_flags p OR 0x0200\<rparr>"

definition clear_tc :: "packet \<Rightarrow> packet" where
  "clear_tc p = p\<lparr>p_flags := p_flags p AND NOT 0x0200\<rparr>"

definition set_ra :: "packet \<Rightarrow> packet" where
  "set_ra p = p\<lparr>p_flags := p_flags p OR 0x0080\<rparr>"

definition rcode :: "packet \<Rightarrow> u8" where
  "rcode p = ucast (p_flags p AND 0x000F)"

definition set_rcode :: "u8 \<Rightarrow> packet \<Rightarrow> packet" where
  "set_rcode c p = p\<lparr>p_flags := (p_flags p AND 0xFFF0) OR (ucast c AND 0xF)\<rparr>"

definition opcode :: "packet \<Rightarrow> u8" where
  "opcode p = ucast (drop_bit 11 (p_flags p) AND 0xF)"

definition is_aa :: "packet \<Rightarrow> bool" where
  "is_aa p \<longleftrightarrow> p_flags p AND 0x0400 \<noteq> 0"

text \<open>
  The flag operations change only \<^const>\<open>p_flags\<close>; each bit is read back as it was written
  and leaves the others alone.  Every fact below is a statement about single bits.
\<close>

lemma and_bit_iff: "w AND 2 ^ n \<noteq> 0 \<longleftrightarrow> bit w n" for w :: "'a::len word"
proof
  assume "w AND 2 ^ n \<noteq> 0"
  then obtain m where "bit (w AND 2 ^ n) m" by (metis bit_0_eq bit_eq_iff bot_apply bot_bool_def)
  then show "bit w n" by (auto simp: bit_and_iff bit_exp_iff)
next
  assume "bit w n"
  then have "bit (w AND 2 ^ n) n"
    by (auto simp: bit_and_iff bit_exp_iff dest: bit_imp_possible_bit)
  then show "w AND 2 ^ n \<noteq> 0" by auto
qed

lemma flag_exps:
  "0x8000 = (2 ^ 15 :: u16)" "0x0400 = (2 ^ 10 :: u16)" "0x0200 = (2 ^ 9 :: u16)"
  "0x0100 = (2 ^ 8 :: u16)" "0x0080 = (2 ^ 7 :: u16)"
  by simp_all

lemma flag_bits:
  "(w AND 0x8000 \<noteq> 0) = bit w 15" "(w AND 0x0400 \<noteq> 0) = bit w 10"
  "(w AND 0x0200 \<noteq> 0) = bit w 9" "(w AND 0x0100 \<noteq> 0) = bit w 8"
  "(w AND 0x0080 \<noteq> 0) = bit w 7" for w :: u16
  using and_bit_iff [of w 15] and_bit_iff [of w 10] and_bit_iff [of w 9] and_bit_iff [of w 8]
    and_bit_iff [of w 7]
  by (simp_all only: flag_exps)

text \<open>The library would rewrite the mask bits to bits of \<^typ>\<open>int\<close> numerals first.\<close>

lemma bit_flag_masks:
  "bit (0x8000 :: u16) n = (n = 15)" "bit (0x0400 :: u16) n = (n = 10)"
  "bit (0x0200 :: u16) n = (n = 9)" "bit (0x0100 :: u16) n = (n = 8)"
  "bit (0x0080 :: u16) n = (n = 7)"
  by (simp_all only: flag_exps bit_exp_iff) auto

declare bit_numeral_word_iff [simp del]

lemma rcode_masks: "(0x000F :: u16) = mask 4" "(0xFFF0 :: u16) = NOT (mask 4)"
  by (simp_all add: mask_eq_exp_minus_1)

lemmas flag_defs =
  is_response_def is_query_def rd_def truncated_def is_aa_def
  set_aa_def set_tc_def clear_tc_def set_ra_def set_rcode_def new_response_def

lemmas flag_simps =
  flag_defs flag_bits bit_or_iff bit_and_iff bit_not_iff bit_flag_masks rcode_masks
  bit_mask_iff bit_ucast_iff

lemma bit_rcode: "bit (rcode p) n \<longleftrightarrow> n < 4 \<and> bit (p_flags p) n"
  by (auto simp: rcode_def rcode_masks bit_ucast_iff bit_and_iff bit_mask_iff)

lemma rcode_eqI: "(\<And>n. n < 4 \<Longrightarrow> bit (p_flags p) n = bit (p_flags q) n) \<Longrightarrow> rcode p = rcode q"
  by (rule bit_word_eqI) (auto simp: bit_rcode)

lemma rcode_set_rcode [simp]: "rcode (set_rcode c p) = c AND 0xF"
proof -
  have m: "(0xF :: u8) = mask 4" by (simp add: mask_eq_exp_minus_1)
  show ?thesis
    by (rule bit_word_eqI)
      (auto simp: bit_rcode set_rcode_def rcode_masks m bit_and_iff bit_or_iff bit_not_iff
        bit_mask_iff bit_ucast_iff)
qed

lemma rcode_new_response [simp]: "rcode (new_response i f) = 0"
  by (rule bit_word_eqI)
    (auto simp: bit_rcode new_response_def bit_and_iff bit_or_iff bit_flag_masks)

lemma rcode_flag_ops [simp]:
  "rcode (set_aa p) = rcode p" "rcode (set_tc p) = rcode p" "rcode (set_ra p) = rcode p"
  by (rule rcode_eqI;
      simp add: set_aa_def set_tc_def set_ra_def bit_or_iff bit_flag_masks)+

lemma response_flag_ops [simp]:
  "is_response (new_response i f)"
  "is_response (set_aa p) = is_response p" "is_response (set_tc p) = is_response p"
  "is_response (set_ra p) = is_response p" "is_response (set_rcode c p) = is_response p"
  by (auto simp: flag_simps)

lemma aa_flag_ops [simp]:
  "\<not> is_aa (new_response i f)" "is_aa (set_aa p)" "is_aa (set_tc p) = is_aa p"
  "is_aa (set_ra p) = is_aa p" "is_aa (set_rcode c p) = is_aa p"
  by (auto simp: flag_simps)

lemma rd_flag_ops [simp]:
  "rd (new_response i f) = (f AND 0x0100 \<noteq> 0)" "rd (set_aa p) = rd p" "rd (set_tc p) = rd p"
  "rd (set_ra p) = rd p" "rd (set_rcode c p) = rd p"
  by (auto simp: flag_simps)

lemma truncated_flag_ops [simp]:
  "\<not> truncated (new_response i f)" "truncated (set_tc p)" "truncated (set_aa p) = truncated p"
  "\<not> truncated (clear_tc p)" "truncated (set_rcode c p) = truncated p"
  by (auto simp: flag_simps)

text \<open>The flag operations keep every section of the packet.\<close>

lemma sections_flag_ops [simp]:
  "p_id (new_response i f) = i" "p_questions (new_response i f) = []"
  "p_answers (new_response i f) = []" "p_authority (new_response i f) = []"
  "p_additional (new_response i f) = []" "edns_udp_size (new_response i f) = 0"
  "dnssec_ok (new_response i f) = False"
  "p_id (set_aa p) = p_id p" "p_questions (set_aa p) = p_questions p"
  "p_answers (set_aa p) = p_answers p" "p_authority (set_aa p) = p_authority p"
  "p_additional (set_aa p) = p_additional p" "edns_udp_size (set_aa p) = edns_udp_size p"
  "dnssec_ok (set_aa p) = dnssec_ok p"
  "p_id (set_rcode c p) = p_id p" "p_questions (set_rcode c p) = p_questions p"
  "p_answers (set_rcode c p) = p_answers p" "p_authority (set_rcode c p) = p_authority p"
  "p_additional (set_rcode c p) = p_additional p"
  "edns_udp_size (set_rcode c p) = edns_udp_size p" "dnssec_ok (set_rcode c p) = dnssec_ok p"
  "p_id (set_tc p) = p_id p" "p_questions (set_tc p) = p_questions p"
  "p_answers (set_tc p) = p_answers p" "p_authority (set_tc p) = p_authority p"
  "p_additional (set_tc p) = p_additional p" "edns_udp_size (set_tc p) = edns_udp_size p"
  "dnssec_ok (set_tc p) = dnssec_ok p"
  "p_id (set_ra p) = p_id p" "p_questions (set_ra p) = p_questions p"
  "p_answers (set_ra p) = p_answers p" "p_authority (set_ra p) = p_authority p"
  "p_additional (set_ra p) = p_additional p" "edns_udp_size (set_ra p) = edns_udp_size p"
  "dnssec_ok (set_ra p) = dnssec_ok p"
  by (simp_all add: flag_defs)


declare bit_numeral_word_iff [simp]

end
