(* ===== verification/Wire.thy ===== *)
theory Wire
  imports Proto
begin

text \<open>
  The byte-level half of \<open>src/src/proto.rs\<close>: \<open>Parser\<close> as readers over a buffer and a position,
  \<open>Builder\<close> as functions that return the bytes they append, and domain names with label
  compression.  A reader that fails returns the \<open>io::Error\<close> of the source and leaves the
  position where it was.

  Two interfaces are stated as locales and interpreted for every reader: \<open>wire_reader\<close> (a
  reader never moves backwards or past the end of the buffer) and \<open>wire_codec\<close> (a reader
  returns the value its writer wrote).  Sequences of either kind are handled once, inside them.
\<close>

section \<open>Readers\<close>

datatype io_error =
    UnexpectedEof | EofReadingBytes | NameOutOfBounds | PtrOob | PointerLoop | LabelOob

type_synonym 'a reader = "u8 list \<Rightarrow> nat \<Rightarrow> io_error + 'a \<times> nat"

definition rret :: "'a \<Rightarrow> 'a reader" where
  "rret x buf pos = Inr (x, pos)"

definition rbind :: "'a reader \<Rightarrow> ('a \<Rightarrow> 'b reader) \<Rightarrow> 'b reader" where
  "rbind m f buf pos = (case m buf pos of Inl e \<Rightarrow> Inl e | Inr (x, pos') \<Rightarrow> f x buf pos')"

definition p_peek :: "u8 list \<Rightarrow> nat \<Rightarrow> io_error + u8" where
  "p_peek buf pos = (if pos < length buf then Inr (buf ! pos) else Inl UnexpectedEof)"

definition p_u8 :: "u8 reader" where
  "p_u8 buf pos = (case p_peek buf pos of Inl e \<Rightarrow> Inl e | Inr b \<Rightarrow> Inr (b, pos + 1))"

definition p_u16 :: "u16 reader" where
  "p_u16 = rbind p_u8 (\<lambda>hi. rbind p_u8 (\<lambda>lo. rret (of_be16 hi lo)))"

definition p_u32 :: "u32 reader" where
  "p_u32 = rbind p_u16 (\<lambda>hi. rbind p_u16 (\<lambda>lo. rret (of_be32 hi lo)))"

definition p_bytes :: "nat \<Rightarrow> u8 list reader" where
  "p_bytes n buf pos =
     (if pos + n > length buf then Inl EofReadingBytes
      else Inr (take n (drop pos buf), pos + n))"

definition p_remaining :: "u8 list \<Rightarrow> nat \<Rightarrow> nat" where
  "p_remaining buf pos = length buf - pos"

text \<open>\<open>p.bytes(p.remaining())\<close>: everything up to the end of the buffer.\<close>

definition p_rest :: "u8 list reader" where
  "p_rest buf pos = p_bytes (p_remaining buf pos) buf pos"

text \<open>\<open>(0..n).map(|_| read()).collect::<io::Result<Vec<_>>>()\<close>: stops at the first error.\<close>

fun p_many :: "nat \<Rightarrow> 'a reader \<Rightarrow> 'a list reader" where
  "p_many 0 m = rret []"
| "p_many (Suc n) m = rbind m (\<lambda>x. rbind (p_many n m) (\<lambda>xs. rret (x # xs)))"

lemma rbind_Inr [wire_simps]: "m buf pos = Inr (x, pos') \<Longrightarrow> rbind m f buf pos = f x buf pos'"
  by (simp add: rbind_def)

lemma rbind_Inl [wire_simps]: "m buf pos = Inl e \<Longrightarrow> rbind m f buf pos = Inl e"
  by (simp add: rbind_def)

lemma rret_apply [wire_simps]: "rret x buf pos = Inr (x, pos)"
  by (simp add: rret_def)

lemma rbind_eq_Inr:
  "rbind m f buf pos = Inr r \<longleftrightarrow> (\<exists>x p. m buf pos = Inr (x, p) \<and> f x buf p = Inr r)"
  by (auto simp: rbind_def split: sum.splits)

lemma rret_eq_Inr: "rret x buf pos = Inr r \<longleftrightarrow> r = (x, pos)"
  by (auto simp: rret_def)

lemmas reader_inv = rbind_eq_Inr rret_eq_Inr

section \<open>The reader interfaces\<close>

text \<open>\<open>holds_at buf pos bs\<close>: the buffer carries the bytes \<open>bs\<close> at position \<open>pos\<close>.\<close>

definition holds_at :: "u8 list \<Rightarrow> nat \<Rightarrow> u8 list \<Rightarrow> bool" where
  "holds_at buf pos bs \<longleftrightarrow> (\<exists>pre suf. buf = pre @ bs @ suf \<and> pos = length pre)"

lemma holds_atI [intro]: "holds_at (pre @ bs @ suf) (length pre) bs"
  by (auto simp: holds_at_def)

lemma holds_at_self [simp]: "holds_at bs 0 bs"
  using holds_atI [of "[]" bs "[]"] by simp

lemma holds_at_append [simp]:
  "holds_at buf pos (xs @ ys) \<longleftrightarrow> holds_at buf pos xs \<and> holds_at buf (pos + length xs) ys"
proof
  assume "holds_at buf pos (xs @ ys)"
  then obtain pre suf where "buf = pre @ xs @ ys @ suf" "pos = length pre"
    by (auto simp: holds_at_def)
  then show "holds_at buf pos xs \<and> holds_at buf (pos + length xs) ys"
    using holds_atI [of pre xs "ys @ suf"] holds_atI [of "pre @ xs" ys suf] by simp
next
  assume asm: "holds_at buf pos xs \<and> holds_at buf (pos + length xs) ys"
  obtain pre suf where 1: "buf = pre @ xs @ suf" "pos = length pre"
    using asm by (auto simp: holds_at_def)
  obtain pre' suf' where 2: "buf = pre' @ ys @ suf'" "pos + length xs = length pre'"
    using asm unfolding holds_at_def by blast
  note * = 1 2
  from * have "(pre @ xs) @ suf = pre' @ ys @ suf'" "length (pre @ xs) = length pre'"
    by simp_all
  then have "suf = ys @ suf'" using append_eq_append_conv by blast
  with * show "holds_at buf pos (xs @ ys)"
    using holds_atI [of pre "xs @ ys" suf'] by simp
qed

lemma holds_at_Cons:
  "holds_at buf pos (x # xs) \<longleftrightarrow> holds_at buf pos [x] \<and> holds_at buf (pos + 1) xs"
  using holds_at_append [of buf pos "[x]" xs] by simp

lemma holds_at_byte: "holds_at buf pos [b] \<Longrightarrow> pos < length buf \<and> buf ! pos = b"
  by (auto simp: holds_at_def)

lemma holds_at_slice: "holds_at buf pos bs \<Longrightarrow> take (length bs) (drop pos buf) = bs"
  by (auto simp: holds_at_def)

lemma holds_at_le: "holds_at buf pos bs \<Longrightarrow> pos + length bs \<le> length buf"
  by (auto simp: holds_at_def)

text \<open>
  \<open>reads m bs x\<close>: wherever the buffer carries \<open>bs\<close>, the reader consumes exactly them and
  returns \<open>x\<close>.  Readers in sequence read concatenations.
\<close>

definition reads :: "'a reader \<Rightarrow> u8 list \<Rightarrow> 'a \<Rightarrow> bool" where
  "reads m bs x \<longleftrightarrow> (\<forall>buf pos. holds_at buf pos bs \<longrightarrow> m buf pos = Inr (x, pos + length bs))"

lemma readsD: "reads m bs x \<Longrightarrow> holds_at buf pos bs \<Longrightarrow> m buf pos = Inr (x, pos + length bs)"
  by (simp add: reads_def)

lemma reads_ret: "reads (rret x) [] x"
  by (simp add: reads_def rret_def)

lemma reads_bind: "reads m bs x \<Longrightarrow> reads (f x) cs y \<Longrightarrow> reads (rbind m f) (bs @ cs) y"
  by (simp add: reads_def rbind_def add.assoc)

lemma reads_bind_ret: "reads m bs x \<Longrightarrow> g x = y \<Longrightarrow> reads (rbind m (\<lambda>x. rret (g x))) bs y"
  using reads_bind [of m bs x "\<lambda>x. rret (g x)" "[]" y] by (auto intro: reads_ret)

lemma reads_many:
  "(\<And>x. x \<in> set xs \<Longrightarrow> reads m (enc x) (f x)) \<Longrightarrow>
    reads (p_many (length xs) m) (concat (map enc xs)) (map f xs)"
proof (induction xs)
  case Nil
  show ?case by (simp add: reads_ret)
next
  case (Cons x xs)
  have "reads m (enc x) (f x)" using Cons.prems by simp
  moreover have "reads (p_many (length xs) m) (concat (map enc xs)) (map f xs)"
    using Cons.prems by (intro Cons.IH) simp
  ultimately show ?case by (auto intro!: reads_bind reads_bind_ret)
qed

locale wire_reader =
  fixes dec :: "'a reader"
  assumes dec_bounds: "pos \<le> length buf \<Longrightarrow> dec buf pos = Inr (x, pos') \<Longrightarrow>
    pos \<le> pos' \<and> pos' \<le> length buf"
begin

lemma many_bounds:
  "pos \<le> length buf \<Longrightarrow> p_many n dec buf pos = Inr (xs, pos') \<Longrightarrow>
    pos \<le> pos' \<and> pos' \<le> length buf"
proof (induction n arbitrary: pos xs pos')
  case 0
  then show ?case by (auto simp: reader_inv)
next
  case (Suc n)
  from Suc.prems(2) obtain x p ys where
    x: "dec buf pos = Inr (x, p)" and ys: "p_many n dec buf p = Inr (ys, pos')"
    by (auto simp: reader_inv)
  from dec_bounds [OF Suc.prems(1) x] Suc.IH [OF _ ys] show ?case by auto
qed

lemma many_length: "p_many n dec buf pos = Inr (xs, pos') \<Longrightarrow> length xs = n"
  by (induction n arbitrary: pos xs pos') (auto simp: reader_inv)

end

locale wire_codec = wire_reader dec for dec :: "'a reader" +
  fixes enc :: "'a \<Rightarrow> u8 list" and ok :: "'a \<Rightarrow> bool"
  assumes dec_reads: "ok x \<Longrightarrow> reads dec (enc x) x"
begin

lemma dec_enc: "ok x \<Longrightarrow> holds_at buf pos (enc x) \<Longrightarrow> dec buf pos = Inr (x, pos + length (enc x))"
  by (rule readsD) (rule dec_reads)

lemma dec_enc_append: "ok x \<Longrightarrow> dec (pre @ enc x @ suf) (length pre) = Inr (x, length pre + length (enc x))"
  by (rule dec_enc) auto

lemma enc_inject: "ok x \<Longrightarrow> ok y \<Longrightarrow> enc x = enc y \<Longrightarrow> x = y"
  by (metis dec_enc holds_at_self old.sum.inject(2) prod.inject)

lemma many_reads:
  "(\<And>x. x \<in> set xs \<Longrightarrow> ok x) \<Longrightarrow> reads (p_many (length xs) dec) (concat (map enc xs)) xs"
  using reads_many [of xs dec enc "\<lambda>x. x"] dec_reads by simp

end

section \<open>Fixed-width readers\<close>

lemma p_u8_bounds: "p_u8 buf pos = Inr (x, q) \<Longrightarrow> q = pos + 1 \<and> q \<le> length buf"
  by (auto simp: p_u8_def p_peek_def split: if_splits)

lemma p_u16_bounds: "p_u16 buf pos = Inr (x, q) \<Longrightarrow> q = pos + 2 \<and> q \<le> length buf"
  by (auto simp: p_u16_def reader_inv dest!: p_u8_bounds)

lemma p_u32_bounds: "p_u32 buf pos = Inr (x, q) \<Longrightarrow> q = pos + 4 \<and> q \<le> length buf"
  by (auto simp: p_u32_def reader_inv dest!: p_u16_bounds)

lemma p_bytes_bounds:
  "p_bytes n buf pos = Inr (x, q) \<Longrightarrow> q = pos + n \<and> q \<le> length buf \<and> length x = n"
  by (auto simp: p_bytes_def split: if_splits)

lemma p_u8_reads: "reads p_u8 [b] b"
  by (auto simp: reads_def p_u8_def p_peek_def dest!: holds_at_byte)

lemma p_u16_reads: "reads p_u16 (be16 w) w"
proof -
  have "reads p_u16 ([ucast (drop_bit 8 w)] @ [ucast w]) w"
    unfolding p_u16_def by (rule reads_bind [OF p_u8_reads] reads_bind_ret [OF p_u8_reads] of_be16_be16)+
  then show ?thesis by (simp add: be16_def)
qed

lemma p_u32_reads: "reads p_u32 (be32 w) w"
  unfolding p_u32_def be32_def
  by (rule reads_bind [OF p_u16_reads] reads_bind_ret [OF p_u16_reads] of_be32_be32)+

lemma p_bytes_reads: "n = length bs \<Longrightarrow> reads (p_bytes n) bs bs"
  by (auto simp: reads_def p_bytes_def holds_at_slice dest: holds_at_le)

interpretation c8: wire_codec p_u8 "\<lambda>b. [b]" "\<lambda>_. True"
  by unfold_locales (auto dest: p_u8_bounds intro: p_u8_reads)

interpretation c16: wire_codec p_u16 be16 "\<lambda>_. True"
  by unfold_locales (auto dest: p_u16_bounds intro: p_u16_reads)

interpretation c32: wire_codec p_u32 be32 "\<lambda>_. True"
  by unfold_locales (auto dest: p_u32_bounds intro: p_u32_reads)

lemmas int_reads = p_u8_reads p_u16_reads p_u32_reads

lemma p_rest_holds: "p_rest (pre @ bs) (length pre) = Inr (bs, length (pre @ bs))"
  by (simp add: p_rest_def p_remaining_def p_bytes_def)

text \<open>\<open>finishes m bs x\<close>: the reader consumes \<open>bs\<close> up to the end of the buffer and returns \<open>x\<close>.\<close>

definition finishes :: "'a reader \<Rightarrow> u8 list \<Rightarrow> 'a \<Rightarrow> bool" where
  "finishes m bs x \<longleftrightarrow> (\<forall>pre. m (pre @ bs) (length pre) = Inr (x, length (pre @ bs)))"

lemma finishes_bind: "reads m bs x \<Longrightarrow> finishes (f x) cs y \<Longrightarrow> finishes (rbind m f) (bs @ cs) y"
  unfolding finishes_def
proof
  fix pre
  assume m: "reads m bs x" and f: "\<forall>pre. f x (pre @ cs) (length pre) = Inr (y, length (pre @ cs))"
  have "m (pre @ bs @ cs) (length pre) = Inr (x, length (pre @ bs))"
    using readsD [OF m holds_atI [of pre bs cs]] by simp
  with f [rule_format, of "pre @ bs"]
  show "rbind m f (pre @ bs @ cs) (length pre) = Inr (y, length (pre @ bs @ cs))"
    by (simp add: rbind_def)
qed

lemma finishes_rest: "g bs = y \<Longrightarrow> finishes (rbind p_rest (\<lambda>r. rret (g r))) bs y"
  by (simp add: finishes_def rbind_def rret_def p_rest_holds)

end
