(* ===== verification/Names.thy ===== *)
theory Names
  imports Wire
begin

text \<open>
  Domain names of \<open>src/src/proto.rs\<close>: \<open>Parser::name\<close> with its compression pointers and its
  jump limit, \<open>Builder::name\<close> and \<open>canonical_name\<close>.  \<open>name_at\<close> is the wire format of RFC 1035
  section 4.1.4 as a relation; the loop is proved to compute exactly it, up to the jump limit,
  and well-formed names are read back as they were written.
\<close>

section \<open>Parser::name\<close>

text \<open>\<open>from_utf8(label).unwrap_or("?").to_ascii_lowercase()\<close>\<close>

definition label_text :: "u8 list \<Rightarrow> string" where
  "label_text bs = to_lower (if utf8_valid bs then bytes_str bs else ''?'')"

text \<open>
  The \<open>loop\<close> of \<open>Parser::name\<close>.  \<open>spos\<close> is \<open>self.pos\<close>, frozen at the first pointer; \<open>jumps\<close> never
  passes 21, so the \<open>u8\<close> counter of the source does not wrap.
\<close>

function name_loop :: "u8 list \<Rightarrow> nat \<Rightarrow> nat \<Rightarrow> bool \<Rightarrow> nat \<Rightarrow> string list \<Rightarrow>
    io_error + string list \<times> nat" where
  "name_loop buf pos spos jumped jumps parts =
     (if pos \<ge> length buf then Inl NameOutOfBounds
      else let b = buf ! pos in
        if b = 0 then Inr (parts, if jumped then spos else pos + 1)
        else if b AND 0xC0 = 0xC0 then
          (if pos + 1 \<ge> length buf then Inl PtrOob
           else let spos' = (if jumped then spos else pos + 2);
                    offset = push_bit 8 (unat (b AND 0x3F)) OR unat (buf ! (pos + 1));
                    jumps' = jumps + 1
                in if jumps' > 20 then Inl PointerLoop
                   else name_loop buf offset spos' True jumps' parts)
        else let len = unat b; pos' = pos + 1; end' = pos' + len
             in if end' > length buf then Inl LabelOob
                else name_loop buf end' spos jumped jumps
                       (parts @ [label_text (take len (drop pos' buf))]))"
  by pat_completeness auto
termination
  by (relation "measures [\<lambda>(buf, pos, spos, jumped, jumps, parts). 20 - jumps,
                          \<lambda>(buf, pos, spos, jumped, jumps, parts). length buf - pos]") auto

declare name_loop.simps [simp del]

definition name_text :: "string list \<Rightarrow> string" where
  "name_text parts = (if parts = [] then ''.'' else join_dots parts)"

definition p_name :: "string reader" where
  "p_name buf pos =
     (case name_loop buf pos pos False 0 [] of
        Inl e \<Rightarrow> Inl e
      | Inr (parts, pos') \<Rightarrow> Inr (name_text parts, pos'))"

section \<open>The wire format as a relation\<close>

text \<open>
  \<open>name_at buf off j ls end\<close>: a name with the labels \<open>ls\<close> starts at \<open>off\<close>, its in-line part stops
  before \<open>end\<close>, and \<open>j\<close> pointers are followed to read it.
\<close>

definition pointer_target :: "u8 \<Rightarrow> u8 \<Rightarrow> nat" where
  "pointer_target b c = (unat b - 192) * 256 + unat c"

inductive name_at :: "u8 list \<Rightarrow> nat \<Rightarrow> nat \<Rightarrow> u8 list list \<Rightarrow> nat \<Rightarrow> bool" for buf where
  root: "off < length buf \<Longrightarrow> buf ! off = 0 \<Longrightarrow> name_at buf off 0 [] (off + 1)"
| label: "off < length buf \<Longrightarrow> n = unat (buf ! off) \<Longrightarrow> 0 < n \<Longrightarrow> n < 192 \<Longrightarrow>
    off + 1 + n \<le> length buf \<Longrightarrow> name_at buf (off + 1 + n) j ls e \<Longrightarrow>
    name_at buf off j (take n (drop (off + 1) buf) # ls) e"
| pointer: "off + 1 < length buf \<Longrightarrow> 192 \<le> unat (buf ! off) \<Longrightarrow>
    name_at buf (pointer_target (buf ! off) (buf ! (off + 1))) j ls e \<Longrightarrow>
    name_at buf off (Suc j) ls (off + 2)"

lemma name_at_root_Suc: "off < length buf \<Longrightarrow> buf ! off = 0 \<Longrightarrow> name_at buf off 0 [] (Suc off)"
  using name_at.root [of off buf] by simp

text \<open>Inversion at a root label and at an ordinary label.\<close>

inductive_simps name_at_no_labels: "name_at buf off 0 [] e"
inductive_cases name_at_LabelE: "name_at buf off 0 (l # ls) e"

subsection \<open>The top two bits\<close>

lemma bit_u8: "bit b n \<longleftrightarrow> odd (unat b div 2 ^ n)" for b :: u8
proof -
  have "bit b n = bit (unat b) n"
    by (auto simp: bit_unsigned_iff dest: bit_imp_le_length)
  then show ?thesis by (simp add: bit_iff_odd)
qed

lemma bit_0xC0: "bit (0xC0 :: u8) n \<longleftrightarrow> n = 6 \<or> n = 7"
proof -
  have *: "(0xC0 :: u8) = 2 ^ 7 OR 2 ^ 6" by simp
  show ?thesis by (simp only: * bit_or_iff bit_exp_iff) auto
qed

lemma top_bits: "b AND 0xC0 = 0xC0 \<longleftrightarrow> 192 \<le> unat b" for b :: u8
proof -
  have "b AND 0xC0 = 0xC0 \<longleftrightarrow> bit b 6 \<and> bit b 7"
  proof
    assume "b AND 0xC0 = 0xC0"
    then have "bit (b AND 0xC0) n = bit (0xC0 :: u8) n" for n by (rule arg_cong)
    from this [of 6] this [of 7] show "bit b 6 \<and> bit b 7"
      by (simp only: bit_and_iff bit_0xC0) simp
  next
    assume "bit b 6 \<and> bit b 7"
    then show "b AND 0xC0 = 0xC0"
      by (intro bit_word_eqI) (auto simp only: bit_and_iff bit_0xC0)
  qed
  also have "\<dots> \<longleftrightarrow> odd (unat b div 64) \<and> odd (unat b div 64 div 2)"
    by (simp add: bit_u8 flip: div_mult2_eq)
  also have "\<dots> \<longleftrightarrow> unat b div 64 = 3"
  proof -
    have "unat b div 64 < 4" using unat_u8_less [of b] by (simp add: div_less_iff_less_mult)
    then consider "unat b div 64 = 0" | "unat b div 64 = 1" | "unat b div 64 = 2"
      | "unat b div 64 = 3" by linarith
    then show ?thesis by cases simp_all
  qed
  also have "\<dots> \<longleftrightarrow> 192 \<le> unat b"
    using unat_u8_less [of b] by linarith
  finally show ?thesis .
qed

lemma pointer_offset:
  fixes b c :: u8
  assumes "192 \<le> unat b"
  shows "push_bit 8 (unat (b AND 0x3F)) OR unat c = pointer_target b c"
proof -
  have m: "(0x3F :: u8) = mask 6" by (simp add: mask_eq_exp_minus_1)
  have "unat (b AND 0x3F) = unat b mod 64"
    by (simp only: m unsigned_take_bit_eq flip: take_bit_eq_mask) (simp add: take_bit_eq_mod)
  moreover have "unat b mod 64 = unat b - 192"
  proof -
    obtain k where k: "unat b = 192 + k" using assms by (auto simp: le_iff_add)
    then have "k < 64" using unat_u8_less [of b] by simp
    moreover have "(192 + k) mod 64 = k mod 64" by (simp add: mod_add_left_eq [of 192, symmetric])
    ultimately show ?thesis using k by simp
  qed
  moreover have "push_bit 8 n OR unat c = push_bit 8 n + unat c" for n :: nat
    by (rule disjunctive_add [symmetric])
      (auto simp: bit_push_bit_iff bit_unsigned_iff dest: bit_imp_le_length)
  ultimately show ?thesis
    by (simp add: pointer_target_def push_bit_eq_mult)
qed

lemma u8_eq_0: "b = 0 \<longleftrightarrow> unat b = 0" for b :: u8
  by (simp add: unat_eq_0)

text \<open>The three kinds of step of the loop.\<close>

lemma name_loop_root:
  "pos < length buf \<Longrightarrow> buf ! pos = 0 \<Longrightarrow>
    name_loop buf pos spos jumped jumps parts = Inr (parts, if jumped then spos else pos + 1)"
  by (subst name_loop.simps) simp

lemma name_loop_label:
  "pos < length buf \<Longrightarrow> n = unat (buf ! pos) \<Longrightarrow> 0 < n \<Longrightarrow> n < 192 \<Longrightarrow>
    name_loop buf pos spos jumped jumps parts =
    (if pos + 1 + n > length buf then Inl LabelOob
     else name_loop buf (pos + 1 + n) spos jumped jumps
            (parts @ [label_text (take n (drop (pos + 1) buf))]))"
  by (subst name_loop.simps) (auto simp: Let_def top_bits)

lemma name_loop_pointer:
  "pos < length buf \<Longrightarrow> 192 \<le> unat (buf ! pos) \<Longrightarrow>
    name_loop buf pos spos jumped jumps parts =
    (if pos + 1 \<ge> length buf then Inl PtrOob
     else if jumps + 1 > 20 then Inl PointerLoop
     else name_loop buf (pointer_target (buf ! pos) (buf ! (pos + 1)))
            (if jumped then spos else pos + 2) True (jumps + 1) parts)"
  by (subst name_loop.simps) (auto simp: Let_def top_bits pointer_offset)

subsection \<open>The loop computes the relation\<close>

lemma name_loop_complete:
  "name_at buf off j ls e \<Longrightarrow> jumps + j \<le> 20 \<Longrightarrow>
    name_loop buf off spos jumped jumps parts =
      Inr (parts @ map label_text ls, if jumped then spos else e)"
proof (induction arbitrary: spos jumped jumps parts rule: name_at.induct)
  case (root off)
  then show ?case by (simp add: name_loop_root)
next
  case (label off n j ls e)
  then show ?case by (simp add: name_loop_label)
next
  case (pointer off j ls e)
  then show ?case by (auto simp: name_loop_pointer)
qed

lemma name_loop_sound:
  "name_loop buf off spos jumped jumps parts = Inr (ps, e) \<Longrightarrow> jumps \<le> 20 \<Longrightarrow>
    \<exists>j ls e'. jumps + j \<le> 20 \<and> name_at buf off j ls e' \<and>
      ps = parts @ map label_text ls \<and> e = (if jumped then spos else e')"
proof (induction buf off spos jumped jumps parts arbitrary: ps e rule: name_loop.induct)
  case (1 buf pos spos jumped jumps parts)
  have len: "pos < length buf"
    using "1.prems" by (subst (asm) name_loop.simps) (auto split: if_splits)
  consider (root) "buf ! pos = 0" | (ptr) "192 \<le> unat (buf ! pos)"
    | (lab) "0 < unat (buf ! pos)" "unat (buf ! pos) < 192"
    using u8_eq_0 [of "buf ! pos"] by linarith
  then show ?case
  proof cases
    case root
    with "1.prems" len have "ps = parts" "e = (if jumped then spos else pos + 1)"
      by (auto simp: name_loop_root)
    with "1.prems"(2) name_at.root [OF len root] show ?thesis
      by (intro exI [of _ 0] exI [of _ "[]"] exI [of _ "pos + 1"]) simp
  next
    case ptr
    let ?t = "pointer_target (buf ! pos) (buf ! (pos + 1))"
    let ?s = "if jumped then spos else pos + 2"
    from "1.prems"(1) len ptr have *: "pos + 1 < length buf" "jumps + 1 \<le> 20"
      "name_loop buf ?t ?s True (jumps + 1) parts = Inr (ps, e)"
      by (auto simp: name_loop_pointer split: if_splits)
    have "\<exists>j ls e'. jumps + 1 + j \<le> 20 \<and> name_at buf ?t j ls e' \<and>
        ps = parts @ map label_text ls \<and> e = ?s"
      using "1.IH"(1) [OF _ refl _ _ _ refl refl refl _ _, of ps e] len ptr *
      by (auto simp: top_bits pointer_offset u8_eq_0)
    then obtain j ls e' where "jumps + 1 + j \<le> 20" "name_at buf ?t j ls e'"
        "ps = parts @ map label_text ls" "e = ?s" by blast
    then show ?thesis
      using name_at.pointer [of pos buf j ls e'] * ptr
      by (intro exI [of _ "Suc j"] exI [of _ ls] exI [of _ "pos + 2"]) auto
  next
    case lab
    let ?n = "unat (buf ! pos)"
    let ?l = "take ?n (drop (pos + 1) buf)"
    from "1.prems"(1) len lab have *: "pos + 1 + ?n \<le> length buf"
      "name_loop buf (pos + 1 + ?n) spos jumped jumps (parts @ [label_text ?l]) = Inr (ps, e)"
      by (auto simp: name_loop_label split: if_splits)
    have "\<exists>j ls e'. jumps + j \<le> 20 \<and> name_at buf (pos + 1 + ?n) j ls e' \<and>
        ps = (parts @ [label_text ?l]) @ map label_text ls \<and> e = (if jumped then spos else e')"
      using "1.IH"(2) [OF _ refl _ _ refl refl refl _ , of ps e] "1.prems"(2) len lab *
      by (auto simp: top_bits u8_eq_0)
    then obtain j ls e' where "jumps + j \<le> 20" "name_at buf (pos + 1 + ?n) j ls e'"
        "ps = (parts @ [label_text ?l]) @ map label_text ls" "e = (if jumped then spos else e')"
      by blast
    then show ?thesis
      using name_at.label [of pos buf ?n j ls e'] * len lab
      by (intro exI [of _ j] exI [of _ "?l # ls"] exI [of _ e']) auto
  qed
qed

lemma p_name_iff:
  "p_name buf pos = Inr (n, e) \<longleftrightarrow>
    (\<exists>j ls. j \<le> 20 \<and> name_at buf pos j ls e \<and> n = name_text (map label_text ls))"
proof
  assume "p_name buf pos = Inr (n, e)"
  then obtain ps where "name_loop buf pos pos False 0 [] = Inr (ps, e)" "n = name_text ps"
    by (auto simp: p_name_def split: sum.splits)
  then show "\<exists>j ls. j \<le> 20 \<and> name_at buf pos j ls e \<and> n = name_text (map label_text ls)"
    using name_loop_sound [of buf pos pos False 0 "[]" ps e] by auto
next
  assume "\<exists>j ls. j \<le> 20 \<and> name_at buf pos j ls e \<and> n = name_text (map label_text ls)"
  then show "p_name buf pos = Inr (n, e)"
    using name_loop_complete [where jumps = 0 and jumped = False and parts = "[]"]
    by (fastforce simp: p_name_def)
qed

lemma name_at_bounds: "name_at buf off j ls e \<Longrightarrow> off < e \<and> e \<le> length buf"
  by (induction rule: name_at.induct) auto

lemma p_name_bounds: "p_name buf pos = Inr (n, q) \<Longrightarrow> pos < q \<and> q \<le> length buf"
  by (auto simp: p_name_iff dest: name_at_bounds)

lemma label_text_lower: "to_lower (label_text bs) = label_text bs"
  by (simp add: label_text_def)

lemma to_lower_join_dots: "to_lower (join_dots ls) = join_dots (map to_lower ls)"
  by (induction "CHR ''.''" ls rule: join_on.induct) (simp_all add: to_lower_Cons)

text \<open>Parsed names are in lower case, so the later lookups by lowercased keys are exact.\<close>

lemma p_name_lower: "p_name buf pos = Inr (n, q) \<Longrightarrow> to_lower n = n"
  by (auto simp: p_name_iff name_text_def to_lower_join_dots label_text_lower comp_def
      to_lower_Cons)

section \<open>Builder::name and canonical_name\<close>

definition b_label :: "string \<Rightarrow> u8 list" where
  "b_label l = of_nat (length l) # str_bytes l"

lemma length_b_label [simp, wire_len]: "length (b_label l) = length l + 1"
  by (simp add: b_label_def)

definition b_name :: "string \<Rightarrow> u8 list" where
  "b_name name =
     (if name = ''.'' \<or> name = '''' then [0]
      else concat (map b_label (filter (\<lambda>l. l \<noteq> []) (split_dots (trim_end_dots name)))) @ [0])"

definition canonical_name :: "string \<Rightarrow> u8 list" where
  "canonical_name name =
     (let trimmed = trim_end_dots (to_lower name)
      in if trimmed = [] then [0]
         else concat (map b_label (split_dots trimmed)) @ [0])"

text \<open>
  A well-formed label is what \<open>Parser::name\<close> can return and the server can write back: not
  empty, below the pointer range, without a dot, lower case and UTF-8.
\<close>

definition wf_label :: "string \<Rightarrow> bool" where
  "wf_label l \<longleftrightarrow> l \<noteq> [] \<and> length l < 192 \<and> CHR ''.'' \<notin> set l \<and> to_lower l = l \<and>
     utf8_valid (str_bytes l)"

definition wf_name :: "string \<Rightarrow> bool" where
  "wf_name n \<longleftrightarrow> n = ''.'' \<or> list_all wf_label (split_dots n)"

lemma wf_label_text: "wf_label l \<Longrightarrow> label_text (str_bytes l) = l"
  by (simp add: wf_label_def label_text_def comp_def)

lemma wf_name_labels:
  assumes "wf_name n" "n \<noteq> ''.''"
  shows "n \<noteq> []" "trim_end_dots n = n" "filter (\<lambda>l. l \<noteq> []) (split_dots n) = split_dots n"
    "to_lower n = n"
proof -
  have all: "\<forall>l\<in>set (split_dots n). wf_label l"
    using assms by (simp add: wf_name_def list_all_iff)
  show "n \<noteq> []" using all by (auto simp: wf_label_def)
  have last: "last (split_dots n) \<in> set (split_dots n)" by simp
  with all have "last n = last (last (split_dots n))" "last (split_dots n) \<noteq> []"
    using last_join_on [of "split_dots n" "CHR ''.''"] by (auto simp: wf_label_def)
  with last all show "trim_end_dots n = n"
    by (metis last_in_set trim_end_dots_id wf_label_def)
  show "filter (\<lambda>l. l \<noteq> []) (split_dots n) = split_dots n"
    using all by (auto simp: wf_label_def intro: filter_True)
  have "map to_lower (split_dots n) = split_dots n"
    using all by (intro map_idI) (auto simp: wf_label_def)
  then show "to_lower n = n"
    by (metis join_on_split_on to_lower_join_dots)
qed

lemma b_name_wf:
  "wf_name n \<Longrightarrow> n \<noteq> ''.'' \<Longrightarrow> b_name n = concat (map b_label (split_dots n)) @ [0]"
  using wf_name_labels [of n] by (simp add: b_name_def)

lemma b_name_root [simp]: "b_name ''.'' = [0]"
  by (simp add: b_name_def)

lemma canonical_name_wf: "wf_name n \<Longrightarrow> canonical_name n = b_name n"
proof (cases "n = ''.''")
  case True
  then show ?thesis by (simp add: canonical_name_def to_lower_Cons trim_end_dots_def)
next
  case False
  assume "wf_name n"
  with False show ?thesis
    using wf_name_labels [of n] by (simp add: b_name_wf canonical_name_def)
qed

lemma b_name_trim: "b_name (trim_end_dots n) = b_name n"
proof (cases "n = ''.'' \<or> n = []")
  case True
  then show ?thesis by (auto simp: b_name_def trim_end_dots_def)
next
  case False
  then show ?thesis
    using trim_end_dots_last [of n] by (auto simp: b_name_def)
qed

lemma name_at_labels:
  "(\<And>l. l \<in> set ls \<Longrightarrow> wf_label l) \<Longrightarrow> holds_at buf pos (concat (map b_label ls) @ [0]) \<Longrightarrow>
    name_at buf pos 0 (map str_bytes ls) (pos + length (concat (map b_label ls)) + 1)"
proof (induction ls arbitrary: pos)
  case Nil
  then show ?case by (auto dest!: holds_at_byte intro: name_at_root_Suc)
next
  case (Cons l ls)
  have wf: "wf_label l" using Cons.prems(1) by simp
  have l: "holds_at buf pos (b_label l)"
    and ls: "holds_at buf (pos + length (b_label l)) (concat (map b_label ls) @ [0])"
    using Cons.prems(2) by simp_all
  have h: "holds_at buf pos [of_nat (length l)]" "holds_at buf (pos + 1) (str_bytes l)"
    "holds_at buf (pos + 1 + length l) (concat (map b_label ls) @ [0])"
    using l holds_at_Cons [of buf pos "of_nat (length l)" "str_bytes l"] ls
    unfolding b_label_def by auto
  have n: "unat (of_nat (length l) :: u8) = length l"
    using wf by (simp add: wf_label_def unat_of_nat)
  have "name_at buf (pos + 1 + length l) 0 (map str_bytes ls)
      (pos + 1 + length l + length (concat (map b_label ls)) + 1)"
    using Cons.prems(1) h(3) by (intro Cons.IH) auto
  then have "name_at buf pos 0 (take (length l) (drop (pos + 1) buf) # map str_bytes ls)
      (pos + 1 + length l + length (concat (map b_label ls)) + 1)"
    using holds_at_byte [OF h(1)] holds_at_le [OF h(2)] wf
    by (intro name_at.label) (auto simp: n wf_label_def)
  then show ?case using holds_at_slice [OF h(2)] by (simp add: ac_simps)
qed

lemma p_name_b_name:
  assumes wf: "wf_name n" and h: "holds_at buf pos (b_name n)"
  shows "p_name buf pos = Inr (n, pos + length (b_name n))"
proof (cases "n = ''.''")
  case True
  with h show ?thesis
    using name_at.root [of pos buf] by (auto simp: p_name_iff name_text_def dest!: holds_at_byte)
next
  case False
  let ?ls = "split_dots n"
  have all: "\<And>l. l \<in> set ?ls \<Longrightarrow> wf_label l"
    using wf False by (simp add: wf_name_def list_all_iff)
  have "name_at buf pos 0 (map str_bytes ?ls) (pos + length (b_name n))"
    using name_at_labels [of ?ls buf pos] all h b_name_wf [OF wf False] by simp
  moreover have "map (label_text \<circ> str_bytes) ?ls = ?ls"
    using all by (intro map_idI) (simp add: wf_label_text)
  ultimately show ?thesis
    by (auto simp: p_name_iff name_text_def intro!: exI [of _ 0] exI [of _ "map str_bytes ?ls"])
qed

interpretation cname: wire_codec p_name b_name wf_name
  by unfold_locales (auto simp: reads_def dest: p_name_bounds p_name_b_name)

end
