(* ===== verification/Message.thy ===== *)
theory Message
  imports Names
begin

text \<open>
  Whole messages of \<open>src/src/proto.rs\<close>: records and their name-carrying rdata, the packet
  parser, \<open>serialize\<close>, and the parsed forms of RRSIG, DNSKEY and DS.
\<close>

section \<open>Builder::question, Builder::record, Builder::opt\<close>

definition b_question :: "question \<Rightarrow> u8 list" where
  "b_question q = b_name (q_name q) @ be16 (rtype_to (q_type q)) @ be16 (q_class q)"

definition b_record :: "rr \<Rightarrow> u8 list" where
  "b_record r =
     b_name (r_name r) @ be16 (rtype_to (r_type r)) @ be16 (r_class r) @ be32 (r_ttl r) @
     be16 (of_nat (length (r_rdata r))) @ r_rdata r"

definition b_opt :: "u16 \<Rightarrow> bool \<Rightarrow> u8 list" where
  "b_opt udp_size do_bit =
     [0] @ be16 41 @ be16 udp_size @ be32 (if do_bit then 0x8000 else 0) @ be16 0"

section \<open>decompress_rdata\<close>

text \<open>
  Names inside rdata may be compressed against the whole packet, so they are read from
  \<open>pkt_buf\<close> at \<open>rdata_offset\<close>; whenever that fails the raw rdata is kept.  The SOA branch reads
  its five integers from the packet as well: the length test of the source has an empty body.
\<close>

definition b_mx :: "u16 \<Rightarrow> string \<Rightarrow> u8 list" where
  "b_mx pref name = be16 pref @ b_name name"

definition b_srv :: "u16 \<Rightarrow> u16 \<Rightarrow> u16 \<Rightarrow> string \<Rightarrow> u8 list" where
  "b_srv priority weight port name = be16 priority @ be16 weight @ be16 port @ b_name name"

definition b_soa :: "string \<Rightarrow> string \<Rightarrow> u32 \<Rightarrow> u32 \<Rightarrow> u32 \<Rightarrow> u32 \<Rightarrow> u32 \<Rightarrow> u8 list" where
  "b_soa mname rname serial refresh retry expire minimum =
     b_name mname @ b_name rname @ be32 serial @ be32 refresh @ be32 retry @ be32 expire @
     be32 minimum"

definition p_soa_rdata :: "u8 list reader" where
  "p_soa_rdata =
     rbind p_name (\<lambda>mname. rbind p_name (\<lambda>rname.
     rbind p_u32 (\<lambda>serial. rbind p_u32 (\<lambda>refresh. rbind p_u32 (\<lambda>retry.
     rbind p_u32 (\<lambda>expire. rbind p_u32 (\<lambda>minimum.
       rret (b_soa mname rname serial refresh retry expire minimum))))))))"

definition decompress_rdata :: "u8 list \<Rightarrow> RType \<Rightarrow> u8 list \<Rightarrow> nat \<Rightarrow> u8 list" where
  "decompress_rdata pkt_buf t rdata rdata_offset =
     (case t of
        NS \<Rightarrow> (case p_name pkt_buf rdata_offset of
                 Inr (name, _) \<Rightarrow> canonical_name name | Inl _ \<Rightarrow> rdata)
      | CNAME \<Rightarrow> (case p_name pkt_buf rdata_offset of
                 Inr (name, _) \<Rightarrow> canonical_name name | Inl _ \<Rightarrow> rdata)
      | PTR \<Rightarrow> (case p_name pkt_buf rdata_offset of
                 Inr (name, _) \<Rightarrow> canonical_name name | Inl _ \<Rightarrow> rdata)
      | MX \<Rightarrow>
          (if length rdata < 2 then rdata
           else case p_name pkt_buf (rdata_offset + 2) of
                  Inr (name, _) \<Rightarrow> b_mx (of_be16 (rdata ! 0) (rdata ! 1)) name
                | Inl _ \<Rightarrow> rdata)
      | SOA \<Rightarrow> (case p_soa_rdata pkt_buf rdata_offset of
                 Inr (bytes, _) \<Rightarrow> bytes | Inl _ \<Rightarrow> rdata)
      | SRV \<Rightarrow>
          (if length rdata < 6 then rdata
           else case p_name pkt_buf (rdata_offset + 6) of
                  Inr (name, _) \<Rightarrow>
                    b_srv (of_be16 (rdata ! 0) (rdata ! 1)) (of_be16 (rdata ! 2) (rdata ! 3))
                      (of_be16 (rdata ! 4) (rdata ! 5)) name
                | Inl _ \<Rightarrow> rdata)
      | _ \<Rightarrow> rdata)"

section \<open>Parser::record and Parser::parse\<close>

definition p_question :: "question reader" where
  "p_question =
     rbind p_name (\<lambda>name. rbind p_u16 (\<lambda>t. rbind p_u16 (\<lambda>c.
       rret \<lparr>q_name = name, q_type = rtype_from t, q_class = c\<rparr>)))"

text \<open>\<open>self.bytes(rdlen)\<close> followed by \<open>decompress_rdata\<close> at the offset where it started.\<close>

definition p_rdata :: "RType \<Rightarrow> nat \<Rightarrow> u8 list reader" where
  "p_rdata t rdlen buf pos =
     (case p_bytes rdlen buf pos of
        Inl e \<Rightarrow> Inl e
      | Inr (raw, pos') \<Rightarrow> Inr (decompress_rdata buf t raw pos, pos'))"

definition p_record :: "rr reader" where
  "p_record =
     rbind p_name (\<lambda>name. rbind p_u16 (\<lambda>t. rbind p_u16 (\<lambda>cls. rbind p_u32 (\<lambda>ttl.
     rbind p_u16 (\<lambda>rdlen. rbind (p_rdata (rtype_from t) (unat rdlen)) (\<lambda>rdata.
       rret \<lparr>r_name = name, r_type = rtype_from t, r_class = cls, r_ttl = ttl,
              r_rdata = rdata\<rparr>))))))"

text \<open>
  The EDNS scan over the additional section: every OPT record overwrites the payload size and
  the DO bit, every other record is kept.
\<close>

fun edns_scan :: "rr list \<Rightarrow> u16 \<Rightarrow> bool \<Rightarrow> rr list \<Rightarrow> rr list \<times> u16 \<times> bool" where
  "edns_scan [] sz do_bit additional = (additional, sz, do_bit)"
| "edns_scan (rec # recs) sz do_bit additional =
     (if r_type rec = OPT
      then edns_scan recs (r_class rec) (r_ttl rec AND 0x8000 \<noteq> 0) additional
      else edns_scan recs sz do_bit (additional @ [rec]))"

definition p_packet :: "packet reader" where
  "p_packet =
     rbind p_u16 (\<lambda>pid. rbind p_u16 (\<lambda>flags. rbind p_u16 (\<lambda>qdcount. rbind p_u16 (\<lambda>ancount.
     rbind p_u16 (\<lambda>nscount. rbind p_u16 (\<lambda>arcount.
     rbind (p_many (unat qdcount) p_question) (\<lambda>questions.
     rbind (p_many (unat ancount) p_record) (\<lambda>answers.
     rbind (p_many (unat nscount) p_record) (\<lambda>authority.
     rbind (p_many (unat arcount) p_record) (\<lambda>additional_raw.
       case edns_scan additional_raw 0 False [] of (additional, sz, do_bit) \<Rightarrow>
         rret \<lparr>p_id = pid, p_flags = flags, p_questions = questions, p_answers = answers,
               p_authority = authority, p_additional = additional,
               edns_udp_size = sz, dnssec_ok = do_bit\<rparr>))))))))))"

text \<open>\<open>Parser::new(buf).parse()\<close>\<close>

definition parse :: "u8 list \<Rightarrow> io_error + packet" where
  "parse buf = (case p_packet buf 0 of Inl e \<Rightarrow> Inl e | Inr (p, _) \<Rightarrow> Inr p)"

section \<open>serialize\<close>

definition with_opt :: "packet \<Rightarrow> bool \<Rightarrow> bool" where
  "with_opt pkt include_edns \<longleftrightarrow> include_edns \<and> edns_udp_size pkt > 0"

definition serialize :: "packet \<Rightarrow> bool \<Rightarrow> u8 list" where
  "serialize pkt include_edns =
     be16 (p_id pkt) @ be16 (p_flags pkt) @
     be16 (of_nat (length (p_questions pkt))) @ be16 (of_nat (length (p_answers pkt))) @
     be16 (of_nat (length (p_authority pkt))) @
     be16 (of_nat (length (p_additional pkt) + (if with_opt pkt include_edns then 1 else 0))) @
     concat (map b_question (p_questions pkt)) @ concat (map b_record (p_answers pkt)) @
     concat (map b_record (p_authority pkt)) @ concat (map b_record (p_additional pkt)) @
     (if with_opt pkt include_edns then b_opt (edns_udp_size pkt) (dnssec_ok pkt) else [])"

section \<open>Canonical records, RRSIG, DNSKEY, DS\<close>

definition canonical_rr :: "rr \<Rightarrow> u8 list" where
  "canonical_rr r =
     b_name (to_lower (r_name r)) @ be16 (rtype_to (r_type r)) @ be16 (r_class r) @
     be32 (r_ttl r) @ be16 (of_nat (length (r_rdata r))) @ r_rdata r"

definition p_rrsig :: "rrsig_fields reader" where
  "p_rrsig =
     rbind p_u16 (\<lambda>tc. rbind p_u8 (\<lambda>alg. rbind p_u8 (\<lambda>labels. rbind p_u32 (\<lambda>ottl.
     rbind p_u32 (\<lambda>expiry. rbind p_u32 (\<lambda>inception. rbind p_u16 (\<lambda>tag. rbind p_name (\<lambda>signer.
     rbind p_rest (\<lambda>sig.
       rret \<lparr>type_covered = tc, sig_algorithm = alg, sig_labels = labels, orig_ttl = ottl,
             sig_expiry = expiry, sig_inception = inception, sig_key_tag = tag,
             signer_name = signer, signature = sig\<rparr>)))))))))"

definition p_dnskey :: "dnskey_fields reader" where
  "p_dnskey =
     rbind p_u16 (\<lambda>flags. rbind p_u8 (\<lambda>proto. rbind p_u8 (\<lambda>alg. rbind p_rest (\<lambda>key.
       rret \<lparr>dk_flags = flags, dk_protocol = proto, dk_algorithm = alg, public_key = key\<rparr>))))"

definition p_ds :: "ds_fields reader" where
  "p_ds =
     rbind p_u16 (\<lambda>tag. rbind p_u8 (\<lambda>alg. rbind p_u8 (\<lambda>dt. rbind p_rest (\<lambda>dg.
       rret \<lparr>ds_key_tag = tag, ds_algorithm = alg, digest_type = dt, digest = dg\<rparr>))))"

definition run_reader :: "'a reader \<Rightarrow> u8 list \<Rightarrow> io_error + 'a" where
  "run_reader m buf = (case m buf 0 of Inl e \<Rightarrow> Inl e | Inr (x, _) \<Rightarrow> Inr x)"

definition parse_rrsig :: "u8 list \<Rightarrow> io_error + rrsig_fields" where
  "parse_rrsig = run_reader p_rrsig"

definition parse_dnskey :: "u8 list \<Rightarrow> io_error + dnskey_fields" where
  "parse_dnskey = run_reader p_dnskey"

definition parse_ds :: "u8 list \<Rightarrow> io_error + ds_fields" where
  "parse_ds = run_reader p_ds"

definition is_zone_key :: "dnskey_fields \<Rightarrow> bool" where
  "is_zone_key k \<longleftrightarrow> dk_flags k AND 0x0100 \<noteq> 0"

definition is_sep :: "dnskey_fields \<Rightarrow> bool" where
  "is_sep k \<longleftrightarrow> dk_flags k AND 0x0001 \<noteq> 0"

text \<open>\<open>Dnskey::key_tag\<close> (RFC 4034 appendix B): a 32-bit accumulator over the rdata.\<close>

fun key_tag_sum :: "nat \<Rightarrow> u8 list \<Rightarrow> u32 \<Rightarrow> u32" where
  "key_tag_sum i [] ac = ac"
| "key_tag_sum i (b # bs) ac =
     key_tag_sum (i + 1) bs (ac + (if even i then push_bit 8 (ucast b) else ucast b))"

definition key_tag :: "u8 list \<Rightarrow> u16" where
  "key_tag raw_rdata =
     (let ac = key_tag_sum 0 raw_rdata 0; ac' = ac + drop_bit 16 ac in ucast (ac' AND 0xFFFF))"


lemma run_reader_finishes: "finishes m bs x \<Longrightarrow> run_reader m bs = Inr x"
  using spec [of "\<lambda>pre. m (pre @ bs) (length pre) = Inr (x, length (pre @ bs))" "[]"]
  by (simp add: finishes_def run_reader_def)

text \<open>The parsed forms of rdata laid out field by field.\<close>

lemma parse_rrsig_bytes:
  assumes "wf_name signer"
  shows "parse_rrsig (be16 tc @ [alg, labels] @ be32 ottl @ be32 expiry @ be32 inception @ be16 tag @
      b_name signer @ sig) =
    Inr \<lparr>type_covered = tc, sig_algorithm = alg, sig_labels = labels, orig_ttl = ottl,
         sig_expiry = expiry, sig_inception = inception, sig_key_tag = tag, signer_name = signer,
         signature = sig\<rparr>" (is "parse_rrsig ?bs = Inr ?x")
proof -
  have "finishes p_rrsig (be16 tc @ [alg] @ [labels] @ be32 ottl @ be32 expiry @ be32 inception @
      be16 tag @ b_name signer @ sig) ?x"
    unfolding p_rrsig_def
    by (rule finishes_bind [OF p_u16_reads] finishes_bind [OF p_u8_reads] finishes_bind [OF p_u32_reads]
        finishes_bind [OF cname.dec_reads [OF assms]] finishes_rest refl)+
  then show ?thesis by (simp add: parse_rrsig_def run_reader_finishes)
qed

lemma parse_dnskey_bytes:
  "parse_dnskey (be16 flags @ [proto, alg] @ key) =
    Inr \<lparr>dk_flags = flags, dk_protocol = proto, dk_algorithm = alg, public_key = key\<rparr>"
    (is "_ = Inr ?x")
proof -
  have "finishes p_dnskey (be16 flags @ [proto] @ [alg] @ key) ?x"
    unfolding p_dnskey_def
    by (rule finishes_bind [OF p_u16_reads] finishes_bind [OF p_u8_reads] finishes_rest refl)+
  then show ?thesis by (simp add: parse_dnskey_def run_reader_finishes)
qed

lemma parse_ds_bytes:
  "parse_ds (be16 tag @ [alg, dt] @ dg) =
    Inr \<lparr>ds_key_tag = tag, ds_algorithm = alg, digest_type = dt, digest = dg\<rparr>" (is "_ = Inr ?x")
proof -
  have "finishes p_ds (be16 tag @ [alg] @ [dt] @ dg) ?x"
    unfolding p_ds_def
    by (rule finishes_bind [OF p_u16_reads] finishes_bind [OF p_u8_reads] finishes_rest refl)+
  then show ?thesis by (simp add: parse_ds_def run_reader_finishes)
qed

section \<open>Well-formed data\<close>

definition name_bytes :: "u8 list \<Rightarrow> bool" where
  "name_bytes bs \<longleftrightarrow> (case p_name bs 0 of Inl _ \<Rightarrow> False | Inr (n, _) \<Rightarrow> wf_name n \<and> b_name n = bs)"

text \<open>Rdata that the server keeps as it is: uncompressed well-formed names where names occur.\<close>

definition wf_rdata :: "RType \<Rightarrow> u8 list \<Rightarrow> bool" where
  "wf_rdata t rdat \<longleftrightarrow>
     (if t = NS \<or> t = CNAME \<or> t = PTR then name_bytes rdat
      else if t = MX then 2 \<le> length rdat \<and> name_bytes (drop 2 rdat)
      else if t = SRV then 6 \<le> length rdat \<and> name_bytes (drop 6 rdat)
      else if t = SOA then
        (case p_name rdat 0 of Inl _ \<Rightarrow> False | Inr (m, e1) \<Rightarrow>
           (case p_name rdat e1 of Inl _ \<Rightarrow> False | Inr (r, e2) \<Rightarrow>
              wf_name m \<and> wf_name r \<and> b_name m @ b_name r @ drop e2 rdat = rdat \<and>
              length (drop e2 rdat) = 20))
      else True)"

definition wf_question :: "question \<Rightarrow> bool" where
  "wf_question q \<longleftrightarrow> wf_name (q_name q) \<and> canonical_rtype (q_type q)"

definition wf_record :: "rr \<Rightarrow> bool" where
  "wf_record r \<longleftrightarrow> wf_name (r_name r) \<and> canonical_rtype (r_type r) \<and>
     length (r_rdata r) < 65536 \<and> wf_rdata (r_type r) (r_rdata r)"

definition wf_packet :: "packet \<Rightarrow> bool" where
  "wf_packet p \<longleftrightarrow>
     list_all wf_question (p_questions p) \<and> list_all wf_record (p_answers p) \<and>
     list_all wf_record (p_authority p) \<and>
     list_all (\<lambda>r. wf_record r \<and> r_type r \<noteq> OPT) (p_additional p) \<and>
     length (p_questions p) < 65536 \<and> length (p_answers p) < 65536 \<and>
     length (p_authority p) < 65536 \<and> length (p_additional p) + 1 < 65536"

lemma name_bytesE:
  assumes "name_bytes bs" obtains n where "wf_name n" "bs = b_name n"
  using assms by (auto simp: name_bytes_def split: sum.splits)

lemma name_bytes_b_name: "wf_name n \<Longrightarrow> name_bytes (b_name n)"
  by (simp add: name_bytes_def cname.dec_enc)

lemma wf_rdata_SOA:
  assumes "wf_rdata SOA rdat"
  obtains m r where "wf_name m" "wf_name r"
    "\<exists>tail. b_name m @ b_name r @ tail = rdat \<and> length tail = 20"
proof (cases "p_name rdat 0")
  case (Inr x)
  obtain m e1 where x: "x = (m, e1)" by (cases x)
  show ?thesis
  proof (cases "p_name rdat e1")
    case (Inr y)
    obtain r e2 where "y = (r, e2)" by (cases y)
    with assms Inr \<open>p_name rdat 0 = Inr x\<close> x show ?thesis
      by (intro that [of m r] exI [of _ "drop e2 rdat"]) (simp_all add: wf_rdata_def)
  qed (use assms Inr x in \<open>simp add: wf_rdata_def\<close>)
qed (use assms in \<open>simp add: wf_rdata_def\<close>)

lemma be32_of_bytes: "be32 (of_be32 (of_be16 a b) (of_be16 c d)) = [a, b, c, d]"
proof -
  have "ucast (drop_bit 16 (of_be32 (of_be16 a b) (of_be16 c d))) = of_be16 a b"
    by (rule bit_word_eqI)
      (auto simp: of_be32_def bit_or_iff bit_push_bit_iff bit_ucast_iff bit_drop_bit_eq
        dest: bit_imp_le_length)
  moreover have "ucast (of_be32 (of_be16 a b) (of_be16 c d)) = of_be16 c d"
    by (rule bit_word_eqI)
      (auto simp: of_be32_def bit_or_iff bit_push_bit_iff bit_ucast_iff)
  ultimately show ?thesis by (simp add: be32_def)
qed

lemma be32_prefix:
  assumes "length bs = 4 + n" shows "\<exists>w rest. bs = be32 w @ rest \<and> length rest = n"
proof -
  from assms obtain a b c d rest where "bs = a # b # c # d # rest" "length rest = n"
    by (auto simp: length_Suc_conv eval_nat_numeral)
  then show ?thesis
    by (intro exI [of _ "of_be32 (of_be16 a b) (of_be16 c d)"] exI [of _ rest])
      (simp add: be32_of_bytes)
qed

lemma twenty_bytes:
  assumes "length bs = 20"
  shows "\<exists>v w x y z. bs = be32 v @ be32 w @ be32 x @ be32 y @ be32 z"
proof -
  obtain v r1 where 1: "bs = be32 v @ r1" "length r1 = 16"
    using be32_prefix [of bs 16] assms by auto
  obtain w r2 where 2: "r1 = be32 w @ r2" "length r2 = 12"
    using be32_prefix [of r1 12] 1 by auto
  obtain x r3 where 3: "r2 = be32 x @ r3" "length r3 = 8"
    using be32_prefix [of r2 8] 2 by auto
  obtain y r4 where 4: "r3 = be32 y @ r4" "length r4 = 4"
    using be32_prefix [of r3 4] 3 by auto
  obtain z where 5: "r4 = be32 z"
    using be32_prefix [of r4 0] 4 by auto
  show ?thesis using 1 2 3 4 5 by auto
qed

section \<open>Records and packets are read as they were written\<close>

lemma soa_rdata_reads:
  assumes "wf_name m" "wf_name r" "length tail = 20"
  shows "reads p_soa_rdata (b_name m @ b_name r @ tail) (b_name m @ b_name r @ tail)"
proof -
  obtain v w x y z where tail: "tail = be32 v @ be32 w @ be32 x @ be32 y @ be32 z"
    using twenty_bytes [OF assms(3)] by blast
  show ?thesis
    unfolding p_soa_rdata_def b_soa_def tail
    by (rule reads_bind [OF cname.dec_reads] reads_bind [OF p_u32_reads] reads_bind_ret [OF p_u32_reads]
        assms refl)+
qed

lemma holds_at_dropI: "holds_at buf pos bs \<Longrightarrow> n \<le> length bs \<Longrightarrow> holds_at buf (pos + n) (drop n bs)"
  using holds_at_append [of buf pos "take n bs" "drop n bs"] by simp

lemma be16_nth:
  "n + 2 \<le> length bs \<Longrightarrow> be16 (of_be16 (bs ! n) (bs ! (n + 1))) @ drop (n + 2) bs = drop n bs"
  by (simp add: Cons_nth_drop_Suc)

lemma six_bytes:
  assumes "6 \<le> length bs"
  shows "be16 (of_be16 (bs ! 0) (bs ! 1)) @ be16 (of_be16 (bs ! 2) (bs ! 3)) @
    be16 (of_be16 (bs ! 4) (bs ! 5)) @ drop 6 bs = bs"
proof -
  from assms obtain a b c d e f rest where "bs = a # b # c # d # e # f # rest"
    by (auto simp: Suc_le_length_iff eval_nat_numeral)
  then show ?thesis by (simp add: eval_nat_numeral)
qed

lemma decompress_wf:
  assumes wf: "wf_rdata t rdat" and h: "holds_at buf pos rdat"
  shows "decompress_rdata buf t rdat pos = rdat"
proof -
  have nm: "\<exists>e. p_name buf q = Inr (n, e)" if "holds_at buf q (b_name n)" "wf_name n" for q n
    using cname.dec_enc that by blast
  consider (name) "t = NS \<or> t = CNAME \<or> t = PTR" | (mx) "t = MX" | (srv) "t = SRV" | (soa) "t = SOA"
    | (other) "t \<notin> {NS, CNAME, PTR, MX, SRV, SOA}" by blast
  then show ?thesis
  proof cases
    case name
    with wf obtain n where n: "wf_name n" "rdat = b_name n"
      by (auto simp: wf_rdata_def elim: name_bytesE)
    with h nm have "\<exists>e. p_name buf pos = Inr (n, e)" by simp
    with name n show ?thesis
      by (auto simp: decompress_rdata_def canonical_name_wf)
  next
    case mx
    with wf have len: "2 \<le> length rdat" and "name_bytes (drop 2 rdat)"
      by (auto simp: wf_rdata_def)
    then obtain n where n: "wf_name n" "drop 2 rdat = b_name n" by (auto elim: name_bytesE)
    with nm h len have "\<exists>e. p_name buf (pos + 2) = Inr (n, e)"
      using holds_at_dropI [of buf pos rdat 2] by simp
    moreover have "be16 (of_be16 (rdat ! 0) (rdat ! 1)) @ drop 2 rdat = rdat"
      using len be16_nth [of 0 rdat] by (simp add: numeral_2_eq_2)
    ultimately show ?thesis
      using mx n len by (auto simp: decompress_rdata_def b_mx_def)
  next
    case srv
    with wf have len: "6 \<le> length rdat" and "name_bytes (drop 6 rdat)"
      by (auto simp: wf_rdata_def)
    then obtain n where n: "wf_name n" "drop 6 rdat = b_name n" by (auto elim: name_bytesE)
    with nm h len have "\<exists>e. p_name buf (pos + 6) = Inr (n, e)"
      using holds_at_dropI [of buf pos rdat 6] by simp
    moreover have "be16 (of_be16 (rdat ! 0) (rdat ! 1)) @ be16 (of_be16 (rdat ! 2) (rdat ! 3)) @
        be16 (of_be16 (rdat ! 4) (rdat ! 5)) @ drop 6 rdat = rdat"
      by (rule six_bytes [OF len])
    ultimately show ?thesis
      using srv n len by (auto simp: decompress_rdata_def b_srv_def)
  next
    case soa
    have w: "wf_rdata SOA rdat" using wf soa by simp
    obtain m r where mr: "wf_name m" "wf_name r"
        "\<exists>tail. b_name m @ b_name r @ tail = rdat \<and> length tail = 20"
      by (rule wf_rdata_SOA [OF w])
    then obtain tail where tail: "b_name m @ b_name r @ tail = rdat" "length tail = 20" by blast
    from readsD [OF soa_rdata_reads [OF mr(1,2) tail(2)]] h tail(1) [symmetric] have
      "p_soa_rdata buf pos = Inr (rdat, pos + length rdat)" by simp
    with soa show ?thesis by (simp add: decompress_rdata_def)
  next
    case other
    then show ?thesis by (cases t) (simp_all add: decompress_rdata_def)
  qed
qed

lemma unat_of_nat_u16: "n < 65536 \<Longrightarrow> unat (of_nat n :: u16) = n"
  by (simp add: unat_of_nat)

lemma p_rdata_reads: "wf_rdata t rdat \<Longrightarrow> n = length rdat \<Longrightarrow> reads (p_rdata t n) rdat rdat"
  using readsD [OF p_bytes_reads [of n rdat]] by (simp add: reads_def p_rdata_def decompress_wf)

lemma p_rdata_bounds: "p_rdata t n buf pos = Inr (x, q) \<Longrightarrow> q = pos + n \<and> q \<le> length buf"
  by (auto simp: p_rdata_def split: sum.splits dest!: p_bytes_bounds)

lemma p_question_bounds: "p_question buf pos = Inr (x, q) \<Longrightarrow> pos + 5 \<le> q \<and> q \<le> length buf"
  by (auto simp: p_question_def reader_inv dest!: p_name_bounds p_u16_bounds)

lemma p_record_bounds: "p_record buf pos = Inr (x, q) \<Longrightarrow> pos + 11 \<le> q \<and> q \<le> length buf"
  by (auto simp: p_record_def reader_inv dest!: p_name_bounds p_u16_bounds p_u32_bounds
      p_rdata_bounds)

lemma p_question_reads:
  assumes "wf_question q" shows "reads p_question (b_question q) q"
proof -
  from assms have q: "wf_name (q_name q)" "rtype_from (rtype_to (q_type q)) = q_type q"
    by (simp_all add: wf_question_def canonical_rtype_def)
  show ?thesis
    unfolding p_question_def b_question_def
    by (rule reads_bind [OF cname.dec_reads [OF q(1)]] reads_bind [OF p_u16_reads]
        reads_bind_ret [OF p_u16_reads])+ (simp add: q)
qed

lemma p_record_reads:
  assumes "wf_record r" shows "reads p_record (b_record r) r"
proof -
  from assms have r: "wf_name (r_name r)" "rtype_from (rtype_to (r_type r)) = r_type r"
    "wf_rdata (r_type r) (r_rdata r)" "unat (of_nat (length (r_rdata r)) :: u16) = length (r_rdata r)"
    by (simp_all add: wf_record_def canonical_rtype_def unat_of_nat_u16)
  have "reads (p_rdata (rtype_from (rtype_to (r_type r))) (unat (of_nat (length (r_rdata r)) :: u16)))
      (r_rdata r) (r_rdata r)"
    by (simp add: p_rdata_reads r)
  note rdata = reads_bind_ret [OF this]
  show ?thesis
    unfolding p_record_def b_record_def
    by (rule reads_bind [OF cname.dec_reads [OF r(1)]] reads_bind [OF p_u16_reads]
        reads_bind [OF p_u32_reads] rdata)+ (simp add: r)
qed

interpretation cquestion: wire_codec p_question b_question wf_question
  by unfold_locales (auto dest: p_question_bounds p_question_reads)

interpretation crecord: wire_codec p_record b_record wf_record
  by unfold_locales (auto dest: p_record_bounds p_record_reads)

definition opt_record :: "u16 \<Rightarrow> bool \<Rightarrow> rr" where
  "opt_record sz do_bit =
     \<lparr>r_name = ''.'', r_type = OPT, r_class = sz, r_ttl = (if do_bit then 0x8000 else 0),
      r_rdata = []\<rparr>"

lemma b_opt_record: "b_opt sz do_bit = b_record (opt_record sz do_bit)"
  by (simp add: b_opt_def b_record_def opt_record_def)

lemma wf_opt_record: "wf_record (opt_record sz do_bit)"
  by (simp add: wf_record_def opt_record_def wf_name_def wf_rdata_def canonical_rtype_def
      rtype_from_def)

lemma edns_scan_no_opt:
  "(\<And>r. r \<in> set rs \<Longrightarrow> r_type r \<noteq> OPT) \<Longrightarrow>
    edns_scan (rs @ os) sz d acc = edns_scan os sz d (acc @ rs)"
  by (induction rs arbitrary: acc) simp_all

definition edns_records :: "packet \<Rightarrow> bool \<Rightarrow> rr list" where
  "edns_records p e = (if with_opt p e then [opt_record (edns_udp_size p) (dnssec_ok p)] else [])"

text \<open>What a reader of the serialized packet sees: the packet, without EDNS when none was sent.\<close>

definition sent_packet :: "packet \<Rightarrow> bool \<Rightarrow> packet" where
  "sent_packet p e =
     p\<lparr>edns_udp_size := (if with_opt p e then edns_udp_size p else 0),
       dnssec_ok := (with_opt p e \<and> dnssec_ok p)\<rparr>"

lemma edns_scan_sent:
  assumes "\<And>r. r \<in> set (p_additional p) \<Longrightarrow> r_type r \<noteq> OPT"
  shows "edns_scan (p_additional p @ edns_records p e) 0 False [] =
    (p_additional p, edns_udp_size (sent_packet p e), dnssec_ok (sent_packet p e))"
  using assms
  by (simp add: edns_scan_no_opt edns_records_def opt_record_def sent_packet_def)

lemma serialize_alt:
  "serialize p e =
     be16 (p_id p) @ be16 (p_flags p) @ be16 (of_nat (length (p_questions p))) @
     be16 (of_nat (length (p_answers p))) @ be16 (of_nat (length (p_authority p))) @
     be16 (of_nat (length (p_additional p @ edns_records p e))) @
     concat (map b_question (p_questions p)) @ concat (map b_record (p_answers p)) @
     concat (map b_record (p_authority p)) @
     concat (map b_record (p_additional p @ edns_records p e))"
  by (simp add: serialize_def edns_records_def b_opt_record)

lemma p_packet_reads:
  assumes wf: "wf_packet p" shows "reads p_packet (serialize p e) (sent_packet p e)"
proof -
  let ?add = "p_additional p @ edns_records p e"
  have lens: "length (p_questions p) < 65536" "length (p_answers p) < 65536"
    "length (p_authority p) < 65536" "length ?add < 65536"
    using wf by (auto simp: wf_packet_def edns_records_def)
  have scan: "edns_scan ?add 0 False [] =
      (p_additional p, edns_udp_size (sent_packet p e), dnssec_ok (sent_packet p e))"
    using wf by (intro edns_scan_sent) (auto simp: wf_packet_def list_all_iff)
  have secs: "reads (p_many (length (p_questions p)) p_question)
        (concat (map b_question (p_questions p))) (p_questions p)"
    "reads (p_many (length (p_answers p)) p_record) (concat (map b_record (p_answers p))) (p_answers p)"
    "reads (p_many (length (p_authority p)) p_record)
        (concat (map b_record (p_authority p))) (p_authority p)"
    "reads (p_many (length ?add) p_record) (concat (map b_record ?add)) ?add"
    using wf by (intro cquestion.many_reads crecord.many_reads;
      auto simp: wf_packet_def list_all_iff edns_records_def wf_opt_record)+
  have secs': "reads (p_many (unat (of_nat (length (p_questions p)) :: u16)) p_question)
        (concat (map b_question (p_questions p))) (p_questions p)"
    "reads (p_many (unat (of_nat (length (p_answers p)) :: u16)) p_record)
        (concat (map b_record (p_answers p))) (p_answers p)"
    "reads (p_many (unat (of_nat (length (p_authority p)) :: u16)) p_record)
        (concat (map b_record (p_authority p))) (p_authority p)"
    "reads (p_many (unat (of_nat (length ?add) :: u16)) p_record) (concat (map b_record ?add)) ?add"
    using secs by (simp_all only: unat_of_nat_u16 [OF lens(1)] unat_of_nat_u16 [OF lens(2)]
      unat_of_nat_u16 [OF lens(3)] unat_of_nat_u16 [OF lens(4)])
  show ?thesis
    unfolding p_packet_def serialize_alt
    apply (rule reads_bind [OF p_u16_reads] reads_bind [OF secs'(1)] reads_bind [OF secs'(2)]
        reads_bind [OF secs'(3)])+
    apply (rule reads_bind [OF secs'(4), where cs = "[]", unfolded append_Nil2])
    apply (simp only: scan prod.case)
    apply (rule subst [where P = "reads _ []", OF _ reads_ret])
    apply (simp add: sent_packet_def)
    done
qed

lemma parse_of_serialize: "wf_packet p \<Longrightarrow> parse (serialize p e) = Inr (sent_packet p e)"
  using readsD [OF p_packet_reads holds_at_self] by (simp add: parse_def)

section \<open>Properties\<close>

text \<open>
  C1. A packet whose names and rdata are well-formed is read back exactly as it was serialized:
  all four sections in order, the header, and the EDNS size and DO bit when an OPT record was
  sent.  Without EDNS the reader sees a zero payload size and no DO bit.
\<close>

theorem parse_serialize: "wf_packet p \<Longrightarrow> parse (serialize p e) = Inr (sent_packet p e)"
  by (rule parse_of_serialize)

definition sample_packet :: packet where
  "sample_packet =
     \<lparr>p_id = 7, p_flags = 0x8580,
      p_questions = [\<lparr>q_name = ''a.example'', q_type = A, q_class = 1\<rparr>],
      p_answers = [\<lparr>r_name = ''a.example'', r_type = A, r_class = 1, r_ttl = 300,
                    r_rdata = [192, 0, 2, 1]\<rparr>],
      p_authority = [\<lparr>r_name = ''example'', r_type = NS, r_class = 1, r_ttl = 300,
                      r_rdata = b_name ''ns.example''\<rparr>],
      p_additional = [], edns_udp_size = 1232, dnssec_ok = True\<rparr>"

lemma wf_sample_packet: "wf_packet sample_packet"
proof -
  have "wf_name ''a.example'' \<and> wf_name ''example'' \<and> wf_name ''ns.example''"
    by (simp add: wf_name_def wf_label_def to_lower_def ascii_lower_def byte_of_char_def)
  moreover have "length (b_name ''ns.example'') = 12"
    by (simp add: b_name_def b_label_def trim_end_dots_def)
  ultimately show ?thesis
    by (simp add: sample_packet_def wf_packet_def wf_question_def wf_record_def wf_rdata_def
        name_bytes_b_name canonical_rtype_def rtype_from_def)
qed

lemma parse_serialize_witness:
  "wf_packet sample_packet \<and> parse (serialize sample_packet True) = Inr sample_packet"
  using wf_sample_packet parse_serialize [OF wf_sample_packet, of True]
  by (simp add: sent_packet_def with_opt_def sample_packet_def)

section \<open>Bounds of a parsed message\<close>

lemma p_many_question_bytes:
  "p_many n p_question buf pos = Inr (qs, e) \<Longrightarrow> pos \<le> length buf \<Longrightarrow>
    pos + 5 * length qs \<le> e \<and> e \<le> length buf \<and> length qs = n"
proof (induction n arbitrary: pos qs)
  case (Suc n)
  then show ?case by (fastforce simp: reader_inv dest: p_question_bounds)
qed (simp add: reader_inv)

lemma p_many_record_bytes:
  "p_many n p_record buf pos = Inr (rs, e) \<Longrightarrow> pos \<le> length buf \<Longrightarrow>
    pos + 11 * length rs \<le> e \<and> e \<le> length buf \<and> length rs = n"
proof (induction n arbitrary: pos rs)
  case (Suc n)
  then show ?case by (fastforce simp: reader_inv dest: p_record_bounds)
qed (simp add: reader_inv)

lemma edns_scan_set:
  "edns_scan rs sz d acc = (add, sz', d') \<Longrightarrow>
    set add = set acc \<union> {r \<in> set rs. r_type r \<noteq> OPT} \<and> length add \<le> length acc + length rs"
  by (induction rs sz d acc rule: edns_scan.induct) (auto split: if_splits)

definition header_counts :: "u8 list \<Rightarrow> nat list" where
  "header_counts buf = map (\<lambda>i. unat (of_be16 (buf ! i) (buf ! (i + 1)))) [4, 6, 8, 10]"

lemma p_u16_nth: "p_u16 buf pos = Inr (x, q) \<Longrightarrow> x = of_be16 (buf ! pos) (buf ! (pos + 1))"
  by (auto simp: p_u16_def reader_inv p_u8_def p_peek_def split: if_splits)

text \<open>A successful parse went through the header and the four sections in order.\<close>

lemma parse_stages:
  assumes "parse buf = Inr p"
  obtains e1 e2 e3 e4 raw where
    "12 \<le> length buf" "header_counts buf = [length (p_questions p), length (p_answers p),
      length (p_authority p), length raw]"
    "p_many (length (p_questions p)) p_question buf 12 = Inr (p_questions p, e1)"
    "p_many (length (p_answers p)) p_record buf e1 = Inr (p_answers p, e2)"
    "p_many (length (p_authority p)) p_record buf e2 = Inr (p_authority p, e3)"
    "p_many (length raw) p_record buf e3 = Inr (raw, e4)"
    "edns_scan raw 0 False [] = (p_additional p, edns_udp_size p, dnssec_ok p)"
proof -
  obtain e where "p_packet buf 0 = Inr (p, e)"
    using assms by (auto simp: parse_def split: sum.splits)
  then obtain pid o0 flags o1 qd o2 an o3 ns o4 ar o5 qs e1 as e2 us e3 raw e4 where
    h: "p_u16 buf 0 = Inr (pid, o0)" "p_u16 buf o0 = Inr (flags, o1)" "p_u16 buf o1 = Inr (qd, o2)"
      "p_u16 buf o2 = Inr (an, o3)" "p_u16 buf o3 = Inr (ns, o4)" "p_u16 buf o4 = Inr (ar, o5)"
    and s: "p_many (unat qd) p_question buf o5 = Inr (qs, e1)"
      "p_many (unat an) p_record buf e1 = Inr (as, e2)"
      "p_many (unat ns) p_record buf e2 = Inr (us, e3)"
      "p_many (unat ar) p_record buf e3 = Inr (raw, e4)"
    and p: "(case edns_scan raw 0 False [] of (additional, sz, do_bit) \<Rightarrow>
         rret \<lparr>p_id = pid, p_flags = flags, p_questions = qs, p_answers = as,
               p_authority = us, p_additional = additional,
               edns_udp_size = sz, dnssec_ok = do_bit\<rparr>) buf e4 = Inr (p, e)"
    unfolding p_packet_def rbind_eq_Inr by blast
  obtain add sz d where sc: "edns_scan raw 0 False [] = (add, sz, d)" by (metis prod_cases3)
  have offs: "o0 = 2" "o1 = 4" "o2 = 6" "o3 = 8" "o4 = 10" "o5 = 12" "12 \<le> length buf"
    using h by (auto dest!: p_u16_bounds)
  have "qd = of_be16 (buf ! 4) (buf ! 5)" "an = of_be16 (buf ! 6) (buf ! 7)"
      "ns = of_be16 (buf ! 8) (buf ! 9)" "ar = of_be16 (buf ! 10) (buf ! 11)"
    using h(3-6) unfolding offs by (auto dest!: p_u16_nth)
  then have cnt: "header_counts buf = [unat qd, unat an, unat ns, unat ar]"
    by (simp add: header_counts_def)
  have lens: "length qs = unat qd" "length as = unat an" "length us = unat ns" "length raw = unat ar"
    using s cquestion.many_length crecord.many_length by blast+
  from p sc have "p = \<lparr>p_id = pid, p_flags = flags, p_questions = qs, p_answers = as,
      p_authority = us, p_additional = add, edns_udp_size = sz, dnssec_ok = d\<rparr>"
    by (simp add: rret_eq_Inr)
  with that [of raw e1 e2 e3 e4] s sc cnt lens offs show thesis by simp
qed

text \<open>
  What the parser accepts fits in the datagram: the sections have exactly the lengths the
  header announces (the additional section less its OPT records), every question took at least 5
  and every record at least 11 bytes.  A header that announces more records than the datagram can
  hold is therefore refused, so the parser cannot be made to allocate beyond its input.
\<close>

theorem parse_bounded:
  assumes "parse buf = Inr p"
  shows "\<exists>n. header_counts buf =
      [length (p_questions p), length (p_answers p), length (p_authority p), n] \<and>
    length (p_additional p) \<le> n \<and>
    12 + 5 * length (p_questions p) + 11 * (length (p_answers p) + length (p_authority p) + n)
      \<le> length buf"
proof (rule parse_stages [OF assms])
  fix e1 e2 e3 e4 raw
  assume s: "12 \<le> length buf" "p_many (length (p_questions p)) p_question buf 12 = Inr (p_questions p, e1)"
    "p_many (length (p_answers p)) p_record buf e1 = Inr (p_answers p, e2)"
    "p_many (length (p_authority p)) p_record buf e2 = Inr (p_authority p, e3)"
    "p_many (length raw) p_record buf e3 = Inr (raw, e4)"
  assume "edns_scan raw 0 False [] = (p_additional p, edns_udp_size p, dnssec_ok p)"
  then have "length (p_additional p) \<le> length raw"
    by (auto dest: edns_scan_set)
  moreover from s(2) p_many_question_bytes s(1)
  have 1: "12 + 5 * length (p_questions p) \<le> e1" "e1 \<le> length buf" by blast+
  moreover from s(3) p_many_record_bytes 1(2)
  have 2: "e1 + 11 * length (p_answers p) \<le> e2" "e2 \<le> length buf" by blast+
  moreover from s(4) p_many_record_bytes 2(2)
  have 3: "e2 + 11 * length (p_authority p) \<le> e3" "e3 \<le> length buf" by blast+
  moreover from s(5) p_many_record_bytes 3(2)
  have 4: "e3 + 11 * length raw \<le> e4" "e4 \<le> length buf" by blast+
  moreover assume "header_counts buf = [length (p_questions p), length (p_answers p),
      length (p_authority p), length raw]"
  ultimately show ?thesis by (intro exI [of _ "length raw"]) simp
qed

lemma parse_bounded_witness:
  "\<exists>p n. parse (serialize sample_packet True) = Inr p \<and> length (p_additional p) \<le> n \<and>
    12 + 5 * length (p_questions p) + 11 * (length (p_answers p) + length (p_authority p) + n)
      \<le> length (serialize sample_packet True)"
  using parse_bounded [of "serialize sample_packet True"]
    parse_of_serialize [OF wf_sample_packet, of True]
  by fastforce

section \<open>Case of parsed names\<close>

lemma p_question_lower: "p_question buf pos = Inr (q, e) \<Longrightarrow> to_lower (q_name q) = q_name q"
  by (auto simp: p_question_def reader_inv dest: p_name_lower)

lemma p_record_lower: "p_record buf pos = Inr (r, e) \<Longrightarrow> to_lower (r_name r) = r_name r"
  by (auto simp: p_record_def reader_inv dest: p_name_lower)

lemma p_many_all:
  "p_many n m buf pos = Inr (xs, e) \<Longrightarrow> (\<And>pos x e. m buf pos = Inr (x, e) \<Longrightarrow> P x) \<Longrightarrow>
    x \<in> set xs \<Longrightarrow> P x"
  by (induction n arbitrary: pos xs e) (fastforce simp: reader_inv)+

text \<open>
  Every name of a parsed message is in lower case, whatever case the sender used: the lookups
  of the cache, the zones and the name comparisons of the server are case-insensitive because of
  this.
\<close>

theorem parse_lower_case:
  assumes "parse buf = Inr p"
  shows "\<forall>n \<in> q_name ` set (p_questions p) \<union>
      r_name ` (set (p_answers p) \<union> set (p_authority p) \<union> set (p_additional p)). to_lower n = n"
proof (rule parse_stages [OF assms])
  fix e1 e2 e3 e4 raw
  assume s: "p_many (length (p_questions p)) p_question buf 12 = Inr (p_questions p, e1)"
    "p_many (length (p_answers p)) p_record buf e1 = Inr (p_answers p, e2)"
    "p_many (length (p_authority p)) p_record buf e2 = Inr (p_authority p, e3)"
    "p_many (length raw) p_record buf e3 = Inr (raw, e4)"
    and sc: "edns_scan raw 0 False [] = (p_additional p, edns_udp_size p, dnssec_ok p)"
  have "\<forall>r \<in> set (p_additional p). r \<in> set raw" using edns_scan_set [OF sc] by auto
  then show ?thesis
    using p_many_all [OF s(1), of "\<lambda>q. to_lower (q_name q) = q_name q"]
      p_many_all [OF s(2), of "\<lambda>r. to_lower (r_name r) = r_name r"]
      p_many_all [OF s(3), of "\<lambda>r. to_lower (r_name r) = r_name r"]
      p_many_all [OF s(4), of "\<lambda>r. to_lower (r_name r) = r_name r"]
      p_question_lower p_record_lower by blast
qed

definition shouting_query :: "u8 list" where
  "shouting_query = [0, 9, 1, 0, 0, 1, 0, 0, 0, 0, 0, 0, 2, 65, 98, 1, 67, 0, 0, 1, 0, 1]"

lemmas reader_eval = p_packet_def p_question_def rbind_def rret_def p_u16_def p_u8_def
  p_peek_def of_be16_def rtype_from_def

lemma shouting_query_name: "p_name shouting_query 12 = Inr (''ab.c'', 18)"
  by (simp add: shouting_query_def p_name_def name_loop.simps name_text_def label_text_def
      to_lower_def ascii_lower_def char_of_byte_def char_of_def bit_0)

lemma shouting_query_parses:
  "parse shouting_query = Inr \<lparr>p_id = 9, p_flags = 0x0100,
     p_questions = [\<lparr>q_name = ''ab.c'', q_type = A, q_class = 1\<rparr>], p_answers = [],
     p_authority = [], p_additional = [], edns_udp_size = 0, dnssec_ok = False\<rparr>"
proof -
  have "p_name shouting_query (Suc (Suc (Suc (Suc (Suc (Suc (Suc (Suc (Suc (Suc (Suc (Suc 0)))))))))))) =
      Inr (''ab.c'', 18)"
    using shouting_query_name by (simp add: eval_nat_numeral)
  then show ?thesis by (simp add: parse_def reader_eval shouting_query_def)
qed

lemma parse_lower_case_witness:
  "\<exists>p. parse shouting_query = Inr p \<and>
    (\<forall>n \<in> q_name ` set (p_questions p) \<union>
      r_name ` (set (p_answers p) \<union> set (p_authority p) \<union> set (p_additional p)). to_lower n = n)"
  using parse_lower_case [OF shouting_query_parses] shouting_query_parses by blast

section \<open>Key tags\<close>

text \<open>RFC 4034 appendix B over unbounded integers.\<close>

fun key_tag_ref_sum :: "nat \<Rightarrow> u8 list \<Rightarrow> nat" where
  "key_tag_ref_sum i [] = 0"
| "key_tag_ref_sum i (b # bs) =
     (if even i then 256 * unat b else unat b) + key_tag_ref_sum (i + 1) bs"

definition key_tag_ref :: "u8 list \<Rightarrow> nat" where
  "key_tag_ref bs = (let ac = key_tag_ref_sum 0 bs in (ac + ac div 65536) mod 65536)"

lemma key_tag_ref_sum_le: "key_tag_ref_sum i bs \<le> 65280 * length bs"
proof (induction bs arbitrary: i)
  case (Cons b bs)
  have "unat b \<le> 255" using unat_u8_less [of b] by linarith
  with Cons.IH [of "i + 1"] show ?case by (auto simp del: unat_u8_less)
qed simp

lemma unat_u32_add: "unat a + unat b < 4294967296 \<Longrightarrow> unat (a + b) = unat a + unat b" for a b :: u32
  by (simp add: unat_word_ariths)

lemma unat_key_tag_term:
  "unat (if even i then push_bit 8 (ucast b) else ucast b :: u32) =
    (if even i then 256 * unat b else unat b)" for b :: u8
proof -
  have u: "unat (ucast b :: u32) = unat b"
    by (simp add: unsigned_ucast_eq take_bit_nat_eq_self less_trans [OF unat_u8_less])
  have "256 * unat b < 4294967296" using unat_u8_less [of b] by linarith
  then have "unat (push_bit 8 (ucast b) :: u32) = 256 * unat b"
    by (simp add: push_bit_eq_mult unat_word_ariths u)
  with u show ?thesis by simp
qed

lemma key_tag_sum_exact:
  "unat ac + 65280 * length bs < 4294967296 \<Longrightarrow>
    unat (key_tag_sum i bs ac) = unat ac + key_tag_ref_sum i bs"
proof (induction bs arbitrary: i ac)
  case (Cons b bs)
  let ?t = "if even i then push_bit 8 (ucast b) else ucast b :: u32"
  have t: "unat ?t = (if even i then 256 * unat b else unat b)" by (rule unat_key_tag_term)
  have "unat b \<le> 255" using unat_u8_less [of b] by linarith
  then have le: "unat ?t \<le> 65280" unfolding t by simp
  with Cons.prems have "unat (ac + ?t) = unat ac + unat ?t"
    by (intro unat_u32_add) simp
  moreover from this Cons.prems le
  have "unat (key_tag_sum (i + 1) bs (ac + ?t)) = unat (ac + ?t) + key_tag_ref_sum (i + 1) bs"
    by (intro Cons.IH) simp
  ultimately show ?case using t by simp
qed simp

text \<open>
  For every rdata a record can carry, the 32-bit accumulator of the key tag never wraps: the
  result is the one of RFC 4034 over unbounded integers.
\<close>

theorem key_tag_no_overflow:
  assumes "length raw \<le> 65535" shows "unat (key_tag raw) = key_tag_ref raw"
proof -
  let ?ac = "key_tag_sum 0 raw 0" and ?n = "key_tag_ref_sum 0 raw"
  have ac: "unat ?ac = ?n" using key_tag_sum_exact [of 0 raw 0] assms by simp
  have n: "?n \<le> 4278124800" using key_tag_ref_sum_le [of 0 raw] assms by linarith
  have d: "unat (drop_bit 16 ?ac) = ?n div 65536"
    by (simp add: drop_bit_eq_div unat_div ac)
  have "unat (?ac + drop_bit 16 ?ac) = ?n + ?n div 65536"
    using n by (subst unat_u32_add) (auto simp: ac d)
  moreover have "w AND 0xFFFF = take_bit 16 w" for w :: u32
    by (simp add: take_bit_eq_mask mask_eq_exp_minus_1)
  ultimately show ?thesis
    by (simp add: key_tag_def key_tag_ref_def Let_def unsigned_ucast_eq take_bit_eq_mod unat_mod
        unsigned_take_bit_eq)
qed

lemma key_tag_no_overflow_witness:
  "unat (key_tag [1, 1, 3, 8, 0xFF, 0xFF, 0xFF, 0xFF]) = 0x409"
  using key_tag_no_overflow [of "[1, 1, 3, 8, 0xFF, 0xFF, 0xFF, 0xFF]"]
  by (simp add: key_tag_ref_def)

end
