(* ===== verification/Cache.thy ===== *)
theory Cache
  imports Message "HOL-Library.Mapping"
begin

text \<open>
  \<open>src/src/cache.rs\<close>: the positive and negative answer cache.  The \<open>RwLock<HashMap>\<close> is a
  \<^typ>\<open>('k, 'v) mapping\<close>; every operation holds the lock once, so each is one atomic step, and
  \<open>Instant::now()\<close> is the argument \<open>now\<close>, in nanoseconds.

  \<open>timed_cache\<close> is the contract the resolver and the server rely on: inside it a lookup is shown
  to be determined by the history of insertions alone, whatever sweeps happened in between.
\<close>

section \<open>State\<close>

datatype NegativeKind = NxDomain | NoData

datatype CacheValue = Records "rr list" | Negative NegativeKind

record entry =
  e_value :: CacheValue
  e_expires :: nat
  e_ttl :: u32

record cache_key =
  ck_name :: string
  ck_qtype :: u16

type_synonym cache = "(cache_key, entry) mapping"

definition cache_new :: cache where
  "cache_new = Mapping.empty"

definition cache_key :: "string \<Rightarrow> RType \<Rightarrow> cache_key" where
  "cache_key name qtype = \<lparr>ck_name = to_lower name, ck_qtype = rtype_to qtype\<rparr>"

definition from_secs :: "nat \<Rightarrow> nat" where
  "from_secs s = s * 1000000000"

section \<open>Operations\<close>

definition cache_get :: "cache \<Rightarrow> nat \<Rightarrow> string \<Rightarrow> RType \<Rightarrow> CacheValue option" where
  "cache_get c now name qtype =
     (case Mapping.lookup c (cache_key name qtype) of
        Some e \<Rightarrow> if e_expires e > now then Some (e_value e) else None
      | None \<Rightarrow> None)"

definition positive_ttl :: "u32 \<Rightarrow> u32" where
  "positive_ttl ttl = (if ttl < 1 then 1 else if ttl > 86400 then 86400 else ttl)"

definition insert_positive ::
  "cache \<Rightarrow> nat \<Rightarrow> string \<Rightarrow> RType \<Rightarrow> rr list \<Rightarrow> u32 \<Rightarrow> cache" where
  "insert_positive c now name qtype records ttl =
     (let ttl' = positive_ttl ttl in
      Mapping.update (cache_key name qtype)
        \<lparr>e_value = Records records, e_expires = now + from_secs (unat ttl'), e_ttl = ttl'\<rparr> c)"

definition negative_ttl :: "u32 \<Rightarrow> u32" where
  "negative_ttl soa_ttl = max (min soa_ttl 10800) 1"

definition insert_negative ::
  "cache \<Rightarrow> nat \<Rightarrow> string \<Rightarrow> RType \<Rightarrow> NegativeKind \<Rightarrow> u32 \<Rightarrow> cache" where
  "insert_negative c now name qtype kind soa_ttl =
     (let ttl' = negative_ttl soa_ttl in
      Mapping.update (cache_key name qtype)
        \<lparr>e_value = Negative kind, e_expires = now + from_secs (unat ttl'), e_ttl = ttl'\<rparr> c)"

definition evict_expired :: "cache \<Rightarrow> nat \<Rightarrow> cache" where
  "evict_expired c now = Mapping.filter (\<lambda>_ v. e_expires v > now) c"

definition cache_size :: "cache \<Rightarrow> nat" where
  "cache_size c = Mapping.size c"

text \<open>
  \<open>soa_minimum_ttl\<close>.  A failed \<open>p.u32()\<close> leaves fewer than four bytes, so every later one
  fails as well and only the last default matters.
\<close>

definition u32_or :: "u32 \<Rightarrow> u8 list \<Rightarrow> nat \<Rightarrow> u32 \<times> nat" where
  "u32_or d buf pos = (case p_u32 buf pos of Inr (x, pos') \<Rightarrow> (x, pos') | Inl _ \<Rightarrow> (d, pos))"

definition soa_minimum_ttl :: "u8 list \<Rightarrow> u32" where
  "soa_minimum_ttl buf =
     (case p_name buf 0 of
        Inl _ \<Rightarrow> 300
      | Inr (_, e1) \<Rightarrow>
          (case p_name buf e1 of
             Inl _ \<Rightarrow> 300
           | Inr (_, e2) \<Rightarrow>
               (let (serial, e3) = u32_or 0 buf e2; (refresh, e4) = u32_or 0 buf e3;
                    (retry, e5) = u32_or 0 buf e4; (expire, e6) = u32_or 0 buf e5
                in fst (u32_or 300 buf e6))))"

section \<open>The cache contract\<close>

datatype ('k, 'v) cache_op = Put nat 'k 'v u32 | Sweep nat

fun op_time :: "('k, 'v) cache_op \<Rightarrow> nat" where
  "op_time (Put now k v ttl) = now"
| "op_time (Sweep now) = now"

text \<open>Operations are listed latest first.\<close>

fun run_ops :: "('c \<Rightarrow> nat \<Rightarrow> 'k \<Rightarrow> 'v \<Rightarrow> u32 \<Rightarrow> 'c) \<Rightarrow> ('c \<Rightarrow> nat \<Rightarrow> 'c) \<Rightarrow>
    ('k, 'v) cache_op list \<Rightarrow> 'c \<Rightarrow> 'c" where
  "run_ops put sweep [] c = c"
| "run_ops put sweep (Put now k v ttl # ops) c = put (run_ops put sweep ops c) now k v ttl"
| "run_ops put sweep (Sweep now # ops) c = sweep (run_ops put sweep ops c) now"

text \<open>
  What a cache promises at time \<open>now\<close>: the value of the latest insertion under the same \<open>key\<close>,
  while its \<open>lifetime\<close> lasts.
\<close>

fun promised :: "('k \<Rightarrow> 'n) \<Rightarrow> ('v \<Rightarrow> u32 \<Rightarrow> nat) \<Rightarrow> ('k, 'v) cache_op list \<Rightarrow> nat \<Rightarrow> 'k \<Rightarrow> 'v option"
  where
  "promised key lifetime [] now k = None"
| "promised key lifetime (Sweep t # ops) now k = promised key lifetime ops now k"
| "promised key lifetime (Put t k v ttl # ops) now k' =
     (if key k' = key k then if now < t + lifetime v ttl then Some v else None
      else promised key lifetime ops now k')"

lemma promised_fresh:
  "promised key lifetime ops now k = Some v \<Longrightarrow>
    \<exists>t k' ttl. Put t k' v ttl \<in> set ops \<and> key k' = key k \<and> now < t + lifetime v ttl"
  by (induction key lifetime ops now k rule: promised.induct) (fastforce split: if_splits)+

locale timed_cache =
  fixes get :: "'c \<Rightarrow> nat \<Rightarrow> 'k \<Rightarrow> 'v option"
    and put :: "'c \<Rightarrow> nat \<Rightarrow> 'k \<Rightarrow> 'v \<Rightarrow> u32 \<Rightarrow> 'c"
    and sweep :: "'c \<Rightarrow> nat \<Rightarrow> 'c"
    and new :: 'c
    and key :: "'k \<Rightarrow> 'n"
    and lifetime :: "'v \<Rightarrow> u32 \<Rightarrow> nat"
  assumes get_new: "get new now k = None"
    and get_put: "get (put c t k v ttl) now k' =
      (if key k' = key k then if now < t + lifetime v ttl then Some v else None else get c now k')"
    and get_sweep: "t \<le> now \<Longrightarrow> get (sweep c t) now k = get c now k"
begin

lemma get_history:
  "\<forall>x\<in>set ops. op_time x \<le> now \<Longrightarrow>
    get (run_ops put sweep ops new) now k = promised key lifetime ops now k"
proof (induction ops)
  case (Cons x ops)
  then show ?case by (cases x) (simp_all add: get_put get_sweep)
qed (simp add: get_new)

lemma get_fresh:
  assumes "\<forall>x\<in>set ops. op_time x \<le> now" "get (run_ops put sweep ops new) now k = Some v"
  obtains t k' ttl where "Put t k' v ttl \<in> set ops" "key k' = key k" "now < t + lifetime v ttl"
  using assms get_history promised_fresh by metis

end

section \<open>The cache keeps the contract\<close>

fun cache_put :: "cache \<Rightarrow> nat \<Rightarrow> string \<times> RType \<Rightarrow> CacheValue \<Rightarrow> u32 \<Rightarrow> cache" where
  "cache_put c now (name, qtype) (Records rs) ttl = insert_positive c now name qtype rs ttl"
| "cache_put c now (name, qtype) (Negative kind) ttl = insert_negative c now name qtype kind ttl"

fun lifetime :: "CacheValue \<Rightarrow> u32 \<Rightarrow> nat" where
  "lifetime (Records rs) ttl = from_secs (unat (positive_ttl ttl))"
| "lifetime (Negative kind) ttl = from_secs (unat (negative_ttl ttl))"

lemma cache_key_eq:
  "cache_key n t = cache_key n' t' \<longleftrightarrow> to_lower n = to_lower n' \<and> rtype_to t = rtype_to t'"
  by (simp add: cache_key_def)

lemma lookup_filter_entry:
  "Mapping.lookup (Mapping.filter P c) k =
    (case Mapping.lookup c k of None \<Rightarrow> None | Some e \<Rightarrow> if P k e then Some e else None)"
  by (simp add: Mapping.lookup_filter)

lemma cache_put_alt:
  "cache_put c now (name, qtype) v ttl = Mapping.update (cache_key name qtype)
     \<lparr>e_value = v, e_expires = now + lifetime v ttl,
      e_ttl = (case v of Records rs \<Rightarrow> positive_ttl ttl | Negative k \<Rightarrow> negative_ttl ttl)\<rparr> c"
  by (cases v) (simp_all add: insert_positive_def insert_negative_def Let_def)

interpretation answers: timed_cache "\<lambda>c now k. cache_get c now (fst k) (snd k)" cache_put
  evict_expired cache_new "\<lambda>k. cache_key (fst k) (snd k)" lifetime
proof unfold_locales
  fix c t k v ttl now k'
  show "cache_get (cache_put c t k v ttl) now (fst k') (snd k') =
      (if cache_key (fst k') (snd k') = cache_key (fst k) (snd k)
       then if now < t + lifetime v ttl then Some v else None
       else cache_get c now (fst k') (snd k'))"
    by (cases k) (auto simp: cache_put_alt cache_get_def Mapping.lookup_update' lookup_update)
next
  fix t now :: nat and c k
  assume "t \<le> now"
  then show "cache_get (evict_expired c t) now (fst k) (snd k) = cache_get c now (fst k) (snd k)"
    by (auto simp: cache_get_def evict_expired_def lookup_filter_entry split: option.splits)
qed (simp add: cache_get_def cache_new_def)

lemma positive_ttl_bounds: "1 \<le> positive_ttl t \<and> positive_ttl t \<le> 86400"
proof -
  have "t \<noteq> 0 \<Longrightarrow> 1 \<le> t" by (simp add: word_le_nat_alt Suc_le_eq unat_gt_0)
  then show ?thesis by (auto simp: positive_ttl_def)
qed

lemma negative_ttl_bounds: "1 \<le> negative_ttl t \<and> negative_ttl t \<le> 10800"
  by (simp add: negative_ttl_def)

lemma lifetime_bounds:
  "from_secs 1 \<le> lifetime v ttl"
  "lifetime v ttl \<le> from_secs (case v of Records rs \<Rightarrow> 86400 | Negative k \<Rightarrow> 10800)"
proof -
  have "unat (1 :: u32) \<le> unat (positive_ttl ttl)" "unat (positive_ttl ttl) \<le> unat (86400 :: u32)"
    "unat (1 :: u32) \<le> unat (negative_ttl ttl)" "unat (negative_ttl ttl) \<le> unat (10800 :: u32)"
    using positive_ttl_bounds [of ttl] negative_ttl_bounds [of ttl]
    by (simp_all only: word_le_nat_alt)
  then show "from_secs 1 \<le> lifetime v ttl"
    "lifetime v ttl \<le> from_secs (case v of Records rs \<Rightarrow> 86400 | Negative k \<Rightarrow> 10800)"
    by (cases v; simp add: from_secs_def)+
qed

section \<open>Properties\<close>

text \<open>
  C14. Whatever insertions and sweeps happened before, in whatever order, a lookup returns the
  value of the latest insertion whose name agrees up to ASCII case and whose type has the same
  number, and returns it exactly as long as its clamped TTL has not elapsed.  Eviction is
  invisible to lookups.
\<close>

theorem cache_history:
  assumes "\<forall>x\<in>set ops. op_time x \<le> now"
  shows "cache_get (run_ops cache_put evict_expired ops cache_new) now name qtype =
    promised (\<lambda>k. cache_key (fst k) (snd k)) lifetime ops now (name, qtype)"
  using answers.get_history [OF assms, of "(name, qtype)"] by simp

lemma cache_history_witness:
  "cache_get (run_ops cache_put evict_expired
     [Sweep (from_secs 40), Put (from_secs 30) (''WWW.a'', A) (Negative NxDomain) 0,
      Put 0 (''www.A'', A) (Records []) 300] cache_new) (from_secs 40) ''www.a'' A = None"
  using cache_history [of "[Sweep (from_secs 40), Put (from_secs 30) (''WWW.a'', A) (Negative NxDomain) 0,
      Put 0 (''www.A'', A) (Records []) 300]" "from_secs 40" "''www.a''" A]
  by (simp add: from_secs_def cache_key_def lower_eval negative_ttl_def)

text \<open>
  No answer outlives its clamp: a positive answer is served for at most 24 hours and a
  negative one for at most 3 hours after an insertion of that same value under that name and type,
  however large the TTL was.
\<close>

theorem cache_lifetime_bound:
  assumes "\<forall>x\<in>set ops. op_time x \<le> now"
    and "cache_get (run_ops cache_put evict_expired ops cache_new) now name qtype = Some v"
  shows "\<exists>t n q ttl. Put t (n, q) v ttl \<in> set ops \<and> to_lower n = to_lower name \<and>
    rtype_to q = rtype_to qtype \<and>
    now < t + from_secs (case v of Records rs \<Rightarrow> 86400 | Negative k \<Rightarrow> 10800)"
proof -
  obtain t k' ttl where put: "Put t k' v ttl \<in> set ops"
    "cache_key (fst k') (snd k') = cache_key name qtype" "now < t + lifetime v ttl"
    using answers.get_fresh [OF assms(1), of "(name, qtype)" v] assms(2)
    by (metis fst_conv snd_conv)
  with lifetime_bounds(2) [of v ttl] show ?thesis
    by (cases k') (fastforce simp: cache_key_eq)
qed

lemma cache_lifetime_bound_witness:
  "\<exists>t n q ttl. Put t (n, q) (Negative NoData) ttl \<in> set [Put 5 (''x'', MX) (Negative NoData) 7] \<and>
    to_lower n = to_lower ''X'' \<and> rtype_to q = rtype_to MX \<and> 6 < t + from_secs 10800"
proof -
  have "cache_get (run_ops cache_put evict_expired [Put 5 (''x'', MX) (Negative NoData) 7] cache_new)
      6 ''X'' MX = Some (Negative NoData)"
    by (simp add: insert_negative_def cache_get_def cache_key_def lower_eval negative_ttl_def
        from_secs_def Mapping.lookup_update Let_def)
  from cache_lifetime_bound [OF _ this] show ?thesis by simp
qed

lemma u32_or_reads: "holds_at buf pos (be32 w) \<Longrightarrow> u32_or d buf pos = (w, pos + 4)"
  using readsD [OF p_u32_reads, of buf pos w] by (simp add: u32_or_def)

text \<open>
  The negative TTL taken from a well-formed SOA rdata is its MINIMUM field, the last of the
  five integers behind the two names.
\<close>

theorem soa_minimum_ttl_field:
  assumes "wf_name m" "wf_name r"
  shows "soa_minimum_ttl (b_soa m r serial refresh retry expire minimum) = minimum"
proof -
  define buf where "buf = b_soa m r serial refresh retry expire minimum"
  let ?e = "length (b_name m) + length (b_name r)"
  have "holds_at buf 0 (b_soa m r serial refresh retry expire minimum)" by (simp add: buf_def)
  then have h: "holds_at buf 0 (b_name m)" "holds_at buf (length (b_name m)) (b_name r)"
    "holds_at buf ?e (be32 serial)" "holds_at buf (?e + 4) (be32 refresh)"
    "holds_at buf (?e + 8) (be32 retry)" "holds_at buf (?e + 12) (be32 expire)"
    "holds_at buf (?e + 16) (be32 minimum)"
    by (simp_all add: b_soa_def ac_simps)
  have "soa_minimum_ttl buf = minimum"
    using cname.dec_enc [OF assms(1) h(1)] cname.dec_enc [OF assms(2) h(2)]
      h(3-7) [THEN u32_or_reads]
    by (simp add: soa_minimum_ttl_def add.assoc)
  then show ?thesis by (simp add: buf_def)
qed

lemma soa_minimum_ttl_field_witness:
  "soa_minimum_ttl (b_soa ''ns.a'' ''.'' 1 2 3 4 300) = 300"
  by (rule soa_minimum_ttl_field)
    (simp_all add: wf_name_def wf_label_def to_lower_def ascii_lower_def byte_of_char_def)

end
