(* ===== verification/Zone.thy ===== *)
theory Zone
  imports Message "HOL-Library.Char_ord" "HOL-Library.List_Lexorder"
begin

text \<open>
  The in-memory zone of \<open>src/src/zone.rs\<close>.  The rrset \<open>HashMap\<close> is an association list with
  distinct keys whose order stands for the unspecified iteration order; the \<open>BTreeMap\<close> of names
  is its sorted list of keys.  A \<open>String\<close> is compared as its bytes, which is the order of
  \<^typ>\<open>char\<close> lists here.
\<close>

section \<open>Names below a name\<close>

text \<open>\<open>n.ends_with(&format!(".{}", d))\<close>\<close>

definition below :: "string \<Rightarrow> string \<Rightarrow> bool" where
  "below n d \<longleftrightarrow> suffix (CHR ''.'' # d) n"

lemma below_trans: "below n d \<Longrightarrow> below d e \<Longrightarrow> below n e"
  by (metis below_def suffix_ConsD2 suffix_order.trans suffix_ConsI)

lemma below_length: "below n d \<Longrightarrow> length d < length n"
  by (auto simp: below_def dest: suffix_length_le)

text \<open>On labels: \<open>n\<close> is below \<open>d\<close> when its labels are at least one more followed by those of \<open>d\<close>.\<close>

lemma split_on_append:
  "split_on c (xs @ c # ys) = split_on c xs @ split_on c ys"
  by (induction xs) (auto split: list.splits)

lemma below_labels:
  "below n d \<longleftrightarrow> (\<exists>ls. ls \<noteq> [] \<and> split_dots n = ls @ split_dots d)"
proof
  assume "below n d"
  then obtain xs where "n = xs @ CHR ''.'' # d" by (auto simp: below_def suffix_def)
  then show "\<exists>ls. ls \<noteq> [] \<and> split_dots n = ls @ split_dots d"
    by (intro exI [of _ "split_dots xs"]) (simp add: split_on_append)
next
  have join: "join_on c (ls @ ms) = join_on c ls @ c # join_on c ms" if "ls \<noteq> []" "ms \<noteq> []"
    for c :: char and ls ms
    using that by (induction c ls rule: join_on.induct) (auto simp: neq_Nil_conv)
  assume "\<exists>ls. ls \<noteq> [] \<and> split_dots n = ls @ split_dots d"
  then obtain ls where "ls \<noteq> []" "split_dots n = ls @ split_dots d" by blast
  then have "n = join_dots ls @ CHR ''.'' # d"
    by (metis join join_on_split_on split_on_not_Nil)
  then show "below n d" by (simp add: below_def suffix_def)
qed

section \<open>State and operations\<close>

type_synonym rrset_key = "string \<times> u16"

record zone =
  z_origin :: string
  z_rrsets :: "(rrset_key \<times> rr list) list"
  z_names :: "string list"
  z_nsec_owners :: "string list"

definition zone_new :: "string \<Rightarrow> zone" where
  "zone_new origin =
     \<lparr>z_origin = to_lower (trim_end_dots origin), z_rrsets = [], z_names = [], z_nsec_owners = []\<rparr>"

text \<open>\<open>rrsets.entry(key).or_default().push(r)\<close>\<close>

fun rrset_push :: "rrset_key \<Rightarrow> rr \<Rightarrow> (rrset_key \<times> rr list) list \<Rightarrow> (rrset_key \<times> rr list) list" where
  "rrset_push k r [] = [(k, [r])]"
| "rrset_push k r ((k', rs) # sets) =
     (if k' = k then (k', rs @ [r]) # sets else (k', rs) # rrset_push k r sets)"

definition rr_key :: "rr \<Rightarrow> rrset_key" where
  "rr_key r = (to_lower (r_name r), rtype_to (r_type r))"

definition zone_add :: "rr \<Rightarrow> zone \<Rightarrow> zone" where
  "zone_add r z =
     z\<lparr>z_names := insort_insert (to_lower (r_name r)) (z_names z),
       z_rrsets := rrset_push (rr_key r) r (z_rrsets z)\<rparr>"

definition zone_lookup :: "zone \<Rightarrow> string \<Rightarrow> RType \<Rightarrow> rr list option" where
  "zone_lookup z name qtype = map_of (z_rrsets z) (to_lower name, rtype_to qtype)"

definition name_exists :: "zone \<Rightarrow> string \<Rightarrow> bool" where
  "name_exists z name \<longleftrightarrow>
     to_lower name \<in> set (z_names z) \<or> (\<exists>existing\<in>set (z_names z). below existing (to_lower name))"

definition is_authoritative_for :: "zone \<Rightarrow> string \<Rightarrow> bool" where
  "is_authoritative_for z name \<longleftrightarrow>
     to_lower name = z_origin z \<or> below (to_lower name) (z_origin z)"

definition zone_soa :: "zone \<Rightarrow> rr list option" where
  "zone_soa z = zone_lookup z (z_origin z) SOA"

definition iter_rrsets :: "zone \<Rightarrow> rr list list" where
  "iter_rrsets z = map snd (z_rrsets z)"

definition is_signed :: "zone \<Rightarrow> bool" where
  "is_signed z \<longleftrightarrow> z_nsec_owners z \<noteq> []"

text \<open>\<open>str::split_once\<close> with a dot, and the walk towards the origin.\<close>

fun split_once_dot :: "string \<Rightarrow> (string \<times> string) option" where
  "split_once_dot [] = None"
| "split_once_dot (c # cs) =
     (if c = CHR ''.'' then Some ([], cs)
      else map_option (\<lambda>(x, y). (c # x, y)) (split_once_dot cs))"

lemma split_once_dot_length: "split_once_dot n = Some (x, y) \<Longrightarrow> length y < length n"
  by (induction n arbitrary: x) (auto split: if_splits)

function closest_walk :: "zone \<Rightarrow> string \<Rightarrow> string" where
  "closest_walk z candidate =
     (if candidate = z_origin z then candidate
      else case split_once_dot candidate of
             None \<Rightarrow> z_origin z
           | Some (_, parent) \<Rightarrow> if name_exists z parent then parent else closest_walk z parent)"
  by pat_completeness auto
termination
  by (relation "measure (\<lambda>(z, c). length c)") (auto dest: split_once_dot_length)

declare closest_walk.simps [simp del]

definition closest_encloser :: "zone \<Rightarrow> string \<Rightarrow> string" where
  "closest_encloser z name = closest_walk z (to_lower name)"

section \<open>The zone invariant\<close>

text \<open>
  Every rrset is non-empty and holds exactly records of its key, keys are distinct and in lower
  case, and the name index is the sorted list of the owner names.
\<close>

definition rrset_ok :: "rrset_key \<times> rr list \<Rightarrow> bool" where
  "rrset_ok e \<longleftrightarrow> snd e \<noteq> [] \<and> list_all (\<lambda>r. rr_key r = fst e) (snd e)"

definition zone_inv :: "zone \<Rightarrow> bool" where
  "zone_inv z \<longleftrightarrow>
     distinct (map fst (z_rrsets z)) \<and> list_all rrset_ok (z_rrsets z) \<and>
     sorted (z_names z) \<and> distinct (z_names z) \<and>
     set (z_names z) = fst ` fst ` set (z_rrsets z)"

lemma rrset_push_keys: "fst ` set (rrset_push k r sets) = insert k (fst ` set sets)"
  by (induction k r sets rule: rrset_push.induct) auto

lemma rrset_push_distinct:
  "distinct (map fst sets) \<Longrightarrow> distinct (map fst (rrset_push k r sets))"
proof (induction k r sets rule: rrset_push.induct)
  case (2 k r k' rs sets)
  then show ?case using rrset_push_keys [of k r sets] by (auto simp flip: set_map)
qed simp

lemma rrset_push_entries:
  "list_all rrset_ok sets \<Longrightarrow> list_all rrset_ok (rrset_push (rr_key r) r sets)"
  by (induction "rr_key r" r sets rule: rrset_push.induct) (auto simp: rrset_ok_def)

lemma map_of_rrset_push:
  "map_of (rrset_push k r sets) k' =
    (if k' = k then Some ((case map_of sets k of None \<Rightarrow> [] | Some rs \<Rightarrow> rs) @ [r])
     else map_of sets k')"
  by (induction k r sets rule: rrset_push.induct) auto

lemma zone_inv_new: "zone_inv (zone_new origin)"
  by (simp add: zone_inv_def zone_new_def)

lemma zone_inv_add:
  assumes "zone_inv z" shows "zone_inv (zone_add r z)"
proof -
  have "fst ` fst ` set (rrset_push (rr_key r) r (z_rrsets z)) =
      insert (to_lower (r_name r)) (fst ` fst ` set (z_rrsets z))"
    by (simp only: rrset_push_keys) (simp add: rr_key_def)
  with assms show ?thesis
    by (simp add: zone_inv_def zone_add_def rrset_push_distinct rrset_push_entries
        sorted_insort_insert distinct_insort_insert set_insort_insert)
qed

lemma zone_inv_fold_add: "zone_inv z \<Longrightarrow> zone_inv (fold zone_add rs z)"
  by (induction rs arbitrary: z) (simp_all add: zone_inv_add)

section \<open>Lookups see exactly the added records\<close>

text \<open>
  The contract of a record store: adding appends to the record's own set and touches nothing else.
\<close>

locale rrset_store =
  fixes new :: 'z
    and add :: "rr \<Rightarrow> 'z \<Rightarrow> 'z"
    and find :: "'z \<Rightarrow> rrset_key \<Rightarrow> rr list option"
  assumes find_new: "find new k = None"
    and find_add: "find (add r z) k =
      (if k = rr_key r then Some ((case find z k of None \<Rightarrow> [] | Some rs \<Rightarrow> rs) @ [r]) else find z k)"
begin

definition selected :: "rr list \<Rightarrow> rrset_key \<Rightarrow> rr list" where
  "selected rs k = filter (\<lambda>r. rr_key r = k) rs"

lemma find_fold_add_from:
  "find (fold add rs z) k =
    (if selected rs k = [] then find z k
     else Some ((case find z k of None \<Rightarrow> [] | Some xs \<Rightarrow> xs) @ selected rs k))"
  by (induction rs arbitrary: z) (auto simp: find_add selected_def split: option.splits)

lemma find_fold_add:
  "find (fold add rs new) k = (if selected rs k = [] then None else Some (selected rs k))"
  by (simp add: find_fold_add_from find_new)

end

interpretation zs: rrset_store "zone_new origin" zone_add "\<lambda>z. map_of (z_rrsets z)" for origin
  by unfold_locales (simp_all add: zone_new_def zone_add_def map_of_rrset_push)

definition zone_of :: "string \<Rightarrow> rr list \<Rightarrow> zone" where
  "zone_of origin rs = fold zone_add rs (zone_new origin)"

lemma zone_of_inv: "zone_inv (zone_of origin rs)"
  by (simp add: zone_of_def zone_inv_fold_add zone_inv_new)

lemma zone_add_fields [simp]:
  "z_origin (zone_add r z) = z_origin z" "z_nsec_owners (zone_add r z) = z_nsec_owners z"
  by (simp_all add: zone_add_def)

lemma set_names_fold_add:
  "set (z_names (fold zone_add rs z)) = set (z_names z) \<union> (to_lower \<circ> r_name) ` set rs"
  by (induction rs arbitrary: z) (auto simp: zone_add_def set_insort_insert)

lemma origin_fold_add [simp]: "z_origin (fold zone_add rs z) = z_origin z"
  by (induction rs arbitrary: z) simp_all

lemma set_names_zone_of: "set (z_names (zone_of origin rs)) = (to_lower \<circ> r_name) ` set rs"
  by (simp add: zone_of_def set_names_fold_add zone_new_def)

lemma origin_zone_of [simp]: "z_origin (zone_of origin rs) = to_lower (trim_end_dots origin)"
  by (simp add: zone_of_def) (simp add: zone_new_def)

lemma zone_lookup_zone_of:
  "zone_lookup (zone_of origin rs) name qtype =
    (let sel = filter (\<lambda>r. rr_key r = (to_lower name, rtype_to qtype)) rs
     in if sel = [] then None else Some sel)"
  by (simp add: zone_lookup_def zone_of_def zs.find_fold_add zs.selected_def Let_def)

text \<open>
  A zone into which the records \<open>rs\<close> were added in order answers a lookup with exactly those
  whose owner agrees up to ASCII case and whose type has the queried number, in insertion order,
  and with nothing when there are none: there are no empty rrsets.
\<close>

theorem zone_lookup_added:
  "zone_lookup (zone_of origin rs) name qtype =
    (let sel = filter (\<lambda>r. to_lower (r_name r) = to_lower name \<and> rtype_to (r_type r) = rtype_to qtype) rs
     in if sel = [] then None else Some sel)"
  by (simp add: zone_lookup_zone_of rr_key_def)

lemma name_exists_zone_of:
  "name_exists (zone_of origin rs) name \<longleftrightarrow>
    (\<exists>r\<in>set rs. to_lower (r_name r) = to_lower name \<or> below (to_lower (r_name r)) (to_lower name))"
  by (auto simp: name_exists_def set_names_zone_of intro: rev_image_eqI)

section \<open>Existing names and the closest encloser\<close>

text \<open>An ancestor of an existing name exists: empty non-terminals answer NODATA (RFC 8020).\<close>

lemma name_exists_up: "name_exists z n \<Longrightarrow> below (to_lower n) (to_lower d) \<Longrightarrow> name_exists z d"
  by (auto simp: name_exists_def dest: below_trans)

lemma split_once_dot_None: "split_once_dot n = None \<Longrightarrow> \<not> below n d"
  by (induction n) (auto simp: below_def suffix_Cons split: if_splits)

lemma split_once_dot_below:
  "split_once_dot n = Some (x, p) \<Longrightarrow> below n d \<longleftrightarrow> d = p \<or> below p d"
proof (induction n arbitrary: x)
  case (Cons c cs)
  then show ?case
    by (auto simp: below_def suffix_Cons split: if_splits)
qed (simp add: below_def)

lemma closest_walk_correct:
  assumes "below n (z_origin z)" "name_exists z (z_origin z)" "to_lower n = n"
  shows "below n (closest_walk z n) \<and> name_exists z (closest_walk z n) \<and>
    (\<forall>d. to_lower d = d \<longrightarrow> below n d \<longrightarrow> name_exists z d \<longrightarrow>
      d = closest_walk z n \<or> below (closest_walk z n) d)"
  using assms
proof (induction z n rule: closest_walk.induct)
  case (1 z n)
  have ne: "n \<noteq> z_origin z" using "1.prems"(1) below_length by blast
  obtain x p where p: "split_once_dot n = Some (x, p)"
    using "1.prems"(1) split_once_dot_None by (cases "split_once_dot n") auto
  note below_n = split_once_dot_below [OF p]
  have n: "n = x @ CHR ''.'' # p"
    using p by (induction n arbitrary: x) (auto split: if_splits)
  then have low: "to_lower p = p" using "1.prems"(3) by (simp add: to_lower_Cons)
  show ?case
  proof (cases "name_exists z p")
    case True
    with ne p have "closest_walk z n = p" by (subst closest_walk.simps) simp
    with True below_n show ?thesis by auto
  next
    case False
    with ne p have step: "closest_walk z n = closest_walk z p" by (subst closest_walk.simps) simp
    have "below p (z_origin z)"
      using "1.prems"(1,2) False below_n by auto
    with "1.IH" [OF ne p refl False] "1.prems"(2) low
    have "below p (closest_walk z p) \<and> name_exists z (closest_walk z p) \<and>
      (\<forall>d. to_lower d = d \<longrightarrow> below p d \<longrightarrow> name_exists z d \<longrightarrow>
        d = closest_walk z p \<or> below (closest_walk z p) d)" by blast
    with below_n False show ?thesis unfolding step by auto
  qed
qed

text \<open>
  For a name strictly inside a zone whose apex owns records, \<open>closest_encloser\<close> returns an
  existing proper ancestor of the name, and every other existing proper ancestor is above it
  (RFC 4592 section 3.3.1): the walk neither leaves the zone nor skips an empty non-terminal.
\<close>

theorem closest_encloser_longest:
  assumes "below (to_lower name) (z_origin z)" "name_exists z (z_origin z)"
  shows "below (to_lower name) (closest_encloser z name) \<and>
    name_exists z (closest_encloser z name) \<and>
    (\<forall>d. to_lower d = d \<longrightarrow> below (to_lower name) d \<longrightarrow> name_exists z d \<longrightarrow>
      d = closest_encloser z name \<or> below (closest_encloser z name) d)"
  using closest_walk_correct [of "to_lower name" z] assms by (simp add: closest_encloser_def)

definition sample_rr :: "string \<Rightarrow> RType \<Rightarrow> rr" where
  "sample_rr n t = \<lparr>r_name = n, r_type = t, r_class = 1, r_ttl = 60, r_rdata = []\<rparr>"

definition sample_zone :: zone where
  "sample_zone = zone_of ''e.'' [sample_rr ''e'' SOA, sample_rr ''_h.T.e'' SRV]"

lemma sample_zone_fields:
  "z_origin sample_zone = ''e''" "set (z_names sample_zone) = {''e'', ''_h.t.e''}"
  by (simp_all add: sample_zone_def sample_rr_def set_names_zone_of lower_eval trim_end_dots_def)

lemma closest_encloser_longest_witness:
  "below ''x.t.e'' (closest_encloser sample_zone ''X.t.e'') \<and>
    (''t.e'' = closest_encloser sample_zone ''X.t.e'' \<or>
     below (closest_encloser sample_zone ''X.t.e'') ''t.e'')"
proof -
  have "below (to_lower ''X.t.e'') (z_origin sample_zone)" "name_exists sample_zone (z_origin sample_zone)"
    "name_exists sample_zone ''t.e''" "below (to_lower ''X.t.e'') ''t.e''"
    by (simp_all add: sample_zone_fields name_exists_def below_def lower_eval suffix_def)
  with closest_encloser_longest [of "''X.t.e''" sample_zone] show ?thesis
    by (simp add: lower_eval)
qed

text \<open>
  A zone denies a name only when nothing at or below it was added: what \<open>name_exists\<close> calls
  existing is exactly the set of owner names and their ancestors.
\<close>

theorem name_exists_added:
  "name_exists (zone_of origin rs) name \<longleftrightarrow>
    (\<exists>r\<in>set rs. \<exists>ls. split_dots (to_lower (r_name r)) = ls @ split_dots (to_lower name))"
proof -
  have "a = b \<or> below a b \<longleftrightarrow> (\<exists>ls. split_dots a = ls @ split_dots b)" for a b
    unfolding below_labels by (metis append_Nil join_on_split_on)
  then show ?thesis by (simp add: name_exists_zone_of)
qed

end
