(* ===== verification/Nsec.thy ===== *)
theory Nsec
  imports Zone
begin

text \<open>
  The NSEC half of \<open>src/src/zone.rs\<close>: canonical name order, the type bitmap, the chain over every
  owner name and the search for the NSEC that covers a name.
\<close>

section \<open>canonical_order\<close>

text \<open>
  \<open>Vec<Vec<u8>>\<close> is compared lexicographically, label by label from the root, as \<^typ>\<open>string list\<close>
  is here.
\<close>

datatype ordering = Less | Equal | Greater

definition canonical_key :: "string \<Rightarrow> string list" where
  "canonical_key name =
     map to_lower (filter (\<lambda>label. label \<noteq> []) (rev (split_dots (trim_end_dots name))))"

definition canonical_order :: "string \<Rightarrow> string \<Rightarrow> ordering" where
  "canonical_order a b =
     (if canonical_key a < canonical_key b then Less
      else if canonical_key a = canonical_key b then Equal else Greater)"

section \<open>encode_nsec_bitmap\<close>

definition mark_bit :: "nat \<Rightarrow> u8 list \<Rightarrow> u8 list" where
  "mark_bit b bits = bits[b div 8 := bits ! (b div 8) OR drop_bit (b mod 8) 0x80]"

text \<open>\<open>windows.entry(win).or_insert([0u8; 32])\<close> in the sorted \<open>BTreeMap\<close>, then the bit.\<close>

fun window_mark :: "u8 \<Rightarrow> nat \<Rightarrow> (u8 \<times> u8 list) list \<Rightarrow> (u8 \<times> u8 list) list" where
  "window_mark win b [] = [(win, mark_bit b (replicate 32 0))]"
| "window_mark win b ((w, bits) # ws) =
     (if w = win then (w, mark_bit b bits) # ws
      else if win < w then (win, mark_bit b (replicate 32 0)) # (w, bits) # ws
      else (w, bits) # window_mark win b ws)"

definition type_window :: "u16 \<Rightarrow> u8" where
  "type_window t = ucast (drop_bit 8 t)"

definition type_bit :: "u16 \<Rightarrow> nat" where
  "type_bit t = unat (t AND 0xFF)"

definition nsec_windows :: "u16 list \<Rightarrow> (u8 \<times> u8 list) list" where
  "nsec_windows types =
     fold (\<lambda>t. window_mark (type_window t) (type_bit t)) types []"

text \<open>\<open>bits.iter().rposition(|&b| b != 0).map(|i| i + 1).unwrap_or(0)\<close>\<close>

definition used_octets :: "u8 list \<Rightarrow> nat" where
  "used_octets bits = length (dropWhile (\<lambda>b. b = 0) (rev bits))"

definition encode_window :: "u8 \<times> u8 list \<Rightarrow> u8 list" where
  "encode_window wb = (case wb of (win, bits) \<Rightarrow>
     (let used = used_octets bits
      in if used = 0 then [] else [win, of_nat used] @ take used bits))"

definition encode_nsec_bitmap :: "u16 list \<Rightarrow> u8 list" where
  "encode_nsec_bitmap types = concat (map encode_window (nsec_windows types))"

subsection \<open>A validating decoder\<close>

text \<open>
  RFC 4034 section 4.1.2 read strictly: windows in increasing order, 1 to 32 octets each, no
  trailing zero octet.  \<open>lo\<close> is the smallest window still allowed.
\<close>

definition window_types :: "u8 \<Rightarrow> u8 list \<Rightarrow> u16 list" where
  "window_types win bits =
     map (\<lambda>k. of_be16 win (of_nat k))
       (filter (\<lambda>k. bit (bits ! (k div 8)) (7 - k mod 8)) [0..<8 * length bits])"

function decode_nsec_bitmap :: "nat \<Rightarrow> u8 list \<Rightarrow> u16 list option" where
  "decode_nsec_bitmap lo [] = Some []"
| "decode_nsec_bitmap lo [w] = None"
| "decode_nsec_bitmap lo (w # len # rest) =
     (let n = unat len in
      if unat w < lo \<or> n = 0 \<or> n > 32 \<or> length rest < n \<or> rest ! (n - 1) = 0 then None
      else map_option ((@) (window_types w (take n rest)))
             (decode_nsec_bitmap (unat w + 1) (drop n rest)))"
  by pat_completeness auto
termination by (relation "measure (\<lambda>(lo, bs). length bs)") auto

definition marked :: "(u8 \<times> u8 list) list \<Rightarrow> (u8 \<times> nat) set" where
  "marked ws = {(w, k). k < 256 \<and> (\<exists>bits. (w, bits) \<in> set ws \<and> bit (bits ! (k div 8)) (7 - k mod 8))}"

definition windows_ok :: "(u8 \<times> u8 list) list \<Rightarrow> bool" where
  "windows_ok ws \<longleftrightarrow> sorted_wrt (<) (map fst ws) \<and> (\<forall>(w, bits)\<in>set ws. length bits = 32)"

lemma bit_0x80: "bit (drop_bit m (0x80 :: u8)) n \<longleftrightarrow> n + m = 7"
proof -
  have "(0x80 :: u8) = 2 ^ 7" by simp
  then show ?thesis by (simp only: bit_drop_bit_eq comp_def bit_exp_iff) auto
qed

lemma mark_bit_length [simp]: "length (mark_bit b bits) = length bits"
  by (simp add: mark_bit_def)

lemma mark_bit_bits:
  assumes "b < 256" "k < 256" "length bits = 32"
  shows "bit (mark_bit b bits ! (k div 8)) (7 - k mod 8) \<longleftrightarrow>
    k = b \<or> bit (bits ! (k div 8)) (7 - k mod 8)"
proof (cases "k div 8 = b div 8")
  case True
  have "7 - k mod 8 + b mod 8 = 7 \<longleftrightarrow> k mod 8 = b mod 8"
    using mod_less_divisor [of 8 k] mod_less_divisor [of 8 b] by linarith
  also have "\<dots> \<longleftrightarrow> k = b" using True by (metis div_mult_mod_eq)
  finally show ?thesis
    using True assms by (auto simp: mark_bit_def bit_or_iff bit_0x80)
next
  case False
  then show ?thesis by (auto simp: mark_bit_def)
qed

lemma window_mark_keys: "fst ` set (window_mark win b ws) = insert win (fst ` set ws)"
  by (induction win b ws rule: window_mark.induct) auto

lemma window_mark_ok: "windows_ok ws \<Longrightarrow> windows_ok (window_mark win b ws)"
proof (induction win b ws rule: window_mark.induct)
  case (2 win b w bits ws)
  then have "w \<noteq> win \<Longrightarrow> \<not> win < w \<Longrightarrow> windows_ok (window_mark win b ws)"
    by (auto simp: windows_ok_def)
  moreover have "fst ` set (window_mark win b ws) = insert win (fst ` set ws)"
    by (rule window_mark_keys)
  ultimately show ?case using "2.prems"
    by (fastforce simp: windows_ok_def simp flip: image_set)
qed (simp add: windows_ok_def)

lemma zero_bits: "k < 256 \<Longrightarrow> \<not> bit (replicate 32 (0 :: u8) ! (k div 8)) n"
  by simp

lemma marked_Cons:
  "marked ((w, bits) # ws) =
    {(w, k) | k. k < 256 \<and> bit (bits ! (k div 8)) (7 - k mod 8)} \<union> marked ws"
  by (auto simp: marked_def)

lemma marked_window_mark:
  "b < 256 \<Longrightarrow> windows_ok ws \<Longrightarrow> marked (window_mark win b ws) = insert (win, b) (marked ws)"
proof (induction win b ws rule: window_mark.induct)
  case (1 win b)
  then show ?case by (auto simp: marked_def mark_bit_bits)
next
  case (2 win b w bits ws)
  have len: "length bits = 32" and ok: "windows_ok ws"
    using "2.prems"(2) by (auto simp: windows_ok_def)
  show ?case
    using "2.IH" [OF _ _ "2.prems"(1) ok] "2.prems"(1) len
    by (auto simp: marked_Cons mark_bit_bits)
qed

lemma nsec_windows_ok:
  "windows_ok ws \<Longrightarrow>
    windows_ok (fold (\<lambda>t. window_mark (type_window t) (type_bit t)) types ws)"
  by (induction types arbitrary: ws) (simp_all add: window_mark_ok)

lemma type_bit_less: "type_bit t < 256"
proof -
  have "t AND 0xFF = take_bit 8 t" by (simp add: take_bit_eq_mask mask_eq_exp_minus_1)
  then show ?thesis
    by (simp only: type_bit_def unsigned_take_bit_eq) (simp add: take_bit_eq_mod)
qed

lemma of_be16_parts: "of_be16 (type_window t) (of_nat (type_bit t)) = t"
proof -
  have m: "t AND 0xFF = take_bit 8 t" by (simp add: take_bit_eq_mask mask_eq_exp_minus_1)
  have "(of_nat (type_bit t) :: u8) = ucast t"
    unfolding type_bit_def m of_nat_unat
    by (rule bit_word_eqI) (simp add: bit_ucast_iff bit_take_bit_iff)
  then show ?thesis by (simp add: type_window_def)
qed

lemma marked_fold:
  "windows_ok ws \<Longrightarrow>
    marked (fold (\<lambda>t. window_mark (type_window t) (type_bit t)) types ws) =
    (\<lambda>t. (type_window t, type_bit t)) ` set types \<union> marked ws"
  by (induction types arbitrary: ws) (auto simp: window_mark_ok marked_window_mark type_bit_less)

lemma used_split:
  "\<exists>n. bits = take (used_octets bits) bits @ replicate n 0 \<and>
    (used_octets bits \<noteq> 0 \<longrightarrow> bits ! (used_octets bits - 1) \<noteq> 0) \<and> used_octets bits \<le> length bits"
proof (induction bits rule: rev_induct)
  case Nil
  show ?case by (simp add: used_octets_def)
next
  case (snoc b bits)
  show ?case
  proof (cases "b = 0")
    case True
    then have u: "used_octets (bits @ [b]) = used_octets bits" by (simp add: used_octets_def)
    from snoc obtain n where n: "bits = take (used_octets bits) bits @ replicate n 0"
      "used_octets bits \<noteq> 0 \<longrightarrow> bits ! (used_octets bits - 1) \<noteq> 0" "used_octets bits \<le> length bits"
      by blast
    then have "bits @ [b] = take (used_octets bits) bits @ replicate (Suc n) 0"
      using True by (metis append.assoc replicate_append_same replicate_Suc)
    with n u show ?thesis
      by (intro exI [of _ "Suc n"]) (auto simp: nth_append)
  next
    case False
    then have "used_octets (bits @ [b]) = Suc (length bits)" by (simp add: used_octets_def)
    with False show ?thesis by (intro exI [of _ 0]) simp
  qed
qed

lemma used_octets_zero: "used_octets bits \<le> i \<Longrightarrow> i < length bits \<Longrightarrow> bits ! i = 0"
proof -
  assume i: "used_octets bits \<le> i" "i < length bits"
  obtain n where n: "bits = take (used_octets bits) bits @ replicate n 0"
    "used_octets bits \<le> length bits" using used_split by blast
  have "length bits = used_octets bits + n" using n by (metis length_append length_replicate length_take min.absorb2)
  with i n show "bits ! i = 0" by (metis nth_append nth_replicate length_take min.absorb2 not_less less_diff_conv2 add.commute)
qed

lemma used_octets_le: "used_octets bits \<le> length bits"
  using used_split by blast

lemma used_octets_last: "used_octets bits \<noteq> 0 \<Longrightarrow> bits ! (used_octets bits - 1) \<noteq> 0"
  using used_split by blast

lemma set_window_types:
  assumes "length bits = 32"
  shows "set (window_types w (take (used_octets bits) bits)) =
    {of_be16 w (of_nat k) | k. k < 256 \<and> bit (bits ! (k div 8)) (7 - k mod 8)}"
proof -
  have used: "k div 8 < used_octets bits" if "k < 256" "bit (bits ! (k div 8)) (7 - k mod 8)" for k
  proof (rule ccontr)
    assume "\<not> k div 8 < used_octets bits"
    then have "bits ! (k div 8) = 0" using that assms by (intro used_octets_zero) auto
    with that show False by simp
  qed
  have "k < 8 * used_octets bits \<longleftrightarrow> k div 8 < used_octets bits" for k by linarith
  moreover have "used_octets bits \<le> 32" using used_octets_le [of bits] assms by simp
  ultimately show ?thesis
    using used by (fastforce simp: window_types_def min_def assms)
qed

lemma decode_windows:
  assumes "windows_ok ws" "\<And>w. w \<in> fst ` set ws \<Longrightarrow> lo \<le> unat w"
  shows "\<exists>ts. decode_nsec_bitmap lo (concat (map encode_window ws)) = Some ts \<and>
    set ts = (\<lambda>(w, k). of_be16 w (of_nat k)) ` marked ws"
  using assms
proof (induction ws arbitrary: lo)
  case Nil
  show ?case by (simp add: marked_def)
next
  case (Cons wb ws)
  obtain w bits where wb: "wb = (w, bits)" by (cases wb)
  let ?u = "used_octets bits"
  have len: "length bits = 32" and ok: "windows_ok ws"
    and above: "\<And>v. v \<in> fst ` set ws \<Longrightarrow> unat w + 1 \<le> unat v"
    using Cons.prems(1) by (auto simp: windows_ok_def wb word_less_nat_alt Suc_le_eq)
  have here: "(\<lambda>(w, k). of_be16 w (of_nat k)) ` marked (wb # ws) =
      set (window_types w (take ?u bits)) \<union> (\<lambda>(w, k). of_be16 w (of_nat k)) ` marked ws"
    unfolding set_window_types [OF len] by (auto simp: wb marked_Cons)
  show ?case
  proof (cases "?u = 0")
    case True
    then have "set (window_types w (take ?u bits)) = {}" by (simp add: window_types_def)
    moreover have "\<And>v. v \<in> fst ` set ws \<Longrightarrow> lo \<le> unat v" using Cons.prems(2) by auto
    ultimately show ?thesis
      using Cons.IH [OF ok, of lo] True here by (auto simp: wb encode_window_def)
  next
    case False
    have u: "unat (of_nat ?u :: u8) = ?u" "?u \<le> 32"
      using used_octets_le [of bits] len by (simp_all add: unat_of_nat)
    obtain ts where ts: "decode_nsec_bitmap (unat w + 1) (concat (map encode_window ws)) = Some ts"
        "set ts = (\<lambda>(w, k). of_be16 w (of_nat k)) ` marked ws"
      using Cons.IH [OF ok above] by blast
    have "(take ?u bits @ r) ! (?u - 1) \<noteq> 0" for r
      using used_octets_last [OF False] False len u by (simp add: nth_append)
    then have "decode_nsec_bitmap lo (concat (map encode_window (wb # ws))) =
        Some (window_types w (take ?u bits) @ ts)"
      using False u len ts(1) Cons.prems(2) [of w]
      by (simp add: wb encode_window_def Let_def)
    with ts(2) here show ?thesis by auto
  qed
qed

text \<open>
  The type bitmap of an NSEC record is valid RFC 4034 encoding (increasing windows, 1 to 32
  octets, no trailing zero octet) and lists exactly the given types, for every list of types.
\<close>

theorem nsec_bitmap_roundtrip:
  "\<exists>ts. decode_nsec_bitmap 0 (encode_nsec_bitmap types) = Some ts \<and> set ts = set types"
proof -
  have ok: "windows_ok []" by (simp add: windows_ok_def)
  have "(\<lambda>(w, k). of_be16 w (of_nat k)) ` marked (nsec_windows types) = set types"
    by (simp only: nsec_windows_def marked_fold [OF ok])
      (simp add: marked_def image_image of_be16_parts)
  with decode_windows [OF nsec_windows_ok [OF ok, of types], of 0] show ?thesis
    by (simp add: encode_nsec_bitmap_def nsec_windows_def)
qed

section \<open>build_nsec_chain and nsec_covering_owner\<close>

definition nsec_types_at :: "zone \<Rightarrow> string \<Rightarrow> u16 list" where
  "nsec_types_at z owner =
     map snd (filter (\<lambda>k. fst k = owner) (map fst (z_rrsets z))) @ [rtype_to RRSIG, rtype_to NSEC]"

definition nsec_record :: "zone \<Rightarrow> u32 \<Rightarrow> string \<Rightarrow> string \<Rightarrow> rr" where
  "nsec_record z ttl owner nxt =
     \<lparr>r_name = owner, r_type = NSEC, r_class = CLASS_IN, r_ttl = ttl,
      r_rdata = b_name nxt @ encode_nsec_bitmap (nsec_types_at z owner)\<rparr>"

text \<open>Each owner with its successor, \<open>&owners[(index + 1) % owners.len()]\<close>.\<close>

definition chain_links :: "string list \<Rightarrow> (string \<times> string) list" where
  "chain_links owners =
     map (\<lambda>index. (owners ! index, owners ! ((index + 1) mod length owners))) [0..<length owners]"

definition chain_owners :: "zone \<Rightarrow> string list" where
  "chain_owners z = sort_key canonical_key (z_names z)"

definition add_nsec :: "u32 \<Rightarrow> string \<times> string \<Rightarrow> zone \<Rightarrow> zone" where
  "add_nsec ttl link z = zone_add (nsec_record z ttl (fst link) (snd link)) z"

definition build_nsec_chain :: "u32 \<Rightarrow> zone \<Rightarrow> zone" where
  "build_nsec_chain ttl z =
     (let owners = chain_owners z; z' = fold (add_nsec ttl) (chain_links owners) z
      in z'\<lparr>z_nsec_owners := owners\<rparr>)"

text \<open>
  \<open>slice::partition_point\<close>: on a list whose elements satisfying \<open>P\<close> come first, as here, its
  binary search returns their number.
\<close>

definition partition_point :: "('a \<Rightarrow> bool) \<Rightarrow> 'a list \<Rightarrow> nat" where
  "partition_point P xs = length (takeWhile P xs)"

definition nsec_covering_owner :: "zone \<Rightarrow> string \<Rightarrow> string option" where
  "nsec_covering_owner z name =
     (let owners = z_nsec_owners z;
          position = partition_point (\<lambda>owner. canonical_order owner name = Less) owners
      in if position = 0
         then (if length owners = 0 then None else Some (owners ! (length owners - 1)))
         else (if position - 1 < length owners then Some (owners ! (position - 1)) else None))"

subsection \<open>The chain in the zone\<close>

lemma nsec_types_at_add:
  "to_lower (r_name r) \<noteq> owner \<Longrightarrow> nsec_types_at (zone_add r z) owner = nsec_types_at z owner"
proof -
  have "fst k \<noteq> owner \<Longrightarrow> filter (\<lambda>k. fst k = owner) (map fst (rrset_push k r sets)) =
      filter (\<lambda>k. fst k = owner) (map fst sets)" for k sets
    by (induction k r sets rule: rrset_push.induct) auto
  then show "to_lower (r_name r) \<noteq> owner \<Longrightarrow> ?thesis"
    by (simp add: nsec_types_at_def zone_add_def rr_key_def)
qed

lemma nsec_record_add:
  "to_lower (r_name r) \<noteq> owner \<Longrightarrow> nsec_record (zone_add r z) ttl owner nxt = nsec_record z ttl owner nxt"
  by (simp add: nsec_record_def nsec_types_at_add)

lemma r_name_nsec_record [simp]: "r_name (nsec_record z ttl owner nxt) = owner"
  by (simp add: nsec_record_def)

lemma rr_key_nsec_record: "rr_key (nsec_record z ttl owner nxt) = (to_lower owner, 47)"
  by (simp add: rr_key_def nsec_record_def)

lemma fold_add_nsec_other:
  "o1 \<notin> to_lower ` fst ` set links \<Longrightarrow>
    nsec_record (fold (add_nsec ttl) links z) ttl o1 nxt = nsec_record z ttl o1 nxt \<and>
    map_of (z_rrsets (fold (add_nsec ttl) links z)) (o1, 47) = map_of (z_rrsets z) (o1, 47)"
proof (induction links arbitrary: z)
  case (Cons l links)
  from Cons.prems have ne: "to_lower (fst l) \<noteq> o1" "o1 \<notin> to_lower ` fst ` set links" by auto
  have "nsec_record (add_nsec ttl l z) ttl o1 nxt = nsec_record z ttl o1 nxt"
    using ne by (simp add: add_nsec_def nsec_record_add)
  moreover have "map_of (z_rrsets (add_nsec ttl l z)) (o1, 47) = map_of (z_rrsets z) (o1, 47)"
    using ne by (simp add: add_nsec_def zs.find_add rr_key_nsec_record)
  ultimately show ?case using Cons.IH [OF ne(2), of "add_nsec ttl l z"] by simp
qed simp

lemma fold_add_nsec_lookup:
  assumes "distinct (map fst links)" "\<forall>l\<in>set links. to_lower (fst l) = fst l" "(o1, nxt) \<in> set links"
    "map_of (z_rrsets z) (o1, 47) = None"
  shows "map_of (z_rrsets (fold (add_nsec ttl) links z)) (o1, 47) = Some [nsec_record z ttl o1 nxt]"
  using assms
proof (induction links arbitrary: z)
  case (Cons l links)
  have low: "to_lower (fst l) = fst l" and lows: "to_lower ` fst ` set links = fst ` set links"
    using Cons.prems(2) by (simp_all add: image_image)
  show ?case
  proof (cases "l = (o1, nxt)")
    case True
    with Cons.prems(1) have "o1 \<notin> to_lower ` fst ` set links" by (simp add: lows)
    moreover have "map_of (z_rrsets (add_nsec ttl l z)) (o1, 47) = Some [nsec_record z ttl o1 nxt]"
      using True low Cons.prems(4) by (simp add: add_nsec_def zs.find_add rr_key_nsec_record)
    ultimately show ?thesis using fold_add_nsec_other by simp
  next
    case False
    with Cons.prems(1,3) have mem: "(o1, nxt) \<in> set links" "fst l \<noteq> o1"
      by (auto simp: image_iff)
    with low Cons.prems(4) have "map_of (z_rrsets (add_nsec ttl l z)) (o1, 47) = None"
      "nsec_record (add_nsec ttl l z) ttl o1 nxt = nsec_record z ttl o1 nxt"
      by (simp_all add: add_nsec_def zs.find_add rr_key_nsec_record nsec_record_add)
    with Cons.IH [of "add_nsec ttl l z"] Cons.prems(1,2) mem show ?thesis by simp
  qed
qed simp

lemma chain_links_owners: "map fst (chain_links owners) = owners"
  by (simp add: chain_links_def comp_def map_nth)

lemma zone_inv_lower: "zone_inv z \<Longrightarrow> n \<in> set (z_names z) \<Longrightarrow> to_lower n = n"
proof -
  assume inv: "zone_inv z" "n \<in> set (z_names z)"
  then obtain e where e: "e \<in> set (z_rrsets z)" "n = fst (fst e)" by (auto simp: zone_inv_def)
  with inv have "rrset_ok e" by (auto simp: zone_inv_def list_all_iff)
  then obtain r where "r \<in> set (snd e)" "rr_key r = fst e"
    by (cases "snd e") (auto simp: rrset_ok_def)
  with e show "to_lower n = n" by (auto simp: rr_key_def dest!: sym [of _ "fst e"])
qed

lemma chain_owners_facts:
  assumes "zone_inv z"
  shows "distinct (chain_owners z)" "set (chain_owners z) = set (z_names z)"
    "sorted (map canonical_key (chain_owners z))"
  using assms by (simp_all add: chain_owners_def zone_inv_def)

lemma build_nsec_lookup:
  assumes inv: "zone_inv z" and link: "(o1, nxt) \<in> set (chain_links (chain_owners z))"
    and fresh: "zone_lookup z o1 NSEC = None"
  shows "zone_lookup (build_nsec_chain ttl z) o1 NSEC = Some [nsec_record z ttl o1 nxt]"
proof -
  let ?links = "chain_links (chain_owners z)"
  have owners: "fst ` set ?links = set (z_names z)"
    using chain_owners_facts [OF inv] by (metis chain_links_owners set_map)
  have dist: "distinct (map fst ?links)"
    using chain_owners_facts [OF inv] by (simp add: chain_links_owners)
  have lows: "\<forall>l\<in>set ?links. to_lower (fst l) = fst l"
    using owners zone_inv_lower [OF inv] by blast
  with link have "to_lower o1 = o1" by fastforce
  with fold_add_nsec_lookup [OF dist lows link] fresh show ?thesis
    by (simp add: zone_lookup_def build_nsec_chain_def Let_def)
qed

subsection \<open>The covering NSEC\<close>

text \<open>
  An NSEC at \<open>owner\<close> pointing to \<open>nxt\<close> covers a name that sorts strictly between them; the last
  NSEC of the chain points back to the first owner and covers what sorts after it or before that
  (RFC 4035 section 5.4).
\<close>

definition nsec_covers :: "string \<Rightarrow> string \<Rightarrow> string \<Rightarrow> bool" where
  "nsec_covers owner nxt name \<longleftrightarrow>
     (let o1 = canonical_key owner; n1 = canonical_key nxt; k = canonical_key name
      in if o1 < n1 then o1 < k \<and> k < n1 else o1 < k \<or> k < n1)"

lemma covering_index:
  assumes sorted: "sorted (map canonical_key owners)" and ne: "owners \<noteq> []"
    and fresh: "canonical_key name \<notin> canonical_key ` set owners"
    and z: "z_nsec_owners z = owners"
  shows "\<exists>i<length owners. nsec_covering_owner z name = Some (owners ! i) \<and>
    nsec_covers (owners ! i) (owners ! ((i + 1) mod length owners)) name"
proof -
  let ?P = "\<lambda>owner. canonical_order owner name = Less"
  let ?k = "canonical_key name"
  define p where "p = partition_point ?P owners"
  have less: "?P owner \<longleftrightarrow> canonical_key owner < ?k" for owner
    by (simp add: canonical_order_def)
  have p: "p \<le> length owners" by (simp add: p_def partition_point_def length_takeWhile_le)
  have before: "canonical_key (owners ! i) < ?k" if "i < p" for i
  proof -
    have "takeWhile ?P owners ! i \<in> set (takeWhile ?P owners)"
      using that by (simp add: p_def partition_point_def)
    then have "?P (takeWhile ?P owners ! i)" by (rule set_takeWhileD [THEN conjunct2])
    moreover have "takeWhile ?P owners ! i = owners ! i"
      using that by (simp add: p_def partition_point_def takeWhile_nth)
    ultimately show ?thesis using less by simp
  qed
  have "\<not> ?P (owners ! p)" if "p < length owners"
    using that nth_length_takeWhile unfolding p_def partition_point_def by blast
  then have at: "?k < canonical_key (owners ! p)" if "p < length owners"
    using that less fresh by (metis image_eqI linorder_less_linear nth_mem)
  have mono: "canonical_key (owners ! i) \<le> canonical_key (owners ! j)"
    if "i \<le> j" "j < length owners" for i j
    using sorted_nth_mono [OF sorted that(1)] that by simp
  have cov: "nsec_covering_owner z name =
      (if p = 0 then Some (owners ! (length owners - 1)) else Some (owners ! (p - 1)))"
    using ne p by (auto simp: nsec_covering_owner_def z Let_def p_def)
  show ?thesis
  proof (cases "p = 0 \<or> p = length owners")
    case True
    let ?i = "length owners - 1"
    have i: "?i < length owners" "(?i + 1) mod length owners = 0"
      "nsec_covering_owner z name = Some (owners ! ?i)"
      using True cov ne by (auto simp: Suc_diff_Suc)
    have "\<not> canonical_key (owners ! ?i) < canonical_key (owners ! 0)"
      using mono [of 0 ?i] i by (simp add: not_less)
    moreover have "canonical_key (owners ! ?i) < ?k \<or> ?k < canonical_key (owners ! 0)"
      using True at before [of ?i] ne by auto
    ultimately show ?thesis using i by (intro exI [of _ ?i]) (simp add: nsec_covers_def)
  next
    case False
    then have i: "p - 1 < length owners" "(p - 1 + 1) mod length owners = p" "p < length owners"
      "nsec_covering_owner z name = Some (owners ! (p - 1))"
      using p cov by auto
    moreover have "canonical_key (owners ! (p - 1)) < ?k" using False by (intro before) simp
    ultimately show ?thesis using at by (intro exI [of _ "p - 1"]) (auto simp: nsec_covers_def)
  qed
qed

text \<open>
  C10. After \<open>build_nsec_chain\<close> every name that is not an owner is denied by the zone itself: the
  owner returned by \<open>nsec_covering_owner\<close> carries one NSEC record, it names another owner of the
  zone as its successor, and in canonical order the denied name falls strictly between the two.
\<close>

theorem nsec_chain_covers:
  assumes inv: "zone_inv z" and ne: "z_names z \<noteq> []"
    and fresh: "\<forall>n\<in>set (z_names z). zone_lookup z n NSEC = None"
    and name: "canonical_key name \<notin> canonical_key ` set (z_names z)"
  shows "\<exists>owner nxt. nsec_covering_owner (build_nsec_chain ttl z) name = Some owner \<and>
    zone_lookup (build_nsec_chain ttl z) owner NSEC = Some [nsec_record z ttl owner nxt] \<and>
    owner \<in> set (z_names z) \<and> nxt \<in> set (z_names z) \<and> nsec_covers owner nxt name"
proof -
  let ?o = "chain_owners z" and ?z = "build_nsec_chain ttl z"
  note facts = chain_owners_facts [OF inv]
  have z: "z_nsec_owners ?z = ?o" by (simp add: build_nsec_chain_def Let_def)
  have ne': "?o \<noteq> []" using ne facts(2) by auto
  have "canonical_key name \<notin> canonical_key ` set ?o" using name facts(2) by simp
  from covering_index [OF facts(3) ne' this z]
  obtain i where i: "i < length ?o" "nsec_covering_owner ?z name = Some (?o ! i)"
      "nsec_covers (?o ! i) (?o ! ((i + 1) mod length ?o)) name" by blast
  let ?nxt = "?o ! ((i + 1) mod length ?o)"
  have mem: "?o ! i \<in> set (z_names z)" "?nxt \<in> set (z_names z)"
    using i ne' facts(2) by (metis nth_mem, metis length_greater_0_conv mod_less_divisor nth_mem)
  have "(?o ! i, ?nxt) \<in> set (chain_links ?o)" using i by (simp add: chain_links_def)
  from build_nsec_lookup [OF inv this] fresh mem i show ?thesis by blast
qed

definition denial_zone :: zone where
  "denial_zone = zone_of ''e'' [sample_rr ''e'' SOA, sample_rr ''b.e'' A, sample_rr ''Z.a.e'' A]"

lemma denial_zone_names: "set (z_names denial_zone) = {''e'', ''b.e'', ''z.a.e''}"
  by (simp add: denial_zone_def set_names_zone_of sample_rr_def lower_eval)

lemma denial_zone_no_nsec: "zone_lookup denial_zone n NSEC = None"
  by (simp add: denial_zone_def zone_lookup_def zone_of_def zs.find_add zs.find_new rr_key_def
      sample_rr_def)

lemma nsec_chain_covers_witness:
  "\<exists>owner nxt. nsec_covering_owner (build_nsec_chain 60 denial_zone) ''aa.e'' = Some owner \<and>
    zone_lookup (build_nsec_chain 60 denial_zone) owner NSEC =
      Some [nsec_record denial_zone 60 owner nxt] \<and>
    owner \<in> {''e'', ''b.e'', ''z.a.e''} \<and> nxt \<in> {''e'', ''b.e'', ''z.a.e''} \<and>
    nsec_covers owner nxt ''aa.e''"
proof -
  have "canonical_key ''aa.e'' \<notin> canonical_key ` {''e'', ''b.e'', ''z.a.e''}"
    by (simp add: canonical_key_def trim_end_dots_def lower_eval)
  then have name: "canonical_key ''aa.e'' \<notin> canonical_key ` set (z_names denial_zone)"
    by (simp add: denial_zone_names)
  have inv: "zone_inv denial_zone" unfolding denial_zone_def by (rule zone_of_inv)
  have ne: "z_names denial_zone \<noteq> []" by (rule notI) (use denial_zone_names in simp)
  have fresh: "\<forall>n\<in>set (z_names denial_zone). zone_lookup denial_zone n NSEC = None"
    by (simp add: denial_zone_no_nsec)
  from nsec_chain_covers [OF inv ne fresh name, of 60] show ?thesis
    by (simp only: denial_zone_names)
qed

end
