(* ===== verification/Nsec3.thy ===== *)
theory Nsec3
  imports Zone
begin

text \<open>
  The NSEC3 half of \<open>src/src/zone.rs\<close>: parameters, hashed names, base32hex labels and the search
  for the covering record.  SHA-1, of the \<open>sha1\<close> crate, is an argument.
\<close>

section \<open>Nsec3Params\<close>

record nsec3_params =
  n3_algorithm :: u8
  n3_flags :: u8
  n3_iterations :: u16
  n3_salt :: "u8 list"

definition nsec3_params_parse :: "u8 list \<Rightarrow> nsec3_params option" where
  "nsec3_params_parse rdat =
     (if length rdat < 5 then None
      else let salt_len = unat (rdat ! 4) in
        if length rdat < 5 + salt_len then None
        else Some \<lparr>n3_algorithm = rdat ! 0, n3_flags = rdat ! 1, n3_iterations = of_be16 (rdat ! 2) (rdat ! 3),
                   n3_salt = take salt_len (drop 5 rdat)\<rparr>)"

text \<open>\<open>H(H(... H(name || salt) || salt ...) || salt)\<close>\<close>

definition hash_name :: "(u8 list \<Rightarrow> u8 list) \<Rightarrow> nsec3_params \<Rightarrow> string \<Rightarrow> u8 list" where
  "hash_name sha1 ps name =
     ((\<lambda>h. sha1 (h @ n3_salt ps)) ^^ unat (n3_iterations ps)) (sha1 (canonical_name name @ n3_salt ps))"

section \<open>base32hex_encode\<close>

definition ALPHABET :: string where
  "ALPHABET = ''0123456789ABCDEFGHIJKLMNOPQRSTUV''"

text \<open>The loop over one byte's bits: at most two digits come out of it.\<close>

fun base32_emit :: "u32 \<Rightarrow> nat \<Rightarrow> string \<times> nat" where
  "base32_emit buf bits =
     (if 5 \<le> bits then
        let d = ALPHABET ! unat (drop_bit (bits - 5) buf AND 0x1f); (out, left) = base32_emit buf (bits - 5)
        in (d # out, left)
      else ([], bits))"

declare base32_emit.simps [simp del]

fun base32_loop :: "u8 list \<Rightarrow> u32 \<Rightarrow> nat \<Rightarrow> string" where
  "base32_loop [] buf bits =
     (if 0 < bits then [ALPHABET ! unat (push_bit (5 - bits) buf AND 0x1f)] else [])"
| "base32_loop (b # bs) buf bits =
     (let buf = push_bit 8 buf OR ucast b; (out, bits) = base32_emit buf (bits + 8)
      in out @ base32_loop bs buf bits)"

definition base32hex_encode :: "u8 list \<Rightarrow> string" where
  "base32hex_encode input = base32_loop input 0 0"

section \<open>nsec3_covering\<close>

definition zone_nsec3_params :: "zone \<Rightarrow> nsec3_params option" where
  "zone_nsec3_params z =
     (case zone_lookup z (z_origin z) NSEC3PARAM of
        Some (r # _) \<Rightarrow> nsec3_params_parse (r_rdata r)
      | _ \<Rightarrow> None)"

definition ascii_upper :: "char \<Rightarrow> char" where
  "ascii_upper c = (if CHR ''a'' \<le> c \<and> c \<le> CHR ''z'' then char_of (of_char c - 32 :: nat) else c)"

definition nsec3_label :: "rr \<Rightarrow> string" where
  "nsec3_label r = map ascii_upper (hd (split_dots (r_name r)))"

definition nsec3_entries :: "zone \<Rightarrow> (string \<times> rr) list" where
  "nsec3_entries z =
     sort_key fst (map (\<lambda>r. (nsec3_label r, r)) (filter (\<lambda>r. r_type r = NSEC3) (concat (iter_rrsets z))))"

fun nsec3_walk :: "string \<Rightarrow> string \<times> rr \<Rightarrow> (string \<times> rr) list \<Rightarrow> rr" where
  "nsec3_walk target prev [] = snd prev"
| "nsec3_walk target prev (e # es) = (if target < fst e then snd prev else nsec3_walk target e es)"

definition nsec3_covering :: "(u8 list \<Rightarrow> u8 list) \<Rightarrow> zone \<Rightarrow> string \<Rightarrow> rr option" where
  "nsec3_covering sha1 z qname =
     (case zone_nsec3_params z of None \<Rightarrow> None | Some ps \<Rightarrow>
        let entries = nsec3_entries z in
        if entries = [] then None
        else Some (nsec3_walk (base32hex_encode (hash_name sha1 ps qname)) (last entries) entries))"

section \<open>The covering record\<close>

lemma sorted_le_last: "sorted xs \<Longrightarrow> x \<in> set xs \<Longrightarrow> x \<le> last xs"
  by (induction xs) auto

lemma nsec3_walk_spec:
  assumes "sorted (map fst es)" "es \<noteq> []"
  shows "\<exists>l. (l, nsec3_walk t (last es) es) \<in> set es \<and>
    (l \<le> t \<and> (\<forall>e\<in>set es. fst e \<le> t \<longrightarrow> fst e \<le> l) \<or> (\<forall>e\<in>set es. t < fst e \<and> fst e \<le> l))"
proof -
  have later: "\<exists>l. (l, nsec3_walk t p es) \<in> insert p (set es) \<and> l \<le> t \<and>
      (\<forall>e\<in>insert p (set es). fst e \<le> t \<longrightarrow> fst e \<le> l)"
    if "fst p \<le> t" "sorted (map fst (p # es))" for p es
    using that
  proof (induction es arbitrary: p)
    case Nil
    then show ?case by (intro exI [of _ "fst p"]) simp
  next
    case (Cons e es)
    show ?case
    proof (cases "t < fst e")
      case True
      with Cons.prems show ?thesis by (intro exI [of _ "fst p"]) (auto simp: not_less)
    next
      case False
      then obtain l where "(l, nsec3_walk t e es) \<in> insert e (set es)" "l \<le> t"
        "\<forall>x\<in>insert e (set es). fst x \<le> t \<longrightarrow> fst x \<le> l"
        using Cons.IH [of e] Cons.prems by (auto simp: not_less)
      with False Cons.prems show ?thesis by (intro exI [of _ l]) (auto intro: order_trans)
    qed
  qed
  obtain e es' where es: "es = e # es'" using assms(2) by (cases es) auto
  show ?thesis
  proof (cases "t < fst e")
    case True
    have "fst x \<le> fst (last es)" if "x \<in> set es" for x
      using sorted_le_last [OF assms(1), of "fst x"] that assms(2) by (simp add: last_map)
    moreover have "(fst (last es), snd (last es)) \<in> set es" using assms(2) by simp
    moreover have "nsec3_walk t p es = snd p" for p using True by (simp add: es)
    moreover have "t < fst x" if "x \<in> set es" for x using True assms(1) that by (auto simp: es)
    ultimately show ?thesis by (intro exI [of _ "fst (last es)"]) auto
  next
    case False
    then show ?thesis using later [of e es'] assms(1) by (auto simp: es not_less simp del: last.simps)
  qed
qed

text \<open>
  C27. The NSEC3 record sent for a missing name is one of the zone's whose hashed label is the
  greatest one not above the hash of the name; when the hash sorts before every label it is the
  last one, whose interval wraps around.
\<close>

theorem nsec3_covering_precedes:
  assumes "nsec3_covering sha1 z qname = Some r" "zone_nsec3_params z = Some ps"
  defines "t \<equiv> base32hex_encode (hash_name sha1 ps qname)"
  shows "(nsec3_label r, r) \<in> set (nsec3_entries z) \<and>
    (nsec3_label r \<le> t \<and> (\<forall>e\<in>set (nsec3_entries z). fst e \<le> t \<longrightarrow> fst e \<le> nsec3_label r) \<or>
     (\<forall>e\<in>set (nsec3_entries z). t < fst e \<and> fst e \<le> nsec3_label r))"
proof -
  let ?es = "nsec3_entries z"
  have ne: "?es \<noteq> []" and r: "r = nsec3_walk t (last ?es) ?es"
    using assms by (auto simp: nsec3_covering_def Let_def split: if_splits)
  have "sorted (map fst ?es)" by (simp add: nsec3_entries_def)
  from nsec3_walk_spec [OF this ne, of t] obtain l where l: "(l, r) \<in> set ?es"
    "l \<le> t \<and> (\<forall>e\<in>set ?es. fst e \<le> t \<longrightarrow> fst e \<le> l) \<or> (\<forall>e\<in>set ?es. t < fst e \<and> fst e \<le> l)"
    unfolding r by blast
  moreover have "l = nsec3_label r" using l(1) by (auto simp: nsec3_entries_def)
  ultimately show ?thesis by blast
qed

definition nsec3_zone :: zone where
  "nsec3_zone =
     \<lparr>z_origin = ''e'',
      z_rrsets = [((''e'', 51), [\<lparr>r_name = ''e'', r_type = NSEC3PARAM, r_class = 1, r_ttl = 0, r_rdata = [1, 0, 0, 0, 0]\<rparr>]),
                  ((''0.e'', 50), [\<lparr>r_name = ''0.e'', r_type = NSEC3, r_class = 1, r_ttl = 0, r_rdata = [1, 0, 0, 0, 0]\<rparr>])],
      z_names = [''0.e'', ''e''], z_nsec_owners = []\<rparr>"

lemma nsec3_covering_precedes_witness:
  "\<exists>r. nsec3_covering (\<lambda>x. []) nsec3_zone ''q.e'' = Some r \<and> (nsec3_label r, r) \<in> set (nsec3_entries nsec3_zone)"
proof -
  have ps: "zone_nsec3_params nsec3_zone = Some \<lparr>n3_algorithm = 1, n3_flags = 0, n3_iterations = 0, n3_salt = []\<rparr>"
    by (simp add: zone_nsec3_params_def zone_lookup_def nsec3_zone_def nsec3_params_parse_def of_be16_def
        to_lower_def ascii_lower_def)
  have "nsec3_entries nsec3_zone \<noteq> []"
    by (simp add: nsec3_entries_def iter_rrsets_def nsec3_zone_def flip: length_greater_0_conv)
  with ps obtain r where "nsec3_covering (\<lambda>x. []) nsec3_zone ''q.e'' = Some r"
    by (simp add: nsec3_covering_def Let_def)
  with nsec3_covering_precedes [OF this ps] show ?thesis by blast
qed

section \<open>base32hex against RFC 4648\<close>

definition byte_bits :: "u8 \<Rightarrow> bool list" where
  "byte_bits b = rev (map (bit b) [0..<8])"

definition low_bits :: "nat \<Rightarrow> u32 \<Rightarrow> bool list" where
  "low_bits n w = rev (map (bit w) [0..<n])"

definition bits_val :: "bool list \<Rightarrow> nat" where
  "bits_val bs = horner_sum of_bool 2 (rev bs)"

definition digit :: "bool list \<Rightarrow> char" where
  "digit bs = ALPHABET ! bits_val bs"

text \<open>Groups of five bits, the last one filled with zeros.\<close>

fun groups5 :: "bool list \<Rightarrow> bool list list" where
  "groups5 bs = (if bs = [] then [] else take 5 (bs @ replicate 4 False) # groups5 (drop 5 bs))"

declare groups5.simps [simp del]

definition base32hex_ref :: "u8 list \<Rightarrow> string" where
  "base32hex_ref input = map digit (groups5 (concat (map byte_bits input)))"

lemma length_low_bits [simp]: "length (low_bits n w) = n"
  by (simp add: low_bits_def)

lemma low_bits_nth: "i < n \<Longrightarrow> low_bits n w ! i = bit w (n - 1 - i)"
  by (simp add: low_bits_def rev_nth)

lemma byte_bits_nth: "i < 8 \<Longrightarrow> byte_bits b ! i = bit b (7 - i)"
  by (simp add: byte_bits_def rev_nth del: upt_conv_Cons)

lemma length_byte_bits [simp]: "length (byte_bits b) = 8"
  by (simp add: byte_bits_def)

lemma low_bits_shift:
  assumes "n + 8 \<le> 32"
  shows "low_bits (n + 8) (push_bit 8 w OR ucast b) = low_bits n w @ byte_bits b"
proof (rule nth_equalityI)
  fix i assume "i < length (low_bits (n + 8) (push_bit 8 w OR ucast b))"
  then have i: "i < n + 8" by simp
  show "low_bits (n + 8) (push_bit 8 w OR ucast b) ! i = (low_bits n w @ byte_bits b) ! i"
  proof (cases "i < n")
    case True
    with assms show ?thesis
      by (auto simp: low_bits_nth nth_append bit_or_iff bit_push_bit_iff bit_ucast_iff
          dest: bit_imp_le_length intro!: arg_cong [where f = "bit w"])
  next
    case False
    with i assms show ?thesis
      by (auto simp: low_bits_nth nth_append byte_bits_nth bit_or_iff bit_push_bit_iff bit_ucast_iff
          intro!: arg_cong [where f = "bit b"])
  qed
qed simp

lemma low_bits_split:
  assumes "k \<le> n"
  shows "low_bits n w = low_bits (n - k) (drop_bit k w) @ low_bits k w"
  using assms
  by (intro nth_equalityI) (auto simp: low_bits_nth nth_append bit_drop_bit_eq intro!: arg_cong [where f = "bit w"])

lemma unat_low5: "unat (w AND 0x1f) = bits_val (low_bits 5 w)" for w :: u32
proof -
  have "w AND 0x1f = take_bit 5 w" by (simp add: take_bit_eq_mask mask_eq_exp_minus_1)
  then have "unat (w AND 0x1f) = take_bit 5 (unat w)" by (simp add: unsigned_take_bit_eq)
  also have "\<dots> = horner_sum of_bool 2 (map (bit (unat w)) [0..<5])" by (simp only: horner_sum_bit_eq_take_bit)
  also have "map (bit (unat w)) [0..<5] = map (bit w) [0..<5]" by (simp add: bit_unsigned_iff fun_eq_iff)
  finally show ?thesis by (simp add: bits_val_def low_bits_def del: upt_conv_Cons)
qed

lemma groups5_five: "length xs = 5 \<Longrightarrow> groups5 (xs @ ys) = xs # groups5 ys"
  by (subst groups5.simps) auto

lemma base32_emit_groups:
  "base32_emit buf n = (out, left) \<Longrightarrow>
    left < 5 \<and> left \<le> n \<and> map digit (groups5 (low_bits n buf @ rest)) = out @ map digit (groups5 (low_bits left buf @ rest))"
proof (induction buf n arbitrary: out left rule: base32_emit.induct)
  case (1 buf n)
  show ?case
  proof (cases "5 \<le> n")
    case False
    with "1.prems" show ?thesis by (simp add: base32_emit.simps)
  next
    case True
    obtain out' where e: "base32_emit buf (n - 5) = (out', left)"
      and out: "out = ALPHABET ! unat (drop_bit (n - 5) buf AND 0x1f) # out'"
      using "1.prems" True by (subst (asm) base32_emit.simps) (auto simp: Let_def split: prod.splits)
    have "low_bits n buf = low_bits 5 (drop_bit (n - 5) buf) @ low_bits (n - 5) buf"
      using low_bits_split [of "n - 5" n buf] True by simp
    then show ?thesis
      using "1.IH" [OF True refl e] True by (simp add: groups5_five out digit_def unat_low5)
  qed
qed

lemma base32_loop_groups:
  "n < 5 \<Longrightarrow> base32_loop bs buf n = map digit (groups5 (low_bits n buf @ concat (map byte_bits bs)))"
proof (induction bs arbitrary: buf n)
  case Nil
  show ?case
  proof (cases n)
    case 0
    then show ?thesis by (simp add: groups5.simps low_bits_def)
  next
    case (Suc m)
    have "low_bits 5 (push_bit (5 - n) buf) = take 5 (low_bits n buf @ replicate 4 False)"
      using Nil Suc
      by (intro nth_equalityI) (auto simp: low_bits_nth nth_append bit_push_bit_iff intro!: arg_cong [where f = "bit buf"])
    moreover have "low_bits n buf \<noteq> []" "drop 5 (low_bits n buf) = []"
      using Suc Nil by (auto simp flip: length_greater_0_conv)
    ultimately show ?thesis using Suc by (simp add: groups5.simps digit_def unat_low5)
  qed
next
  case (Cons b bs)
  let ?buf = "push_bit 8 buf OR ucast b"
  obtain out left where e: "base32_emit ?buf (n + 8) = (out, left)" by fastforce
  have "map digit (groups5 (low_bits (n + 8) ?buf @ concat (map byte_bits bs))) =
      out @ map digit (groups5 (low_bits left ?buf @ concat (map byte_bits bs)))" "left < 5"
    using base32_emit_groups [OF e] by auto
  with Cons e show ?case by (simp add: low_bits_shift)
qed

lemma base32hex_is_ref: "base32hex_encode input = base32hex_ref input"
  by (simp add: base32hex_encode_def base32hex_ref_def base32_loop_groups low_bits_def)

section \<open>base32hex keeps the order\<close>

lemma lex_append:
  "length u = length v \<Longrightarrow> u @ x < v @ y \<longleftrightarrow> u < v \<or> u = v \<and> x < y" for u v x y :: "'a::linorder list"
  by (induction u v rule: list_induct2) auto

text \<open>On words of equal length the numerical order of big-endian digits is the lexicographic one.\<close>

lemma bits_val_Cons: "bits_val (b # bs) = of_bool b * 2 ^ length bs + bits_val bs"
  by (simp add: bits_val_def horner_sum_append)

lemma bits_val_less: "bits_val bs < 2 ^ length bs"
proof (induction bs)
  case (Cons b bs)
  then show ?case by (cases b) (simp_all add: bits_val_Cons)
qed (simp add: bits_val_def)

lemma bits_val_order: "length bs = length cs \<Longrightarrow> bs < cs \<longleftrightarrow> bits_val bs < bits_val cs"
proof (induction bs cs rule: list_induct2)
  case (Cons b bs c cs)
  then show ?case
    using bits_val_less [of bs] bits_val_less [of cs]
    by (cases b; cases c) (auto simp: bits_val_Cons)
qed (simp add: bits_val_def)

lemma bits_val_byte: "bits_val (byte_bits b) = unat b"
proof -
  have "map (bit (unat b)) [0..<8] = map (bit b) [0..<8]" by (simp add: bit_unsigned_iff fun_eq_iff)
  then have "bits_val (byte_bits b) = horner_sum of_bool 2 (map (bit (unat b)) [0..<8])"
    by (simp only: bits_val_def byte_bits_def rev_rev_ident)
  also have "\<dots> = take_bit 8 (unat b)" by (simp only: horner_sum_bit_eq_take_bit)
  finally show ?thesis by (simp add: take_bit_nat_eq_self)
qed

lemma byte_bits_order: "byte_bits a < byte_bits b \<longleftrightarrow> a < b"
  by (simp add: bits_val_order bits_val_byte word_less_nat_alt)

lemma bytes_order:
  "length xs = length ys \<Longrightarrow> concat (map byte_bits xs) < concat (map byte_bits ys) \<longleftrightarrow> xs < ys"
proof (induction xs ys rule: list_induct2)
  case (Cons x xs y ys)
  have "byte_bits x = byte_bits y \<longleftrightarrow> x = y" by (metis bits_val_byte unsigned_word_eqI)
  with Cons show ?case by (simp add: lex_append byte_bits_order)
qed simp

lemma ALPHABET_sorted: "sorted_wrt (<) ALPHABET" "length ALPHABET = 32"
  unfolding ALPHABET_def by code_simp+

lemma digit_order:
  assumes "length bs = 5" "length cs = 5"
  shows "digit bs < digit cs \<longleftrightarrow> bs < cs" "digit bs = digit cs \<longleftrightarrow> bs = cs"
proof -
  have lt: "bits_val bs < 32" "bits_val cs < 32" using bits_val_less [of bs] bits_val_less [of cs] assms by auto
  have mono: "i < j \<Longrightarrow> j < 32 \<Longrightarrow> ALPHABET ! i < ALPHABET ! j" for i j
    using ALPHABET_sorted by (simp add: sorted_wrt_iff_nth_less)
  have *: "digit bs < digit cs \<longleftrightarrow> bits_val bs < bits_val cs"
    using mono lt unfolding digit_def by (metis less_asym linorder_neqE_nat order_less_irrefl)
  then show "digit bs < digit cs \<longleftrightarrow> bs < cs" using assms by (simp add: bits_val_order)
  have "digit bs = digit cs \<longleftrightarrow> bits_val bs = bits_val cs"
    using mono lt unfolding digit_def by (metis linorder_neqE_nat order_less_irrefl)
  then show "digit bs = digit cs \<longleftrightarrow> bs = cs"
    using bits_val_order [of bs cs] bits_val_order [of cs bs] assms by auto
qed

lemma groups5_order:
  "length bs = length cs \<Longrightarrow> map digit (groups5 bs) < map digit (groups5 cs) \<longleftrightarrow> bs < cs"
proof (induction bs arbitrary: cs rule: groups5.induct)
  case (1 bs)
  show ?case
  proof (cases "bs = []")
    case True
    with 1 show ?thesis by (simp add: groups5.simps)
  next
    case False
    let ?g = "\<lambda>xs. take 5 (xs @ replicate 4 False)"
    from False "1.prems" have cs: "cs \<noteq> []" by auto
    have len: "length (?g bs) = 5" "length (?g cs) = 5"
      using False cs by (auto simp flip: length_greater_0_conv)
    have rest: "map digit (groups5 (drop 5 bs)) < map digit (groups5 (drop 5 cs)) \<longleftrightarrow> drop 5 bs < drop 5 cs"
      using "1.IH" [OF False, of "drop 5 cs"] "1.prems" by simp
    have split: "bs < cs \<longleftrightarrow> take 5 bs < take 5 cs \<or> take 5 bs = take 5 cs \<and> drop 5 bs < drop 5 cs"
      using lex_append [of "take 5 bs" "take 5 cs" "drop 5 bs" "drop 5 cs"] "1.prems" by simp
    have pad: "take n (xs @ z) = take n xs @ take (n - length xs) z" for n and xs z :: "bool list" by simp
    have "?g bs < ?g cs \<longleftrightarrow> take 5 bs < take 5 cs" "?g bs = ?g cs \<longleftrightarrow> take 5 bs = take 5 cs"
      using "1.prems" lex_append [of "take 5 bs" "take 5 cs"] by (simp_all add: pad)
    then show ?thesis
      using False cs rest split digit_order [OF len] by (simp add: groups5.simps [of bs] groups5.simps [of cs])
  qed
qed

text \<open>
  The encoder is base32hex of RFC 4648 (bits in order, groups of five, the last one filled with
  zeros, no padding characters), and on hashes of one length it keeps their order, so the walk over
  sorted labels is a walk over sorted hashes.
\<close>

theorem base32hex_rfc4648:
  "base32hex_encode a = base32hex_ref a \<and>
   (length a = length b \<longrightarrow> (base32hex_encode a < base32hex_encode b) = (a < b))"
proof -
  have "length (concat (map byte_bits xs)) = 8 * length xs" for xs by (induction xs) auto
  then show ?thesis
    by (auto simp: base32hex_is_ref base32hex_ref_def groups5_order bytes_order)
qed

lemma base32hex_rfc4648_witness:
  "base32hex_encode [0x66, 0x6f] = base32hex_ref [0x66, 0x6f] \<and> base32hex_encode [0, 9] < base32hex_encode [1, 2]"
  using base32hex_rfc4648 [of "[0x66, 0x6f]" "[0, 0]", THEN conjunct1]
    base32hex_rfc4648 [of "[0, 9]" "[1, 2]", THEN conjunct2]
  by simp

end
