(* ===== verification/ZoneManager.thy ===== *)
theory ZoneManager
  imports Cache Nsec "HOL-Library.AList"
begin

text \<open>
  \<open>src/src/zone_manager.rs\<close>: the set of served zones, their versions and the bounded history of
  deltas behind incremental transfers.  The maps are association lists updated in place, so their
  order is the iteration order of the hash maps.  Parsing the zone file and signing are the
  argument \<open>read_zone\<close> of the load operations: \<open>Inl\<close> is the I/O error of \<open>load_file\<close>.

  \<open>version_log\<close> is the interface between a source of versions and the history kept of them; the
  chain of deltas is shown inside it to lead from any retained version to the latest.
\<close>

section \<open>ZoneDelta and build_delta\<close>

record zone_delta =
  from_serial :: u32
  to_serial :: u32
  from_soa :: rr
  to_soa :: rr
  d_removed :: "rr list"
  d_added :: "rr list"

definition soa_serial :: "u8 list \<Rightarrow> u32 option" where
  "soa_serial rdat =
     (case p_name rdat 0 of Inl _ \<Rightarrow> None | Inr (_, e1) \<Rightarrow>
       (case p_name rdat e1 of Inl _ \<Rightarrow> None | Inr (_, e2) \<Rightarrow>
         (case p_u32 rdat e2 of Inl _ \<Rightarrow> None | Inr (serial, _) \<Rightarrow> Some serial)))"

text \<open>\<open>first().cloned()\<close> of the SOA rrset.\<close>

definition first_soa :: "zone \<Rightarrow> rr option" where
  "first_soa z = (case zone_soa z of Some (s # _) \<Rightarrow> Some s | _ \<Rightarrow> None)"

text \<open>The records a delta can carry, and what it compares of them: the TTL is not part of it.\<close>

definition non_soa :: "zone \<Rightarrow> rr list" where
  "non_soa z = filter (\<lambda>r. r_type r \<noteq> SOA) (concat (iter_rrsets z))"

definition rr_ident :: "rr \<Rightarrow> string \<times> u16 \<times> u8 list" where
  "rr_ident r = (to_lower (r_name r), rtype_to (r_type r), r_rdata r)"

definition build_delta :: "zone \<Rightarrow> zone \<Rightarrow> zone_delta option" where
  "build_delta old new =
     (case first_soa old of None \<Rightarrow> None | Some old_soa \<Rightarrow>
     (case first_soa new of None \<Rightarrow> None | Some new_soa \<Rightarrow>
     (case soa_serial (r_rdata old_soa) of None \<Rightarrow> None | Some f \<Rightarrow>
     (case soa_serial (r_rdata new_soa) of None \<Rightarrow> None | Some t \<Rightarrow>
       (let old_set = rr_ident ` set (non_soa old); new_set = rr_ident ` set (non_soa new)
        in Some \<lparr>from_serial = f, to_serial = t, from_soa = old_soa, to_soa = new_soa,
                 d_removed = filter (\<lambda>r. rr_ident r \<notin> new_set) (non_soa old),
                 d_added = filter (\<lambda>r. rr_ident r \<notin> old_set) (non_soa new)\<rparr>)))))"

lemma soa_serial_b_soa:
  assumes "wf_name m" "wf_name r"
  shows "soa_serial (b_soa m r serial refresh retry expire minimum) = Some serial"
proof -
  define buf where "buf = b_soa m r serial refresh retry expire minimum"
  have "holds_at buf 0 (b_soa m r serial refresh retry expire minimum)" by (simp add: buf_def)
  then have h: "holds_at buf 0 (b_name m)" "holds_at buf (length (b_name m)) (b_name r)"
    "holds_at buf (length (b_name m) + length (b_name r)) (be32 serial)"
    by (simp_all add: b_soa_def)
  have "soa_serial buf = Some serial"
    using cname.dec_enc [OF assms(1) h(1)] cname.dec_enc [OF assms(2) h(2)] readsD [OF p_u32_reads h(3)]
    by (simp add: soa_serial_def)
  then show ?thesis by (simp add: buf_def)
qed

section \<open>ZoneManager\<close>

record zone_manager =
  zm_zones :: "(string \<times> zone) list"
  zm_files :: "(string \<times> string) list"
  zm_versions :: "(string \<times> u32) list"
  zm_history :: "(string \<times> zone_delta list) list"
  zm_history_cap :: nat

definition zm_new :: zone_manager where
  "zm_new = \<lparr>zm_zones = [], zm_files = [], zm_versions = [], zm_history = [], zm_history_cap = 32\<rparr>"

text \<open>\<open>queue.push_back(delta); while queue.len() > cap { queue.pop_front(); }\<close>\<close>

definition push_capped :: "nat \<Rightarrow> 'a list \<Rightarrow> 'a \<Rightarrow> 'a list" where
  "push_capped cap queue d = (let q = queue @ [d] in drop (length q - cap) q)"

definition record_delta :: "string \<Rightarrow> zone \<Rightarrow> zone \<Rightarrow> zone_manager \<Rightarrow> zone_manager" where
  "record_delta origin old new zm =
     (case build_delta old new of
        None \<Rightarrow> zm
      | Some delta \<Rightarrow>
          if from_serial delta \<noteq> to_serial delta
          then zm\<lparr>zm_history := AList.update origin
                 (push_capped (zm_history_cap zm)
                   (case map_of (zm_history zm) origin of None \<Rightarrow> [] | Some q \<Rightarrow> q) delta)
                 (zm_history zm)\<rparr>
          else zm)"

definition get_version :: "zone_manager \<Rightarrow> string \<Rightarrow> u32" where
  "get_version zm origin = (case map_of (zm_versions zm) origin of None \<Rightarrow> 0 | Some v \<Rightarrow> v)"

definition get_zone :: "zone_manager \<Rightarrow> string \<Rightarrow> zone option" where
  "get_zone zm origin = map_of (zm_zones zm) origin"

definition get_zones :: "zone_manager \<Rightarrow> zone list" where
  "get_zones zm = map snd (zm_zones zm)"

text \<open>\<open>load_zone\<close> once the file has been read: history, file path, version, then the zone.\<close>

definition publish_zone :: "string \<Rightarrow> string \<Rightarrow> zone \<Rightarrow> zone_manager \<Rightarrow> zone_manager" where
  "publish_zone origin path new_zone zm =
     (let zm1 = (case get_zone zm origin of None \<Rightarrow> zm | Some old \<Rightarrow> record_delta origin old new_zone zm);
          zm2 = zm1\<lparr>zm_files := AList.update origin path (zm_files zm1)\<rparr>;
          zm3 = zm2\<lparr>zm_versions := AList.update origin (get_version zm2 origin + 1) (zm_versions zm2)\<rparr>
      in zm3\<lparr>zm_zones := AList.update origin new_zone (zm_zones zm3)\<rparr>)"

definition load_zone :: "(string \<Rightarrow> string \<Rightarrow> 'e + zone) \<Rightarrow> string \<Rightarrow> string \<Rightarrow> zone_manager \<Rightarrow>
    ('e + unit) \<times> zone_manager" where
  "load_zone read_zone origin path zm =
     (case read_zone origin path of
        Inl e \<Rightarrow> (Inl e, zm)
      | Inr z \<Rightarrow> (Inr (), publish_zone origin path z zm))"

definition reload_all :: "(string \<Rightarrow> string \<Rightarrow> 'e + zone) \<Rightarrow> zone_manager \<Rightarrow> nat \<times> zone_manager" where
  "reload_all read_zone zm =
     fold (\<lambda>(origin, path) (count, zm).
             case load_zone read_zone origin path zm of
               (Inr _, zm') \<Rightarrow> (count + 1, zm')
             | (Inl _, zm') \<Rightarrow> (count, zm'))
          (zm_files zm) (0, zm)"

text \<open>\<open>ixfr_chain\<close>: from the earliest delta that starts at the serial, through contiguous links.\<close>

fun walk_links :: "u32 \<Rightarrow> zone_delta list \<Rightarrow> zone_delta list option" where
  "walk_links expected [] = Some []"
| "walk_links expected (d # ds) =
     (if from_serial d \<noteq> expected then None
      else map_option ((#) d) (walk_links (to_serial d) ds))"

definition ixfr_chain :: "zone_manager \<Rightarrow> string \<Rightarrow> u32 \<Rightarrow> zone_delta list option" where
  "ixfr_chain zm origin serial =
     (case map_of (zm_history zm) origin of None \<Rightarrow> None | Some queue \<Rightarrow>
       (case dropWhile (\<lambda>d. from_serial d \<noteq> serial) queue of
          [] \<Rightarrow> None
        | d # ds \<Rightarrow> map_option ((#) d) (walk_links (to_serial d) ds)))"

section \<open>What a delta says\<close>

text \<open>A secondary's copy, as the set of record identities, after a delta and after a chain.\<close>

definition apply_delta :: "zone_delta \<Rightarrow> (string \<times> u16 \<times> u8 list) set \<Rightarrow> (string \<times> u16 \<times> u8 list) set" where
  "apply_delta d S = (S - rr_ident ` set (d_removed d)) \<union> rr_ident ` set (d_added d)"

definition contents :: "zone \<Rightarrow> (string \<times> u16 \<times> u8 list) set" where
  "contents z = rr_ident ` set (non_soa z)"

lemma build_delta_apply:
  "build_delta old new = Some d \<Longrightarrow> apply_delta d (contents old) = contents new"
  by (auto simp: build_delta_def apply_delta_def contents_def Let_def split: option.splits)

lemma build_delta_serials:
  "build_delta old new = Some d \<Longrightarrow>
    first_soa old = Some (from_soa d) \<and> first_soa new = Some (to_soa d) \<and>
    soa_serial (r_rdata (from_soa d)) = Some (from_serial d) \<and>
    soa_serial (r_rdata (to_soa d)) = Some (to_serial d)"
  by (auto simp: build_delta_def Let_def split: option.splits)

section \<open>Histories of versions\<close>

text \<open>
  A version has a serial and contents (\<open>state\<close>), and \<open>diff\<close> describes the step between two
  versions by its end serials (\<open>src\<close>, \<open>dst\<close>) and its effect on the contents (\<open>act\<close>).
\<close>

locale version_log =
  fixes state :: "'v \<Rightarrow> ('n \<times> 's) option"
    and diff :: "'v \<Rightarrow> 'v \<Rightarrow> 'd option"
    and src dst :: "'d \<Rightarrow> 'n"
    and act :: "'d \<Rightarrow> 's \<Rightarrow> 's"
  assumes diff_defined: "state a = Some x \<Longrightarrow> state b = Some y \<Longrightarrow> diff a b \<noteq> None"
    and diff_correct: "diff a b = Some d \<Longrightarrow> state a = Some x \<Longrightarrow> state b = Some y \<Longrightarrow>
      src d = fst x \<and> dst d = fst y \<and> act d (snd x) = snd y"
begin

definition extend :: "nat \<Rightarrow> 'd list \<Rightarrow> 'v \<Rightarrow> 'v \<Rightarrow> 'd list" where
  "extend cap q a b =
     (case diff a b of None \<Rightarrow> q | Some d \<Rightarrow> if src d \<noteq> dst d then push_capped cap q d else q)"

fun log_from :: "nat \<Rightarrow> 'd list \<Rightarrow> 'v \<Rightarrow> 'v list \<Rightarrow> 'd list" where
  "log_from cap q a [] = q"
| "log_from cap q a (b # vs) = log_from cap (extend cap q a b) b vs"

lemma log_from_snoc: "log_from cap q a (vs @ [b]) = extend cap (log_from cap q a vs) (last (a # vs)) b"
  by (induction vs arbitrary: q a) auto

lemma length_log_from: "length q \<le> cap \<Longrightarrow> length (log_from cap q a vs) \<le> cap"
  by (induction vs arbitrary: q a) (auto simp: extend_def push_capped_def Let_def split: option.splits)

fun linked :: "('n \<times> 's) list \<Rightarrow> 'd list \<Rightarrow> bool" where
  "linked [x] [] = True"
| "linked (x # y # xs) (d # ds) \<longleftrightarrow>
     src d = fst x \<and> dst d = fst y \<and> act d (snd x) = snd y \<and> linked (y # xs) ds"
| "linked _ _ = False"

lemma linked_snoc:
  "linked xs ds \<Longrightarrow> src d = fst (last xs) \<Longrightarrow> dst d = fst y \<Longrightarrow> act d (snd (last xs)) = snd y \<Longrightarrow>
    linked (xs @ [y]) (ds @ [d])"
  by (induction xs ds rule: linked.induct) auto

lemma linked_drop:
  "linked xs ds \<Longrightarrow> n \<le> length ds \<Longrightarrow> linked (drop n xs) (drop n ds) \<and> last (drop n xs) = last xs"
proof (induction xs ds arbitrary: n rule: linked.induct)
  case (2 x y xs d ds)
  then show ?case by (cases n) auto
qed auto

lemma linked_fold:
  "linked (x # xs) ds \<Longrightarrow> fold act ds (snd x) = snd (last (x # xs)) \<and>
    (ds \<noteq> [] \<longrightarrow> dst (last ds) = fst (last (x # xs)))"
proof (induction ds arbitrary: x xs)
  case Nil
  then show ?case by (cases xs) auto
next
  case (Cons d ds)
  then obtain y ys where xs: "xs = y # ys" by (cases xs) auto
  with Cons have "fold act ds (snd y) = snd (last (y # ys)) \<and>
    (ds \<noteq> [] \<longrightarrow> dst (last ds) = fst (last (y # ys)))" by auto
  moreover have "ds = [] \<Longrightarrow> ys = []" using Cons.prems xs by (cases ys) auto
  ultimately show ?case using Cons.prems xs by (cases "ds = []") auto
qed

lemma linked_extend:
  assumes "linked xs q" "state a = Some (last xs)" "state b = Some y" "cap > 0"
    and "fst (last xs) = fst y \<Longrightarrow> snd (last xs) = snd y"
  shows "\<exists>ys. linked ys (extend cap q a b) \<and> last ys = y \<and> set ys \<subseteq> insert y (set xs)"
proof -
  obtain d where d: "diff a b = Some d" using diff_defined [OF assms(2,3)] by blast
  note step = diff_correct [OF d assms(2,3)]
  show ?thesis
  proof (cases "src d = dst d")
    case True
    with step have "fst (last xs) = fst y" by metis
    with assms(5) have "last xs = y" by (intro prod_eqI)
    with True d assms(1) show ?thesis by (auto simp: extend_def)
  next
    case False
    have l: "linked (xs @ [y]) (q @ [d])" using linked_snoc [OF assms(1)] step by simp
    let ?n = "length (q @ [d]) - cap"
    have "linked (drop ?n (xs @ [y])) (drop ?n (q @ [d]))"
        "last (drop ?n (xs @ [y])) = last (xs @ [y])"
      using linked_drop [OF l, of ?n] by auto
    moreover have "set (drop ?n (xs @ [y])) \<subseteq> insert y (set xs)"
      by (rule order_trans [OF set_drop_subset]) auto
    ultimately show ?thesis
      using False d by (intro exI [of _ "drop ?n (xs @ [y])"])
        (simp add: extend_def push_capped_def Let_def)
  qed
qed

text \<open>A serial is never reused for other contents.\<close>

definition disciplined :: "'v list \<Rightarrow> bool" where
  "disciplined vs \<longleftrightarrow> (\<forall>v\<in>set vs. state v \<noteq> None) \<and>
     (\<forall>v\<in>set vs. \<forall>w\<in>set vs. \<forall>x y. state v = Some x \<longrightarrow> state w = Some y \<longrightarrow> fst x = fst y \<longrightarrow>
        snd x = snd y)"

lemma disciplinedD:
  "disciplined vs \<Longrightarrow> v \<in> set vs \<Longrightarrow> w \<in> set vs \<Longrightarrow> state v = Some x \<Longrightarrow> state w = Some y \<Longrightarrow>
    fst x = fst y \<Longrightarrow> snd x = snd y"
  unfolding disciplined_def by blast

lemma linked_log:
  assumes "linked xs q" "state a = Some (last xs)" "cap > 0"
    "set xs \<subseteq> {x. \<exists>v\<in>set us. state v = Some x}" "disciplined (us @ vs)" "a \<in> set us"
  shows "\<exists>ys. linked ys (log_from cap q a vs) \<and> state (last (a # vs)) = Some (last ys) \<and>
    set ys \<subseteq> {x. \<exists>v\<in>set (us @ vs). state v = Some x}"
  using assms
proof (induction vs arbitrary: xs q a us)
  case (Cons b vs)
  obtain y where y: "state b = Some y"
    using Cons.prems(5) by (auto simp: disciplined_def)
  have "fst (last xs) = fst y \<Longrightarrow> snd (last xs) = snd y"
    using disciplinedD [OF Cons.prems(5) _ _ Cons.prems(2) y] Cons.prems(6) by simp
  then obtain ys where ys: "linked ys (extend cap q a b)" "last ys = y" "set ys \<subseteq> insert y (set xs)"
    using linked_extend [OF Cons.prems(1,2) y Cons.prems(3)] by blast
  have "set ys \<subseteq> {x. \<exists>v\<in>set (us @ [b]). state v = Some x}"
    using ys(3) Cons.prems(4) y by auto
  moreover have "disciplined ((us @ [b]) @ vs)" "b \<in> set (us @ [b])" "state b = Some (last ys)"
    using Cons.prems(5) y ys(2) by simp_all
  ultimately obtain zs where "linked zs (log_from cap (extend cap q a b) b vs)"
      "state (last (b # vs)) = Some (last zs)" "set zs \<subseteq> {x. \<exists>v\<in>set ((us @ [b]) @ vs). state v = Some x}"
    using Cons.IH [OF ys(1) _ Cons.prems(3)] by meson
  then show ?case by (intro exI [of _ zs]) simp
qed (intro exI, auto)

lemma linked_from:
  "linked xs q \<Longrightarrow> dropWhile (\<lambda>d. src d \<noteq> n) q = d # ds \<Longrightarrow>
    \<exists>x zs. linked (x # zs) (d # ds) \<and> fst x = n \<and> last (x # zs) = last xs \<and> x \<in> set xs"
proof (induction xs q rule: linked.induct)
  case (2 x y xs d' ds')
  show ?case
  proof (cases "src d' = n")
    case True
    with "2.prems" have "d # ds = d' # ds'" "fst x = n" by simp_all
    with "2.prems"(1) show ?thesis by (intro exI [of _ x] exI [of _ "y # xs"]) simp
  next
    case False
    with "2.prems" have "linked (y # xs) ds'" "dropWhile (\<lambda>d. src d \<noteq> n) ds' = d # ds" by simp_all
    then obtain z zs where "linked (z # zs) (d # ds)" "fst z = n" "last (z # zs) = last (y # xs)"
        "z \<in> set (y # xs)" using "2.IH" by blast
    then show ?thesis by (intro exI [of _ z] exI [of _ zs]) simp
  qed
qed simp_all

text \<open>The first retained delta that starts at a serial begins a run to the latest version.\<close>

lemma log_run:
  assumes "disciplined (a # vs)" "cap > 0" "v \<in> set (a # vs)" "state v = Some (n, s)"
    and "dropWhile (\<lambda>d. src d \<noteq> n) (log_from cap [] a vs) = d # ds"
  shows "\<exists>zs. linked ((n, s) # zs) (d # ds) \<and> state (last (a # vs)) = Some (last ((n, s) # zs))"
proof -
  obtain x where x: "state a = Some x"
    using assms(1) unfolding disciplined_def by (metis list.set_intros(1) not_Some_eq)
  have "\<exists>ys. linked ys (log_from cap [] a vs) \<and> state (last (a # vs)) = Some (last ys) \<and>
      set ys \<subseteq> {x. \<exists>v\<in>set ([a] @ vs). state v = Some x}"
    by (rule linked_log [of "[x]"]) (use assms(1,2) x in auto)
  then obtain ys where ys: "linked ys (log_from cap [] a vs)" "state (last (a # vs)) = Some (last ys)"
      "set ys \<subseteq> {x. \<exists>v\<in>set (a # vs). state v = Some x}" by auto
  obtain y zs where y: "linked (y # zs) (d # ds)" "fst y = n" "last (y # zs) = last ys" "y \<in> set ys"
    using linked_from [OF ys(1) assms(5)] by blast
  then obtain w where "w \<in> set (a # vs)" "state w = Some y" using ys(3) by blast
  then have "snd y = s" using disciplinedD [OF assms(1) _ assms(3) _ assms(4)] y(2) by simp
  with y ys show ?thesis by (intro exI [of _ zs]) (metis prod.collapse)
qed

end

section \<open>The manager keeps such a history per zone\<close>

definition zone_state :: "zone \<Rightarrow> (u32 \<times> (string \<times> u16 \<times> u8 list) set) option" where
  "zone_state z =
     (case first_soa z of None \<Rightarrow> None
      | Some soa \<Rightarrow> map_option (\<lambda>n. (n, contents z)) (soa_serial (r_rdata soa)))"

interpretation hist: version_log zone_state build_delta from_serial to_serial apply_delta
proof unfold_locales
  fix a b x y d
  assume ab: "zone_state a = Some x" "zone_state b = Some y"
  then show "build_delta a b \<noteq> None"
    by (auto simp: zone_state_def build_delta_def Let_def split: option.splits)
  assume d: "build_delta a b = Some d"
  with ab show "from_serial d = fst x \<and> to_serial d = fst y \<and> apply_delta d (snd x) = snd y"
    using build_delta_serials [OF d] build_delta_apply [OF d]
    by (auto simp: zone_state_def split: option.splits)
qed

lemma walk_links_linked: "hist.linked (x # zs) ds \<Longrightarrow> walk_links (fst x) ds = Some ds"
proof (induction ds arbitrary: x zs)
  case (Cons d ds)
  then obtain y ys where y: "zs = y # ys" by (cases zs) auto
  with Cons.prems have "hist.linked (y # ys) ds" "to_serial d = fst y" "from_serial d = fst x" by auto
  then show ?case using Cons.IH [of y ys] by simp
qed simp

type_synonym zone_load = "string \<times> string \<times> zone"

definition publish_all :: "zone_load list \<Rightarrow> zone_manager \<Rightarrow> zone_manager" where
  "publish_all loads zm = fold (\<lambda>(origin, path, z). publish_zone origin path z) loads zm"

definition versions_of :: "string \<Rightarrow> zone_load list \<Rightarrow> zone list" where
  "versions_of origin loads = map (snd \<circ> snd) (filter (\<lambda>l. fst l = origin) loads)"

definition history_of :: "zone_manager \<Rightarrow> string \<Rightarrow> zone_delta list" where
  "history_of zm origin = (case map_of (zm_history zm) origin of None \<Rightarrow> [] | Some q \<Rightarrow> q)"

lemma history_record_delta:
  "history_of (record_delta origin old new zm) o1 =
    (if o1 = origin then hist.extend (zm_history_cap zm) (history_of zm o1) old new
     else history_of zm o1)"
  by (auto simp: record_delta_def history_of_def hist.extend_def update_conv' split: option.splits)

lemma record_delta_fields [simp]:
  "zm_zones (record_delta origin old new zm) = zm_zones zm"
  "zm_files (record_delta origin old new zm) = zm_files zm"
  "zm_versions (record_delta origin old new zm) = zm_versions zm"
  "zm_history_cap (record_delta origin old new zm) = zm_history_cap zm"
  by (auto simp: record_delta_def split: option.splits)

lemma publish_zone_effects:
  "get_zone (publish_zone origin path z zm) o1 = (if o1 = origin then Some z else get_zone zm o1)"
  "zm_history_cap (publish_zone origin path z zm) = zm_history_cap zm"
  "get_version (publish_zone origin path z zm) o1 =
    (if o1 = origin then get_version zm o1 + 1 else get_version zm o1)"
  "history_of (publish_zone origin path z zm) o1 =
    (case get_zone zm origin of
       None \<Rightarrow> history_of zm o1
     | Some old \<Rightarrow> history_of (record_delta origin old z zm) o1)"
  by (auto simp: publish_zone_def get_zone_def get_version_def history_of_def Let_def update_conv'
      split: option.splits)

lemma publish_all_snoc:
  "publish_all (loads @ [(origin, path, z)]) zm = publish_zone origin path z (publish_all loads zm)"
  by (simp add: publish_all_def)

lemma publish_all_cap [simp]: "zm_history_cap (publish_all loads zm_new) = 32"
  by (induction loads rule: rev_induct)
    (auto simp: publish_all_snoc publish_zone_effects(2), simp add: publish_all_def zm_new_def)

lemma publish_all_history:
  "case versions_of origin loads of
     [] \<Rightarrow> get_zone (publish_all loads zm_new) origin = None \<and>
           history_of (publish_all loads zm_new) origin = []
   | a # vs \<Rightarrow> get_zone (publish_all loads zm_new) origin = Some (last (a # vs)) \<and>
           history_of (publish_all loads zm_new) origin = hist.log_from 32 [] a vs"
proof (induction loads rule: rev_induct)
  case Nil
  show ?case by (simp add: versions_of_def publish_all_def zm_new_def get_zone_def history_of_def)
next
  case (snoc l loads)
  obtain o1 p z where l: "l = (o1, p, z)" by (cases l)
  have vs: "versions_of origin (loads @ [l]) =
      (if o1 = origin then versions_of origin loads @ [z] else versions_of origin loads)"
    by (simp add: versions_of_def l)
  have pub: "publish_all (loads @ [l]) zm_new = publish_zone o1 p z (publish_all loads zm_new)"
    by (simp add: l publish_all_snoc)
  show ?case
  proof (cases "versions_of origin loads")
    case Nil
    with snoc.IH show ?thesis unfolding vs pub
      by (auto simp: publish_zone_effects history_record_delta split: option.splits)
  next
    case (Cons a as)
    with snoc.IH show ?thesis unfolding vs pub
      by (auto simp: publish_zone_effects history_record_delta hist.log_from_snoc
          split: option.splits)
  qed
qed

text \<open>
  Operators must never reuse a serial for other contents; then a serial a secondary reports tells
  what it holds.
\<close>

definition serials_identify :: "zone list \<Rightarrow> bool" where
  "serials_identify vs \<longleftrightarrow> (\<forall>v\<in>set vs. zone_state v \<noteq> None) \<and>
     (\<forall>v\<in>set vs. \<forall>w\<in>set vs. map_option fst (zone_state v) = map_option fst (zone_state w) \<longrightarrow>
        contents v = contents w)"

lemma zone_state_contents: "zone_state v = Some x \<Longrightarrow> snd x = contents v"
  by (auto simp: zone_state_def split: option.splits)

lemma serials_identify_disciplined: "serials_identify vs \<Longrightarrow> hist.disciplined vs"
proof -
  assume *: "serials_identify vs"
  have "snd x = snd y" if "v \<in> set vs" "w \<in> set vs" "zone_state v = Some x" "zone_state w = Some y"
    "fst x = fst y" for v w x y
    using * that zone_state_contents unfolding serials_identify_def by (metis option.map(2))
  with * show "hist.disciplined vs"
    unfolding hist.disciplined_def serials_identify_def by blast
qed


definition soa_rr :: "u32 \<Rightarrow> rr" where
  "soa_rr n = \<lparr>r_name = ''e'', r_type = SOA, r_class = 1, r_ttl = 60,
     r_rdata = b_soa ''ns.e'' ''h.e'' n 7200 900 604800 300\<rparr>"

definition version_zone :: "u32 \<Rightarrow> string list \<Rightarrow> zone" where
  "version_zone n hosts = zone_of ''e'' (soa_rr n # map (\<lambda>h. sample_rr h A) hosts)"

lemma first_soa_version: "first_soa (version_zone n hosts) = Some (soa_rr n)"
proof -
  have "z_origin (version_zone n hosts) = ''e''"
    by (simp add: version_zone_def trim_end_dots_def lower_eval)
  moreover have "filter (\<lambda>r. rr_key r = (''e'', 6)) (map (\<lambda>h. sample_rr h A) hosts) = []"
    by (simp add: filter_empty_conv rr_key_def sample_rr_def)
  ultimately show ?thesis
    by (simp add: first_soa_def zone_soa_def version_zone_def zone_lookup_zone_of Let_def)
      (simp add: rr_key_def soa_rr_def lower_eval)
qed

lemma version_state: "zone_state (version_zone n hosts) = Some (n, contents (version_zone n hosts))"
  by (simp add: zone_state_def first_soa_version)
    (simp add: soa_rr_def soa_serial_b_soa wf_name_def wf_label_def to_lower_def ascii_lower_def
      byte_of_char_def)


text \<open>A change of TTLs alone is not a difference: \<^const>\<open>rr_ident\<close> ignores it.\<close>

definition ttl_zone :: "u32 \<Rightarrow> u32 \<Rightarrow> zone" where
  "ttl_zone n ttl = zone_of ''e'' [soa_rr n, (sample_rr ''a.e'' A)\<lparr>r_ttl := ttl\<rparr>]"

lemma non_soa_ttl_zone: "non_soa (ttl_zone n ttl) = [(sample_rr ''a.e'' A)\<lparr>r_ttl := ttl\<rparr>]"
proof -
  have "rr_key (soa_rr n) = (''e'', 6)" "r_type (soa_rr n) = SOA"
    by (simp_all add: rr_key_def soa_rr_def lower_eval)
  moreover have "rr_key ((sample_rr ''a.e'' A)\<lparr>r_ttl := ttl\<rparr>) = (''a.e'', 1)"
      "r_type ((sample_rr ''a.e'' A)\<lparr>r_ttl := ttl\<rparr>) = A"
    by (simp_all add: rr_key_def sample_rr_def lower_eval)
  ultimately show ?thesis
    by (simp add: non_soa_def iter_rrsets_def ttl_zone_def zone_of_def zone_add_def zone_new_def)
qed

lemma first_soa_ttl_zone: "first_soa (ttl_zone n ttl) = Some (soa_rr n)"
proof -
  have "z_origin (ttl_zone n ttl) = ''e''" by (simp add: ttl_zone_def trim_end_dots_def lower_eval)
  then show ?thesis
    by (simp add: first_soa_def zone_soa_def ttl_zone_def zone_lookup_zone_of Let_def)
      (simp add: rr_key_def soa_rr_def sample_rr_def lower_eval)
qed

text \<open>
  A reload that changes nothing but TTLs and bumps the serial is recorded as an empty delta:
  a secondary that follows the incremental transfer keeps the old TTLs under the new serial,
  although the zone now answers with other ones.
\<close>

theorem ttl_change_is_empty_delta:
  "build_delta (ttl_zone 1 60) (ttl_zone 2 120) =
     Some \<lparr>from_serial = 1, to_serial = 2, from_soa = soa_rr 1, to_soa = soa_rr 2,
           d_removed = [], d_added = []\<rparr> \<and>
   zone_lookup (ttl_zone 1 60) ''a.e'' A \<noteq> zone_lookup (ttl_zone 2 120) ''a.e'' A"
proof
  have serial: "soa_serial (r_rdata (soa_rr n)) = Some n" for n
    by (simp add: soa_rr_def soa_serial_b_soa wf_name_def wf_label_def to_lower_def ascii_lower_def
        byte_of_char_def)
  show "build_delta (ttl_zone 1 60) (ttl_zone 2 120) =
     Some \<lparr>from_serial = 1, to_serial = 2, from_soa = soa_rr 1, to_soa = soa_rr 2,
           d_removed = [], d_added = []\<rparr>"
    by (simp add: build_delta_def first_soa_ttl_zone non_soa_ttl_zone serial)
      (simp add: rr_ident_def sample_rr_def)
  show "zone_lookup (ttl_zone 1 60) ''a.e'' A \<noteq> zone_lookup (ttl_zone 2 120) ''a.e'' A"
    by (simp add: ttl_zone_def zone_lookup_zone_of Let_def)
      (simp add: rr_key_def soa_rr_def sample_rr_def lower_eval)
qed

end
