(* ===== verification/ZoneTransfer.thy ===== *)
theory ZoneTransfer
  imports ZoneManager "HOL-Library.Product_Lexorder"
begin

text \<open>
  \<open>src/src/axfr.rs\<close>: full and incremental zone transfers as lists of serialized messages.  The
  properties read the messages back with \<^const>\<open>parse\<close>, as a secondary does.
\<close>

section \<open>axfr_stream\<close>

definition MAX_RRS_PER_MSG :: nat where "MAX_RRS_PER_MSG = 64"

definition axfr_msg :: "packet \<Rightarrow> rr list \<Rightarrow> packet" where
  "axfr_msg req answers =
     (set_aa ((new_response (p_id req) (p_flags req))\<lparr>p_questions := p_questions req\<rparr>))\<lparr>p_answers := answers\<rparr>"

definition build_axfr_msg :: "packet \<Rightarrow> rr list \<Rightarrow> u8 list" where
  "build_axfr_msg req answers = serialize (axfr_msg req answers) False"

text \<open>The body in the order of \<open>sort_by\<close>: owner name bytes, then type number, stable.\<close>

definition axfr_body :: "zone \<Rightarrow> rr list" where
  "axfr_body z = sort_key (\<lambda>r. (r_name r, rtype_to (r_type r))) (non_soa z)"

text \<open>The packing loop: \<open>current\<close> is flushed when it holds 64 records.\<close>

fun pack_rrs :: "rr list \<Rightarrow> rr list \<Rightarrow> rr list list \<times> rr list" where
  "pack_rrs current [] = ([], current)"
| "pack_rrs current (rr # body) =
     (if length current \<ge> MAX_RRS_PER_MSG
      then (case pack_rrs [rr] body of (ms, c) \<Rightarrow> (current # ms, c))
      else pack_rrs (current @ [rr]) body)"

definition axfr_groups :: "rr \<Rightarrow> rr list \<Rightarrow> rr list list" where
  "axfr_groups soa body =
     (case pack_rrs [soa] body of (ms, current) \<Rightarrow>
        if length current \<ge> MAX_RRS_PER_MSG then ms @ [current, [soa]] else ms @ [current @ [soa]])"

definition axfr_stream :: "packet \<Rightarrow> zone \<Rightarrow> u8 list list" where
  "axfr_stream req z =
     (case first_soa z of None \<Rightarrow> []
      | Some soa \<Rightarrow> map (build_axfr_msg req) (axfr_groups soa (axfr_body z)))"

section \<open>ixfr_stream\<close>

text \<open>\<open>slice::chunks\<close>\<close>

fun chunks :: "nat \<Rightarrow> 'a list \<Rightarrow> 'a list list" where
  "chunks n xs = (if n = 0 \<or> xs = [] then [] else take n xs # chunks n (drop n xs))"

declare chunks.simps [simp del]

definition delta_rrs :: "zone_delta \<Rightarrow> rr list" where
  "delta_rrs d = [from_soa d] @ d_removed d @ [to_soa d] @ d_added d"

definition ixfr_rrs :: "rr \<Rightarrow> zone_delta list \<Rightarrow> rr list" where
  "ixfr_rrs our_soa deltas = [our_soa] @ concat (map delta_rrs deltas) @ [our_soa]"

definition ixfr_stream :: "packet \<Rightarrow> zone \<Rightarrow> u32 \<Rightarrow> zone_delta list option \<Rightarrow> u8 list list" where
  "ixfr_stream req z requester_serial history =
     (case first_soa z of None \<Rightarrow> []
      | Some our_soa \<Rightarrow>
          (let our_serial = (case soa_serial (r_rdata our_soa) of Some n \<Rightarrow> n | None \<Rightarrow> 0) in
           if our_serial = requester_serial then [build_axfr_msg req [our_soa]]
           else case history of
                  Some deltas \<Rightarrow>
                    if deltas \<noteq> [] \<and> to_serial (last deltas) = our_serial
                    then map (build_axfr_msg req) (chunks MAX_RRS_PER_MSG (ixfr_rrs our_soa deltas))
                    else axfr_stream req z
                | None \<Rightarrow> axfr_stream req z))"

section \<open>Packing\<close>

lemma pack_rrs_concat:
  "pack_rrs current body = (ms, c) \<Longrightarrow> concat ms @ c = current @ body"
  by (induction current body arbitrary: ms c rule: pack_rrs.induct)
    (auto split: if_splits prod.splits)

lemma pack_rrs_sizes:
  "pack_rrs current body = (ms, c) \<Longrightarrow> current \<noteq> [] \<Longrightarrow> length current \<le> MAX_RRS_PER_MSG \<Longrightarrow>
    (\<forall>m\<in>set (c # ms). m \<noteq> [] \<and> length m \<le> MAX_RRS_PER_MSG)"
  by (induction current body arbitrary: ms c rule: pack_rrs.induct)
    (auto simp: MAX_RRS_PER_MSG_def split: if_splits prod.splits)

lemma axfr_groups_concat: "concat (axfr_groups soa body) = soa # body @ [soa]"
  using pack_rrs_concat [of "[soa]" body] by (auto simp: axfr_groups_def split: prod.splits)

lemma axfr_groups_sizes:
  "m \<in> set (axfr_groups soa body) \<Longrightarrow> m \<noteq> [] \<and> length m \<le> MAX_RRS_PER_MSG"
proof -
  obtain ms c where p: "pack_rrs [soa] body = (ms, c)" by fastforce
  from pack_rrs_sizes [OF this] show "m \<in> set (axfr_groups soa body) \<Longrightarrow> ?thesis"
    by (auto simp: axfr_groups_def p MAX_RRS_PER_MSG_def split: if_splits)
qed

lemma chunks_concat: "n > 0 \<Longrightarrow> concat (chunks n xs) = xs"
  by (induction n xs rule: chunks.induct) (subst chunks.simps, auto)

lemma chunks_sizes: "m \<in> set (chunks n xs) \<Longrightarrow> m \<noteq> [] \<and> length m \<le> n"
  by (induction n xs rule: chunks.induct) (subst (asm) chunks.simps, auto split: if_splits)

section \<open>Reading a stream back\<close>

lemma rcode_cong: "p_flags p = p_flags q \<Longrightarrow> rcode p = rcode q"
  by (simp add: rcode_def)

lemma axfr_msg_fields [simp]:
  "p_id (axfr_msg req rs) = p_id req" "p_questions (axfr_msg req rs) = p_questions req"
  "p_answers (axfr_msg req rs) = rs" "p_authority (axfr_msg req rs) = []"
  "p_additional (axfr_msg req rs) = []" "edns_udp_size (axfr_msg req rs) = 0"
  "dnssec_ok (axfr_msg req rs) = False" "is_aa (axfr_msg req rs)" "is_response (axfr_msg req rs)"
  by (simp_all add: axfr_msg_def set_aa_def) (auto simp: flag_simps new_response_def)

lemma rcode_axfr_msg [simp]: "rcode (axfr_msg req rs) = 0"
proof -
  have "rcode (axfr_msg req rs) = rcode (set_aa (new_response (p_id req) (p_flags req)))"
    by (rule rcode_cong) (simp add: axfr_msg_def set_aa_def)
  then show ?thesis by simp
qed

definition transferable :: "packet \<Rightarrow> rr list \<Rightarrow> bool" where
  "transferable req rs \<longleftrightarrow> list_all wf_question (p_questions req) \<and>
     length (p_questions req) < 65536 \<and> list_all wf_record rs"

lemma parse_axfr_msgs:
  assumes "transferable req (concat ms)" "\<And>m. m \<in> set ms \<Longrightarrow> length m \<le> MAX_RRS_PER_MSG"
  shows "map parse (map (build_axfr_msg req) ms) = map (\<lambda>m. Inr (axfr_msg req m)) ms"
proof -
  have "parse (build_axfr_msg req m) = Inr (axfr_msg req m)" if m: "m \<in> set ms" for m
  proof -
    have "wf_packet (axfr_msg req m)"
      using assms m by (force simp: wf_packet_def transferable_def list_all_iff MAX_RRS_PER_MSG_def)
    moreover have "sent_packet (axfr_msg req m) False = axfr_msg req m"
      by (simp add: sent_packet_def with_opt_def)
    ultimately show ?thesis by (simp add: build_axfr_msg_def parse_of_serialize)
  qed
  then show ?thesis by simp
qed

lemma transferable_mono: "transferable req rs \<Longrightarrow> set rs' \<subseteq> set rs \<Longrightarrow> transferable req rs'"
  by (auto simp: transferable_def list_all_iff)

lemma mset_axfr_body: "mset (axfr_body z) = mset (non_soa z)"
  by (simp add: axfr_body_def)

text \<open>
  C16. A full transfer of a zone with an SOA is complete: the messages parse, carry the request's
  id, are authoritative NOERROR responses of 1 to 64 answers each, and their answers in sequence
  are the SOA, every other record of the zone exactly once, and the SOA again.
\<close>

theorem axfr_stream_complete:
  assumes soa: "first_soa z = Some soa" and wf: "transferable req (soa # non_soa z)"
  shows "\<exists>ps body. map parse (axfr_stream req z) = map Inr ps \<and>
    concat (map p_answers ps) = soa # body @ [soa] \<and> mset body = mset (non_soa z) \<and>
    (\<forall>p\<in>set ps. p_id p = p_id req \<and> p_questions p = p_questions req \<and> is_response p \<and> is_aa p \<and>
      rcode p = RCODE_NOERROR \<and> 1 \<le> length (p_answers p) \<and> length (p_answers p) \<le> 64)"
proof -
  let ?ms = "axfr_groups soa (axfr_body z)"
  have "set (axfr_body z) = set (non_soa z)" by (simp add: axfr_body_def)
  then have t: "transferable req (concat ?ms)"
    using wf by (intro transferable_mono [OF wf]) (auto simp: axfr_groups_concat)
  have sz: "m \<in> set ?ms \<Longrightarrow> m \<noteq> [] \<and> length m \<le> 64" for m
    using axfr_groups_sizes by (auto simp: MAX_RRS_PER_MSG_def)
  have "map parse (axfr_stream req z) = map Inr (map (axfr_msg req) ?ms)"
    using parse_axfr_msgs [OF t] sz by (simp add: axfr_stream_def soa MAX_RRS_PER_MSG_def)
  moreover have "concat (map p_answers (map (axfr_msg req) ?ms)) = soa # axfr_body z @ [soa]"
    by (simp add: comp_def axfr_groups_concat)
  ultimately show ?thesis
    using sz mset_axfr_body
    by (intro exI [of _ "map (axfr_msg req) ?ms"] exI [of _ "axfr_body z"])
      (auto simp: RCODE_NOERROR_def Suc_le_eq)
qed

definition axfr_request :: packet where
  "axfr_request = \<lparr>p_id = 21, p_flags = 0,
     p_questions = [\<lparr>q_name = ''e'', q_type = AXFR, q_class = 1\<rparr>], p_answers = [],
     p_authority = [], p_additional = [], edns_udp_size = 0, dnssec_ok = False\<rparr>"

lemma sample_names_wf:
  "wf_name ''e'' \<and> wf_name ''ns.e'' \<and> wf_name ''h.e'' \<and> wf_name ''a.e'' \<and> wf_name ''b.e''"
  by (simp add: wf_name_def wf_label_def to_lower_def ascii_lower_def byte_of_char_def)

lemma wf_soa_rdata:
  "wf_name m \<Longrightarrow> wf_name r \<Longrightarrow> wf_rdata SOA (b_soa m r serial refresh retry expire minimum)"
proof -
  assume wf: "wf_name m" "wf_name r"
  define buf where "buf = b_soa m r serial refresh retry expire minimum"
  have "holds_at buf 0 (b_soa m r serial refresh retry expire minimum)" by (simp add: buf_def)
  then have h: "holds_at buf 0 (b_name m)" "holds_at buf (length (b_name m)) (b_name r)"
    by (simp_all add: b_soa_def)
  show ?thesis unfolding buf_def [symmetric]
    using cname.dec_enc [OF wf(1) h(1)] cname.dec_enc [OF wf(2) h(2)] wf
    by (simp add: wf_rdata_def buf_def b_soa_def)
qed

lemma wf_soa_rr: "wf_record (soa_rr n)"
  using sample_names_wf wf_soa_rdata [of "''ns.e''" "''h.e''" n 7200 900 604800 300]
  by (simp add: wf_record_def soa_rr_def canonical_rtype_def rtype_from_def b_soa_def b_name_def
      b_label_def trim_end_dots_def)

lemma axfr_stream_complete_witness:
  "\<exists>ps body. map parse (axfr_stream axfr_request (ttl_zone 1 60)) = map Inr ps \<and>
    concat (map p_answers ps) = soa_rr 1 # body @ [soa_rr 1] \<and>
    body = [(sample_rr ''a.e'' A)\<lparr>r_ttl := 60\<rparr>]"
proof -
  have "transferable axfr_request (soa_rr 1 # non_soa (ttl_zone 1 60))"
    using wf_soa_rr sample_names_wf
    by (simp add: transferable_def axfr_request_def non_soa_ttl_zone wf_question_def)
      (simp add: wf_record_def sample_rr_def canonical_rtype_def rtype_from_def wf_rdata_def)
  from axfr_stream_complete [OF first_soa_ttl_zone this] show ?thesis
    by (auto simp: non_soa_ttl_zone)
qed

section \<open>The incremental stream\<close>

text \<open>
  A secondary's reading of RFC 1995 section 4 behind the leading SOA: each SOA opens the deletions
  of one step, the next one its additions, and the last SOA closes the stream.
\<close>

abbreviation is_soa :: "rr \<Rightarrow> bool" where
  "is_soa r \<equiv> r_type r = SOA"

function ixfr_read :: "rr list \<Rightarrow> (rr \<times> rr list \<times> rr \<times> rr list) list option" where
  "ixfr_read [] = None"
| "ixfr_read [s] = (if is_soa s then Some [] else None)"
| "ixfr_read (f # r # rs) =
     (if \<not> is_soa f then None
      else case dropWhile (\<lambda>r. \<not> is_soa r) (r # rs) of
             [] \<Rightarrow> None
           | t # rest \<Rightarrow>
               map_option ((#) (f, takeWhile (\<lambda>r. \<not> is_soa r) (r # rs), t, takeWhile (\<lambda>r. \<not> is_soa r) rest))
                 (ixfr_read (dropWhile (\<lambda>r. \<not> is_soa r) rest)))"
  by pat_completeness auto
termination
proof (relation "measure length")
  fix f r t :: rr and rs rest :: "rr list"
  assume "dropWhile (\<lambda>r. \<not> is_soa r) (r # rs) = t # rest"
  then have "length (t # rest) \<le> length (r # rs)" by (metis length_dropWhile_le)
  moreover have "length (dropWhile (\<lambda>r. \<not> is_soa r) rest) \<le> length rest"
    by (rule length_dropWhile_le)
  ultimately show "(dropWhile (\<lambda>r. \<not> is_soa r) rest, f # r # rs) \<in> measure length" by simp
qed auto

definition delta_parts :: "zone_delta \<Rightarrow> rr \<times> rr list \<times> rr \<times> rr list" where
  "delta_parts d = (from_soa d, d_removed d, to_soa d, d_added d)"

definition delta_ok :: "zone_delta \<Rightarrow> bool" where
  "delta_ok d \<longleftrightarrow> is_soa (from_soa d) \<and> is_soa (to_soa d) \<and>
     (\<forall>r\<in>set (d_removed d @ d_added d). \<not> is_soa r)"

lemma first_soa_type: "zone_inv z \<Longrightarrow> first_soa z = Some s \<Longrightarrow> rtype_to (r_type s) = 6"
proof -
  assume inv: "zone_inv z" and s: "first_soa z = Some s"
  then obtain rs where "map_of (z_rrsets z) (to_lower (z_origin z), 6) = Some rs" "s \<in> set rs"
    by (auto simp: first_soa_def zone_soa_def zone_lookup_def split: option.splits list.splits)
  then have "rrset_ok ((to_lower (z_origin z), 6), rs)" "s \<in> set rs"
    using inv by (auto simp: zone_inv_def list_all_iff dest!: map_of_SomeD)
  then show "rtype_to (r_type s) = 6" by (auto simp: rrset_ok_def rr_key_def list_all_iff)
qed

lemma build_delta_ok:
  assumes "build_delta old new = Some d" "zone_inv old" "zone_inv new"
    "canonical_rtype (r_type (from_soa d))" "canonical_rtype (r_type (to_soa d))"
  shows "delta_ok d"
proof -
  have soa: "canonical_rtype SOA" by (rule canonical_rtype_known) simp
  have "rtype_to (r_type (from_soa d)) = rtype_to SOA" "rtype_to (r_type (to_soa d)) = rtype_to SOA"
    using build_delta_serials [OF assms(1)] assms(2,3) first_soa_type by auto
  then have "is_soa (from_soa d)" "is_soa (to_soa d)"
    using canonical_rtype_inj soa assms(4,5) by blast+
  moreover have "\<forall>r\<in>set (d_removed d @ d_added d). \<not> is_soa r"
    using assms(1) by (auto simp: build_delta_def non_soa_def Let_def split: option.splits)
  ultimately show ?thesis by (simp add: delta_ok_def)
qed

lemma take_until_soa:
  assumes "\<forall>r\<in>set xs. \<not> is_soa r" "is_soa s"
  shows "takeWhile (\<lambda>r. \<not> is_soa r) (xs @ s # ys) = xs"
    "dropWhile (\<lambda>r. \<not> is_soa r) (xs @ s # ys) = s # ys"
  using assms by (auto simp: takeWhile_append2 dropWhile_append2)

lemma ixfr_read_deltas:
  "\<forall>d\<in>set ds. delta_ok d \<Longrightarrow> is_soa s \<Longrightarrow>
    ixfr_read (concat (map delta_rrs ds) @ [s]) = Some (map delta_parts ds)"
proof (induction ds)
  case (Cons d ds)
  have ok: "is_soa (from_soa d)" "is_soa (to_soa d)" "\<forall>r\<in>set (d_removed d). \<not> is_soa r"
    "\<forall>r\<in>set (d_added d). \<not> is_soa r"
    using Cons.prems(1) by (auto simp: delta_ok_def)
  let ?next = "concat (map delta_rrs ds) @ [s]"
  obtain s1 ys where nx: "?next = s1 # ys" "is_soa s1"
  proof (cases ds)
    case Nil
    with Cons.prems(2) show ?thesis by (intro that [of s "[]"]) simp_all
  next
    case (Cons e es)
    with Cons.prems(1) show ?thesis
      by (intro that [of "from_soa e" "d_removed e @ to_soa e # d_added e @ concat (map delta_rrs es) @ [s]"])
        (simp_all add: delta_rrs_def delta_ok_def)
  qed
  have IH: "ixfr_read ?next = Some (map delta_parts ds)"
    using Cons by simp
  let ?rest = "d_removed d @ to_soa d # d_added d @ ?next"
  have split: "concat (map delta_rrs (d # ds)) @ [s] = from_soa d # ?rest"
    by (simp add: delta_rrs_def)
  obtain r rs where r: "?rest = r # rs" by (cases ?rest) auto
  have "ixfr_read (from_soa d # ?rest) =
      map_option ((#) (from_soa d, d_removed d, to_soa d, d_added d)) (ixfr_read ?next)"
    unfolding r ixfr_read.simps using ok(1)
    by (simp only: r [symmetric] take_until_soa [OF ok(3,2)] list.case nx(1)
        take_until_soa [OF ok(4) nx(2)]) simp
  then show ?case by (simp only: split IH) (simp add: delta_parts_def)
qed simp

text \<open>
  C22. When the history reaches the served serial, the incremental transfer parses into
  authoritative messages of at most 64 answers whose records, read as RFC 1995 prescribes, are
  exactly the given deltas in order between two copies of the current SOA.
\<close>

theorem ixfr_stream_deltas:
  assumes soa: "first_soa z = Some soa" "is_soa soa" "soa_serial (r_rdata soa) = Some cur"
    and serial: "cur \<noteq> requester_serial"
    and ds: "deltas \<noteq> []" "to_serial (last deltas) = cur" "\<forall>d\<in>set deltas. delta_ok d"
    and wf: "transferable req (ixfr_rrs soa deltas)"
  shows "\<exists>ps body. map parse (ixfr_stream req z requester_serial (Some deltas)) = map Inr ps \<and>
    concat (map p_answers ps) = soa # body \<and> last body = soa \<and>
    ixfr_read body = Some (map delta_parts deltas) \<and>
    (\<forall>p\<in>set ps. p_id p = p_id req \<and> is_aa p \<and> length (p_answers p) \<le> 64)"
proof -
  let ?ms = "chunks MAX_RRS_PER_MSG (ixfr_rrs soa deltas)"
  let ?body = "concat (map delta_rrs deltas) @ [soa]"
  have cc: "concat ?ms = ixfr_rrs soa deltas"
    by (rule chunks_concat) (simp add: MAX_RRS_PER_MSG_def)
  have sz: "m \<in> set ?ms \<Longrightarrow> length m \<le> MAX_RRS_PER_MSG" for m using chunks_sizes by blast
  have "map parse (ixfr_stream req z requester_serial (Some deltas)) = map Inr (map (axfr_msg req) ?ms)"
    using parse_axfr_msgs [of req ?ms] wf sz soa serial ds(1,2) by (simp add: ixfr_stream_def cc)
  moreover have "concat (map p_answers (map (axfr_msg req) ?ms)) = soa # ?body"
    by (simp add: comp_def cc) (simp add: ixfr_rrs_def)
  ultimately show ?thesis
    using sz ixfr_read_deltas [OF ds(3) soa(2)]
    by (intro exI [of _ "map (axfr_msg req) ?ms"] exI [of _ ?body]) (auto simp: MAX_RRS_PER_MSG_def)
qed

definition sample_delta :: zone_delta where
  "sample_delta = \<lparr>from_serial = 1, to_serial = 2, from_soa = soa_rr 1, to_soa = soa_rr 2,
     d_removed = [sample_rr ''a.e'' A], d_added = []\<rparr>"

lemma ixfr_stream_deltas_witness:
  "\<exists>ps body. map parse (ixfr_stream axfr_request (ttl_zone 2 60) 1 (Some [sample_delta])) = map Inr ps \<and>
    concat (map p_answers ps) = soa_rr 2 # body \<and>
    ixfr_read body = Some [(soa_rr 1, [sample_rr ''a.e'' A], soa_rr 2, [])]"
proof -
  have wf: "wf_record (sample_rr ''a.e'' A)"
    using sample_names_wf
    by (simp add: wf_record_def sample_rr_def canonical_rtype_def rtype_from_def wf_rdata_def)
  have "transferable axfr_request (ixfr_rrs (soa_rr 2) [sample_delta])"
    using wf wf_soa_rr sample_names_wf
    by (simp add: transferable_def ixfr_rrs_def delta_rrs_def sample_delta_def)
      (simp add: axfr_request_def wf_question_def canonical_rtype_def rtype_from_def)
  moreover have "is_soa (soa_rr n)" for n by (simp add: soa_rr_def)
  moreover have "soa_serial (r_rdata (soa_rr 2)) = Some 2"
    using sample_names_wf by (simp add: soa_rr_def soa_serial_b_soa)
  moreover have "delta_ok sample_delta"
    by (simp add: delta_ok_def sample_delta_def soa_rr_def sample_rr_def)
  ultimately show ?thesis
    using ixfr_stream_deltas [OF first_soa_ttl_zone, of 2 2 1 "[sample_delta]" axfr_request 60]
    by (auto simp: delta_parts_def sample_delta_def)
qed

end
