(* ===== verification/Tsig.thy ===== *)
theory Tsig
  imports Message "HOL-Library.AList"
begin

text \<open>
  \<open>src/src/tsig.rs\<close>: transaction signatures.  HMAC-SHA256 is the \<open>hmac\<close> crate's; it is the
  parameter \<open>new_mac\<close>: a key gives \<open>None\<close> when \<open>new_from_slice\<close> fails and otherwise the function
  from the message to the tag.  The clock is the argument \<open>now\<close>, in seconds.  The error strings of
  the source are the constructors of \<open>tsig_error\<close>.
\<close>

section \<open>Keys\<close>

record tsig_key =
  tk_name :: string
  tk_algorithm :: string
  tk_secret :: "u8 list"

type_synonym keyring = "(string \<times> tsig_key) list"

type_synonym mac = "u8 list \<Rightarrow> (u8 list \<Rightarrow> u8 list) option"

definition tsig_canonical :: "string \<Rightarrow> string" where
  "tsig_canonical name =
     (let n = to_lower name in if suffix [CHR ''.''] n then n else n @ [CHR ''.''])"

definition keyring_insert :: "tsig_key \<Rightarrow> keyring \<Rightarrow> keyring" where
  "keyring_insert key ring = AList.update (tsig_canonical (tk_name key)) key ring"

definition keyring_get :: "keyring \<Rightarrow> string \<Rightarrow> tsig_key option" where
  "keyring_get ring name = map_of ring (tsig_canonical name)"

definition keyring_is_empty :: "keyring \<Rightarrow> bool" where
  "keyring_is_empty ring \<longleftrightarrow> ring = []"

record tsig_rdata =
  t_algorithm :: string
  t_time :: u64
  t_fudge :: u16
  t_mac :: "u8 list"
  t_orig_id :: u16
  t_error :: u16
  t_other :: "u8 list"

datatype tsig_error =
    TooShort | NoAdditional | Malformed io_error | NotTsig | UnknownKey string
  | BadAlgorithm string | OutsideFudge | BadKey | MacMismatch

section \<open>Signing\<close>

definition time48 :: "u64 \<Rightarrow> u8 list" where
  "time48 t = be16 (ucast (drop_bit 32 t AND 0xFFFF)) @ be32 (ucast (t AND 0xFFFFFFFF))"

definition tsig_variables :: "string \<Rightarrow> string \<Rightarrow> u64 \<Rightarrow> u16 \<Rightarrow> u16 \<Rightarrow> u8 list \<Rightarrow> u8 list" where
  "tsig_variables key_name algorithm time_signed fudge error other =
     b_name key_name @ be16 CLASS_ANY @ be32 0 @ b_name algorithm @ time48 time_signed @
     be16 fudge @ be16 error @ be16 (of_nat (length other)) @ other"

definition tsig_rr_rdata :: "string \<Rightarrow> u64 \<Rightarrow> u16 \<Rightarrow> u8 list \<Rightarrow> u16 \<Rightarrow> u8 list" where
  "tsig_rr_rdata algorithm time_signed fudge mac orig_id =
     b_name algorithm @ time48 time_signed @ be16 fudge @ be16 (of_nat (length mac)) @ mac @
     be16 orig_id @ be16 0 @ be16 0"

definition tsig_rr :: "string \<Rightarrow> string \<Rightarrow> u64 \<Rightarrow> u16 \<Rightarrow> u8 list \<Rightarrow> u16 \<Rightarrow> u8 list" where
  "tsig_rr key_name algorithm time_signed fudge mac orig_id =
     (let rdat = tsig_rr_rdata algorithm time_signed fudge mac orig_id
      in b_name key_name @ be16 250 @ be16 CLASS_ANY @ be32 0 @ be16 (of_nat (length rdat)) @ rdat)"

text \<open>\<open>buf[at..at + 2].copy_from_slice(&w.to_be_bytes())\<close>\<close>

definition put16 :: "nat \<Rightarrow> u16 \<Rightarrow> u8 list \<Rightarrow> u8 list" where
  "put16 n w buf = (buf[n := be16 w ! 0])[n + 1 := be16 w ! 1]"

definition get16 :: "u8 list \<Rightarrow> nat \<Rightarrow> u16" where
  "get16 buf n = of_be16 (buf ! n) (buf ! (n + 1))"

text \<open>\<open>None\<close> is the panic of indexing a message of less than two bytes.\<close>

definition sign_message :: "mac \<Rightarrow> u64 \<Rightarrow> u8 list \<Rightarrow> tsig_key \<Rightarrow> u8 list option" where
  "sign_message new_mac now message key =
     (let fudge = 300;
          to_sign = message @ tsig_variables (tk_name key) (tk_algorithm key) now fudge 0 []
      in case new_mac (tk_secret key) of
           None \<Rightarrow> Some message
         | Some mac \<Rightarrow>
             if length message < 2 then None
             else (let out = message @ tsig_rr (tk_name key) (tk_algorithm key) now fudge (mac to_sign)
                                         (get16 message 0)
                   in Some (put16 10 (get16 out 10 + 1) out)))"

section \<open>Verifying\<close>

text \<open>\<open>p.pos += n\<close> is not checked against the buffer.\<close>

definition p_advance :: "nat \<Rightarrow> unit reader" where
  "p_advance n buf pos = Inr ((), pos + n)"

definition skip_question :: "unit reader" where
  "skip_question = rbind p_name (\<lambda>_. p_advance 4)"

definition skip_rr :: "unit reader" where
  "skip_rr =
     rbind p_name (\<lambda>_. rbind p_u16 (\<lambda>_. rbind p_u16 (\<lambda>_. rbind p_u32 (\<lambda>_. rbind p_u16 (\<lambda>rdlen.
       p_advance (unat rdlen))))))"

definition time_of :: "u16 \<Rightarrow> u32 \<Rightarrow> u64" where
  "time_of t1 t2 = push_bit 32 (ucast t1) OR ucast t2"

definition p_tsig_rdata :: "tsig_rdata reader" where
  "p_tsig_rdata =
     rbind p_u16 (\<lambda>cls. rbind p_u32 (\<lambda>ttl. rbind p_u16 (\<lambda>rdlen.
     rbind p_name (\<lambda>algorithm. rbind p_u16 (\<lambda>t1. rbind p_u32 (\<lambda>t2. rbind p_u16 (\<lambda>fudge.
     rbind p_u16 (\<lambda>mac_len. rbind (p_bytes (unat mac_len)) (\<lambda>mac. rbind p_u16 (\<lambda>orig_id.
     rbind p_u16 (\<lambda>err. rbind p_u16 (\<lambda>other_len. rbind (p_bytes (unat other_len)) (\<lambda>other.
       rret \<lparr>t_algorithm = algorithm, t_time = time_of t1 t2, t_fudge = fudge, t_mac = mac,
             t_orig_id = orig_id, t_error = err, t_other = other\<rparr>)))))))))))))"

definition p_sections :: "nat \<Rightarrow> nat \<Rightarrow> unit reader" where
  "p_sections qd rrs =
     rbind (p_many qd skip_question) (\<lambda>_. rbind (p_many rrs skip_rr) (\<lambda>_. rret ()))"

definition extract_tsig :: "u8 list \<Rightarrow> tsig_error + string \<times> tsig_rdata \<times> nat \<times> u16" where
  "extract_tsig message =
     (if length message < 12 then Inl TooShort
      else let arcount = get16 message 10 in
        if arcount = 0 then Inl NoAdditional
        else let qd = unat (get16 message 4); an = unat (get16 message 6); ns = unat (get16 message 8)
        in case p_sections qd (an + ns + unat arcount - 1) message 12 of
             Inl e \<Rightarrow> Inl (Malformed e)
           | Inr (_, tsig_offset) \<Rightarrow>
               (case rbind p_name (\<lambda>name. rbind p_u16 (\<lambda>t. rret (name, t))) message tsig_offset of
                  Inl e \<Rightarrow> Inl (Malformed e)
                | Inr ((name, rtype), pos) \<Rightarrow>
                    if rtype \<noteq> 250 then Inl NotTsig
                    else (case p_tsig_rdata message pos of
                            Inl e \<Rightarrow> Inl (Malformed e)
                          | Inr (tsig, _) \<Rightarrow> Inr (name, tsig, tsig_offset, arcount))))"

definition tsig_preimage :: "u8 list \<Rightarrow> string \<Rightarrow> tsig_rdata \<Rightarrow> nat \<Rightarrow> u16 \<Rightarrow> u8 list" where
  "tsig_preimage message name tsig tsig_offset arcount =
     put16 10 (if arcount = 0 then 0 else arcount - 1)
       (put16 0 (t_orig_id tsig) (take tsig_offset message)) @
     tsig_variables name (t_algorithm tsig) (t_time tsig) (t_fudge tsig) (t_error tsig) (t_other tsig)"

definition verify_message :: "mac \<Rightarrow> u64 \<Rightarrow> u8 list \<Rightarrow> keyring \<Rightarrow> tsig_error + unit" where
  "verify_message new_mac now message ring =
     (case extract_tsig message of
        Inl e \<Rightarrow> Inl e
      | Inr (name, tsig, tsig_offset, arcount) \<Rightarrow>
          (case keyring_get ring name of
             None \<Rightarrow> Inl (UnknownKey name)
           | Some key \<Rightarrow>
               if \<not> prefix ''hmac-sha256'' (tsig_canonical (t_algorithm tsig))
               then Inl (BadAlgorithm (t_algorithm tsig))
               else if \<bar>sint (t_time tsig) - sint now\<bar> > uint (t_fudge tsig) then Inl OutsideFudge
               else (case new_mac (tk_secret key) of
                       None \<Rightarrow> Inl BadKey
                     | Some mac \<Rightarrow>
                         if mac (tsig_preimage message name tsig tsig_offset arcount) = t_mac tsig
                         then Inr () else Inl MacMismatch)))"

section \<open>Signed messages verify\<close>

lemma put16_at: "n = length pre \<Longrightarrow> put16 n w (pre @ be16 v @ suf) = pre @ be16 w @ suf"
  by (simp add: put16_def be16_def list_update_append)

lemma get16_at: "n = length pre \<Longrightarrow> get16 (pre @ be16 w @ suf) n = w"
  by (simp add: get16_def be16_def nth_append)

lemma p_advance_reads: "n = length bs \<Longrightarrow> reads (p_advance n) bs ()"
  by (simp add: reads_def p_advance_def)

lemma skip_question_reads:
  assumes "wf_question q" shows "reads skip_question (b_question q) ()"
  unfolding skip_question_def b_question_def
  by (rule reads_bind [OF cname.dec_reads] p_advance_reads)+
    (use assms in \<open>auto simp: wf_question_def intro!: p_advance_reads\<close>)

lemma skip_rr_reads:
  assumes "wf_record r" shows "reads skip_rr (b_record r) ()"
proof -
  from assms have r: "wf_name (r_name r)" "unat (of_nat (length (r_rdata r)) :: u16) = length (r_rdata r)"
    by (simp_all add: wf_record_def unat_of_nat_u16)
  show ?thesis
    unfolding skip_rr_def b_record_def
    by (rule reads_bind [OF cname.dec_reads [OF r(1)]] reads_bind [OF p_u16_reads]
        reads_bind [OF p_u32_reads] p_advance_reads r(2))+
qed

lemma p_sections_reads:
  assumes "list_all wf_question qs" "list_all wf_record rs" "n = length qs" "k = length rs"
  shows "reads (p_sections n k) (concat (map b_question qs) @ concat (map b_record rs)) ()"
proof -
  have q: "reads (p_many n skip_question) (concat (map b_question qs)) (map (\<lambda>_. ()) qs)"
    and r: "reads (p_many k skip_rr) (concat (map b_record rs)) (map (\<lambda>_. ()) rs)"
    using assms reads_many [of qs skip_question b_question "\<lambda>_. ()"]
      reads_many [of rs skip_rr b_record "\<lambda>_. ()"]
    by (auto simp: list_all_iff skip_question_reads skip_rr_reads)
  show ?thesis
    unfolding p_sections_def by (rule reads_bind [OF q]) (rule reads_bind_ret [OF r], simp)
qed

lemma time_of_time48:
  assumes "unat t < 2 ^ 48"
  shows "time_of (ucast (drop_bit 32 t AND 0xFFFF)) (ucast (t AND 0xFFFFFFFF)) = t"
proof -
  have "take_bit 48 t = t"
    using assms by (intro word_unat_eq_iff [THEN iffD2]) (simp add: unsigned_take_bit_eq take_bit_eq_mod unat_mod)
  then have high: "bit t n \<Longrightarrow> n < 48" for n by (metis bit_take_bit_iff)
  have m: "(0xFFFF :: u64) = mask 16" "(0xFFFFFFFF :: u64) = mask 32"
    by (simp_all add: mask_eq_exp_minus_1)
  show ?thesis
    by (rule bit_word_eqI)
      (auto simp: time_of_def m bit_or_iff bit_push_bit_iff bit_ucast_iff bit_and_iff bit_mask_iff
        bit_drop_bit_eq dest: high)
qed

definition wf_tsig_key :: "tsig_key \<Rightarrow> bool" where
  "wf_tsig_key k \<longleftrightarrow>
     (let n = trim_end_dots (tk_name k)
      in wf_name n \<and> (tk_name k = n \<or> tk_name k = n @ ''.'') \<and>
         trim_end_dots (tk_algorithm k) = ''hmac-sha256'')"

lemma tsig_canonical_trim:
  "wf_tsig_key k \<Longrightarrow> tsig_canonical (trim_end_dots (tk_name k)) = tsig_canonical (tk_name k)"
proof -
  assume wf: "wf_tsig_key k"
  let ?n = "trim_end_dots (tk_name k)"
  have "\<not> suffix [CHR ''.''] (to_lower ?n)"
  proof (cases "?n = []")
    case False
    have "last (to_lower ?n) = ascii_lower (last ?n)" using False by (simp add: to_lower_def last_map)
    then have "last (to_lower ?n) \<noteq> CHR ''.''" using trim_end_dots_last [OF False] by simp
    then show ?thesis by (auto simp: suffix_def)
  qed simp
  then have "tsig_canonical ?n = to_lower ?n @ ''.''" "tsig_canonical (?n @ ''.'') = to_lower ?n @ ''.''"
    by (simp_all add: tsig_canonical_def to_lower_Cons)
  with wf show ?thesis unfolding wf_tsig_key_def Let_def by metis
qed

lemma wf_name_hmac: "wf_name ''hmac-sha256''"
  by (simp add: wf_name_def wf_label_def to_lower_def ascii_lower_def byte_of_char_def)

definition tsig_of :: "tsig_key \<Rightarrow> u64 \<Rightarrow> u8 list \<Rightarrow> u16 \<Rightarrow> tsig_rdata" where
  "tsig_of key now mac orig_id =
     \<lparr>t_algorithm = trim_end_dots (tk_algorithm key), t_time = now, t_fudge = 300, t_mac = mac,
      t_orig_id = orig_id, t_error = 0, t_other = []\<rparr>"

lemma p_tsig_rdata_reads:
  assumes "wf_tsig_key key" "unat now < 2 ^ 48" "length mac < 65536"
  shows "reads p_tsig_rdata (be16 CLASS_ANY @ be32 0 @ be16 rdlen @
    tsig_rr_rdata (tk_algorithm key) now 300 mac orig_id) (tsig_of key now mac orig_id)"
proof -
  have alg: "wf_name (trim_end_dots (tk_algorithm key))"
    using assms(1) wf_name_hmac by (simp add: wf_tsig_key_def Let_def)
  have len: "unat (of_nat (length mac) :: u16) = length mac" by (rule unat_of_nat_u16 [OF assms(3)])
  have none: "reads (p_bytes (unat (0 :: u16))) [] []" by (simp add: p_bytes_reads)
  have "reads p_tsig_rdata (be16 CLASS_ANY @ be32 0 @ be16 rdlen @ b_name (trim_end_dots (tk_algorithm key)) @
      be16 (ucast (drop_bit 32 now AND 0xFFFF)) @ be32 (ucast (now AND 0xFFFFFFFF)) @ be16 300 @
      be16 (of_nat (length mac)) @ mac @ be16 orig_id @ be16 0 @ be16 0 @ [])
      (tsig_of key now mac orig_id)"
    unfolding p_tsig_rdata_def
    by (rule reads_bind [OF cname.dec_reads [OF alg]] reads_bind [OF p_u16_reads]
        reads_bind [OF p_u32_reads] reads_bind [OF p_bytes_reads [OF len]] reads_bind_ret [OF none])+
      (simp add: tsig_of_def time_of_time48 [OF assms(2)])
  then show ?thesis by (simp add: tsig_rr_rdata_def time48_def b_name_trim)
qed

text \<open>The serialized message: its header with the additional count, then the sections.\<close>

definition header10 :: "packet \<Rightarrow> u8 list" where
  "header10 p = be16 (p_id p) @ be16 (p_flags p) @ be16 (of_nat (length (p_questions p))) @
     be16 (of_nat (length (p_answers p))) @ be16 (of_nat (length (p_authority p)))"

definition all_records :: "packet \<Rightarrow> bool \<Rightarrow> rr list" where
  "all_records p e = p_answers p @ p_authority p @ p_additional p @ edns_records p e"

definition body_bytes :: "packet \<Rightarrow> bool \<Rightarrow> u8 list" where
  "body_bytes p e = concat (map b_question (p_questions p)) @ concat (map b_record (all_records p e))"

lemma serialize_parts:
  "serialize p e = header10 p @ be16 (of_nat (length (p_additional p @ edns_records p e))) @ body_bytes p e"
  by (simp add: serialize_alt header10_def body_bytes_def all_records_def)

lemma length_header10 [simp]: "length (header10 p) = 10"
  by (simp add: header10_def)

lemma header10_id: "put16 0 (p_id p) (header10 p @ r) = header10 p @ r" "get16 (header10 p @ r) 0 = p_id p"
  using put16_at [of 0 "[]" "p_id p" "p_id p"] get16_at [of 0 "[]" "p_id p"]
  by (simp_all add: header10_def)

lemma header10_counts:
  "get16 (header10 p @ r) 4 = of_nat (length (p_questions p))"
  "get16 (header10 p @ r) 6 = of_nat (length (p_answers p))"
  "get16 (header10 p @ r) 8 = of_nat (length (p_authority p))"
  using get16_at [of 4 "be16 (p_id p) @ be16 (p_flags p)"]
    get16_at [of 6 "be16 (p_id p) @ be16 (p_flags p) @ be16 (of_nat (length (p_questions p)))"]
    get16_at [of 8 "be16 (p_id p) @ be16 (p_flags p) @ be16 (of_nat (length (p_questions p))) @
      be16 (of_nat (length (p_answers p)))"]
  by (simp_all add: header10_def)

text \<open>The signed message of a packet, in closed form.\<close>

definition tsig_bytes :: "tsig_key \<Rightarrow> u64 \<Rightarrow> u8 list \<Rightarrow> u16 \<Rightarrow> u8 list" where
  "tsig_bytes key now tag orig_id = tsig_rr (tk_name key) (tk_algorithm key) now 300 tag orig_id"

lemma sign_message_serialize:
  fixes p :: packet and e :: bool and now :: u64
  assumes "new_mac (tk_secret key) = Some mac"
  defines "tag \<equiv> mac (serialize p e @ tsig_variables (tk_name key) (tk_algorithm key) now 300 0 [])"
  shows "sign_message new_mac now (serialize p e) key =
    Some (header10 p @ be16 (of_nat (length (p_additional p @ edns_records p e)) + 1) @ body_bytes p e @
      tsig_bytes key now tag (p_id p))"
proof -
  have g: "get16 (serialize p e) 0 = p_id p" by (simp add: serialize_parts header10_id)
  have l: "\<not> length (serialize p e) < 2" by (simp add: serialize_parts)
  have out: "put16 10 (get16 (serialize p e @ r) 10 + 1) (serialize p e @ r) =
      header10 p @ be16 (of_nat (length (p_additional p @ edns_records p e)) + 1) @ body_bytes p e @ r" for r
    unfolding serialize_parts append_assoc
    by (simp only: get16_at [OF length_header10 [symmetric]] put16_at [OF length_header10 [symmetric]])
  show ?thesis
    unfolding sign_message_def assms(1) Let_def option.case if_not_P [OF l] g out tag_def tsig_bytes_def ..
qed

text \<open>What \<open>extract_tsig\<close> finds in it.\<close>

lemma extract_signed:
  fixes p :: packet and e :: bool
  assumes wf: "wf_packet p" "length (p_additional p) + 2 < 65536" and key: "wf_tsig_key key"
    and time: "unat now < 2 ^ 48" and tag: "length tag < 65536"
  defines "ar \<equiv> of_nat (length (p_additional p @ edns_records p e)) + 1 :: u16"
  shows "extract_tsig (header10 p @ be16 ar @ body_bytes p e @ tsig_bytes key now tag (p_id p)) =
    Inr (trim_end_dots (tk_name key), tsig_of key now tag (p_id p), 12 + length (body_bytes p e), ar)"
proof -
  define m where "m = header10 p @ be16 ar @ body_bytes p e @ tsig_bytes key now tag (p_id p)"
  have add: "length (p_additional p @ edns_records p e) + 1 < 65536"
    using wf(2) by (simp add: edns_records_def)
  have ar: "unat ar = length (p_additional p @ edns_records p e) + 1"
    using add unat_of_nat_u16 [OF add] by (simp add: ar_def add.commute)
  have c: "get16 m 10 = ar" unfolding m_def by (rule get16_at) simp
  have u: "unat (of_nat (length (p_questions p)) :: u16) = length (p_questions p)"
    "unat (of_nat (length (p_answers p)) :: u16) = length (p_answers p)"
    "unat (of_nat (length (p_authority p)) :: u16) = length (p_authority p)"
    using wf(1) by (simp_all add: wf_packet_def unat_of_nat_u16)
  have recs: "list_all wf_question (p_questions p)" "list_all wf_record (all_records p e)"
    using wf(1) by (auto simp: wf_packet_def all_records_def list_all_iff edns_records_def wf_opt_record)
  have h: "holds_at m 12 (body_bytes p e @ tsig_bytes key now tag (p_id p))"
    using holds_atI [of "header10 p @ be16 ar" "body_bytes p e @ tsig_bytes key now tag (p_id p)" "[]"]
    by (simp add: m_def)
  then have hb: "holds_at m 12 (body_bytes p e)"
    and ht: "holds_at m (12 + length (body_bytes p e)) (tsig_bytes key now tag (p_id p))" by simp_all
  have secs: "p_sections (length (p_questions p))
      (length (p_answers p) + length (p_authority p) + unat ar - 1) m 12 =
      Inr ((), 12 + length (body_bytes p e))"
    by (rule readsD [OF p_sections_reads [OF recs] hb [unfolded body_bytes_def], folded body_bytes_def])
      (simp_all add: ar all_records_def)
  have name: "wf_name (trim_end_dots (tk_name key))" using key by (simp add: wf_tsig_key_def Let_def)
  let ?rr = "tsig_rr_rdata (tk_algorithm key) now 300 tag (p_id p)"
  have t: "tsig_bytes key now tag (p_id p) = (b_name (trim_end_dots (tk_name key)) @ be16 250) @
      be16 CLASS_ANY @ be32 0 @ be16 (of_nat (length ?rr)) @ ?rr"
    by (simp add: tsig_bytes_def tsig_rr_def Let_def b_name_trim)
  have head: "reads (rbind p_name (\<lambda>name. rbind p_u16 (\<lambda>t. rret (name, t))))
      (b_name (trim_end_dots (tk_name key)) @ be16 250) (trim_end_dots (tk_name key), 250)"
    by (rule reads_bind [OF cname.dec_reads [OF name]] reads_bind_ret [OF p_u16_reads] refl)+
  note ht' = ht [unfolded t holds_at_append [of _ _ "b_name (trim_end_dots (tk_name key)) @ be16 250"]]
  note hd = readsD [OF head ht' [THEN conjunct1]]
  note rd = readsD [OF p_tsig_rdata_reads [OF key time tag] ht' [THEN conjunct2]]
  have counts: "get16 m 4 = of_nat (length (p_questions p))" "get16 m 6 = of_nat (length (p_answers p))"
    "get16 m 8 = of_nat (length (p_authority p))"
    unfolding m_def by (rule header10_counts)+
  have len: "(length m < 12) = False" by (simp add: m_def)
  have nz: "(ar = 0) = False" using ar by auto
  have "extract_tsig m = Inr (trim_end_dots (tk_name key), tsig_of key now tag (p_id p),
      12 + length (body_bytes p e), ar)"
    unfolding extract_tsig_def len c nz counts u Let_def if_False secs sum.case prod.case hd
    using rd by simp
  then show ?thesis by (simp only: m_def)
qed

lemma tsig_variables_trim:
  "tsig_variables (trim_end_dots n) (trim_end_dots a) now fudge err other =
    tsig_variables n a now fudge err other"
  by (simp add: tsig_variables_def b_name_trim)

text \<open>
  C15. A well-formed message signed with a key of the keyring verifies there, whatever EDNS state
  it carries, as long as the clocks differ by at most 300 seconds: the verifier restores the id and
  the additional count, finds the TSIG record behind all sections and rebuilds the bytes that were
  hashed.  HMAC-SHA256 accepts keys of any length and returns 32 bytes.
\<close>

theorem sign_verify_roundtrip:
  assumes mac: "\<And>k. \<exists>f. new_mac k = Some f \<and> (\<forall>d. length (f d) = 32)"
    and wf: "wf_packet p" "length (p_additional p) + 2 < 65536"
    and key: "wf_tsig_key key" "keyring_get ring (tk_name key) = Some key"
    and time: "unat now < 2 ^ 48" "\<bar>sint now - sint now'\<bar> \<le> 300"
  shows "\<exists>signed. sign_message new_mac now (serialize p e) key = Some signed \<and>
    verify_message new_mac now' signed ring = Inr ()"
proof -
  obtain f where f: "new_mac (tk_secret key) = Some f" "\<And>d. length (f d) = 32" using mac by blast
  define ar where "ar = (of_nat (length (p_additional p @ edns_records p e)) :: u16)"
  define tag where "tag = f (serialize p e @ tsig_variables (tk_name key) (tk_algorithm key) now 300 0 [])"
  define signed where "signed = header10 p @ be16 (ar + 1) @ body_bytes p e @ tsig_bytes key now tag (p_id p)"
  let ?n = "trim_end_dots (tk_name key)" and ?off = "12 + length (body_bytes p e)"
  have "length tag < 65536" by (simp add: tag_def f(2))
  note ex = extract_signed [OF wf key(1) time(1) this, of e, folded ar_def, folded signed_def]
  have got: "keyring_get ring ?n = Some key"
    using key tsig_canonical_trim by (simp add: keyring_get_def)
  have alg: "prefix ''hmac-sha256'' (tsig_canonical (trim_end_dots (tk_algorithm key)))"
    using key(1) by (simp add: wf_tsig_key_def Let_def tsig_canonical_def lower_eval)
  have "length (p_additional p @ edns_records p e) + 1 < 65536"
    using wf(2) by (simp add: edns_records_def)
  from unat_of_nat_u16 [OF this] have "unat (ar + 1) \<noteq> 0" by (simp add: ar_def add.commute)
  then have nz: "(ar + 1 = 0) = False" by (metis unat_0)
  have "take ?off signed = header10 p @ be16 (ar + 1) @ body_bytes p e" by (simp add: signed_def)
  then have pre: "tsig_preimage signed ?n (tsig_of key now tag (p_id p)) ?off (ar + 1) =
      serialize p e @ tsig_variables (tk_name key) (tk_algorithm key) now 300 0 []"
    unfolding tsig_preimage_def nz if_False
    by (simp add: tsig_of_def tsig_variables_trim header10_id(1) put16_at [OF length_header10 [symmetric]])
      (simp add: serialize_parts ar_def)
  have "verify_message new_mac now' signed ring = Inr ()"
    unfolding verify_message_def ex sum.case prod.case got option.case
    using time(2) alg by (simp add: f(1) pre) (simp add: tsig_of_def tag_def)
  moreover have "sign_message new_mac now (serialize p e) key = Some signed"
    using sign_message_serialize [where new_mac = new_mac and key = key and mac = f and p = p and e = e
        and now = now] f(1) by (simp only: signed_def tag_def ar_def)
  ultimately show ?thesis by blast
qed

definition transfer_key :: tsig_key where
  "transfer_key = \<lparr>tk_name = ''xfr.'', tk_algorithm = ''hmac-sha256.'', tk_secret = [1, 2, 3]\<rparr>"

lemma sign_verify_roundtrip_witness:
  "\<exists>signed. sign_message (\<lambda>k. Some (\<lambda>d. take 32 (d @ k @ replicate 32 0))) 1000
      (serialize sample_packet True) transfer_key = Some signed \<and>
    verify_message (\<lambda>k. Some (\<lambda>d. take 32 (d @ k @ replicate 32 0))) 900 signed
      (keyring_insert transfer_key []) = Inr ()"
proof (rule sign_verify_roundtrip)
  show "wf_tsig_key transfer_key"
    by (simp add: wf_tsig_key_def transfer_key_def trim_end_dots_def wf_name_def wf_label_def
        to_lower_def ascii_lower_def byte_of_char_def)
qed (use wf_sample_packet in
    \<open>auto simp: keyring_get_def keyring_insert_def transfer_key_def sample_packet_def\<close>)

end
