(* ===== verification/Sha2.thy ===== *)
theory Sha2
  imports Message
begin

text \<open>
  The SHA-2 functions that \<open>src/src/dnssec.rs\<close> implements itself: \<open>sha256\<close>, \<open>sha384\<close> and \<open>sha512\<close>.
  The compression loops are kept as they are written, over the working array \<open>w\<close> and the eight
  registers; \<open>sha2_core\<close> states once, for both word sizes, that such a loop computes the message
  schedule and the digest of FIPS 180-4.
\<close>

section \<open>Word operations\<close>

abbreviation rotr :: "nat \<Rightarrow> 'a::len word \<Rightarrow> 'a word" where
  "rotr \<equiv> word_rotr"

definition u64_bytes :: "u64 \<Rightarrow> u8 list" where
  "u64_bytes w = be32 (ucast (drop_bit 32 w)) @ be32 (ucast w)"

definition u32_at :: "u8 list \<Rightarrow> nat \<Rightarrow> u32" where
  "u32_at b i = of_be32 (of_be16 (b ! i) (b ! (i + 1))) (of_be16 (b ! (i + 2)) (b ! (i + 3)))"

definition u64_at :: "u8 list \<Rightarrow> nat \<Rightarrow> u64" where
  "u64_at b i = push_bit 32 (ucast (u32_at b i)) OR ucast (u32_at b (i + 4))"

text \<open>\<open>chunks(n)\<close> of a padded message.\<close>

fun blocks_of :: "nat \<Rightarrow> u8 list \<Rightarrow> u8 list list" where
  "blocks_of n bs = (if n = 0 \<or> bs = [] then [] else take n bs # blocks_of n (drop n bs))"

declare blocks_of.simps [simp del]

section \<open>The shared structure\<close>

text \<open>
  Both loops differ only in word size, shift amounts, constants and the number of rounds.  A
  register file is the list \<open>[a, b, c, d, e, f, g, h]\<close>.
\<close>

definition schedule_step :: "('a::len word \<Rightarrow> 'a word) \<Rightarrow> ('a word \<Rightarrow> 'a word) \<Rightarrow> nat \<Rightarrow> 'a word list \<Rightarrow>
    'a word list" where
  "schedule_step s0 s1 i w = w[i := w ! (i - 16) + s0 (w ! (i - 15)) + w ! (i - 7) + s1 (w ! (i - 2))]"

definition ch :: "'a::len word \<Rightarrow> 'a word \<Rightarrow> 'a word \<Rightarrow> 'a word" where
  "ch e f g = (e AND f) XOR (NOT e AND g)"

definition maj :: "'a::len word \<Rightarrow> 'a word \<Rightarrow> 'a word \<Rightarrow> 'a word" where
  "maj a b c = (a AND b) XOR (a AND c) XOR (b AND c)"

fun round_step :: "('a::len word \<Rightarrow> 'a word) \<Rightarrow> ('a word \<Rightarrow> 'a word) \<Rightarrow> 'a word \<Rightarrow> 'a word list \<Rightarrow>
    'a word list" where
  "round_step big0 big1 kw [a, b, c, d, e, f, g, hh] =
     (let temp1 = hh + big1 e + ch e f g + kw; temp2 = big0 a + maj a b c
      in [temp1 + temp2, a, b, c, d + temp1, e, f, g])"
| "round_step big0 big1 kw regs = regs"

section \<open>sha256\<close>

definition K256 :: "u32 list" where
  "K256 = concat [
     [0x428a2f98, 0x71374491, 0xb5c0fbcf, 0xe9b5dba5, 0x3956c25b, 0x59f111f1, 0x923f82a4, 0xab1c5ed5],
     [0xd807aa98, 0x12835b01, 0x243185be, 0x550c7dc3, 0x72be5d74, 0x80deb1fe, 0x9bdc06a7, 0xc19bf174],
     [0xe49b69c1, 0xefbe4786, 0x0fc19dc6, 0x240ca1cc, 0x2de92c6f, 0x4a7484aa, 0x5cb0a9dc, 0x76f988da],
     [0x983e5152, 0xa831c66d, 0xb00327c8, 0xbf597fc7, 0xc6e00bf3, 0xd5a79147, 0x06ca6351, 0x14292967],
     [0x27b70a85, 0x2e1b2138, 0x4d2c6dfc, 0x53380d13, 0x650a7354, 0x766a0abb, 0x81c2c92e, 0x92722c85],
     [0xa2bfe8a1, 0xa81a664b, 0xc24b8b70, 0xc76c51a3, 0xd192e819, 0xd6990624, 0xf40e3585, 0x106aa070],
     [0x19a4c116, 0x1e376c08, 0x2748774c, 0x34b0bcb5, 0x391c0cb3, 0x4ed8aa4a, 0x5b9cca4f, 0x682e6ff3],
     [0x748f82ee, 0x78a5636f, 0x84c87814, 0x8cc70208, 0x90befffa, 0xa4506ceb, 0xbef9a3f7, 0xc67178f2]]"

definition H256 :: "u32 list" where
  "H256 = [0x6a09e667, 0xbb67ae85, 0x3c6ef372, 0xa54ff53a,
     0x510e527f, 0x9b05688c, 0x1f83d9ab, 0x5be0cd19]"

text \<open>\<open>while padded.len() % 64 != 56 { padded.push(0); }\<close>\<close>

function pad_zeros :: "nat \<Rightarrow> nat \<Rightarrow> u8 list \<Rightarrow> u8 list" where
  "pad_zeros block r padded =
     (if block = 0 \<or> r \<ge> block \<or> length padded mod block = r then padded
      else pad_zeros block r (padded @ [0]))"
  by pat_completeness auto
termination
  by (relation "measure (\<lambda>(block, r, p). let l = length p mod block in if l \<le> r then r - l else r + block - l)")
    (auto simp: mod_Suc Let_def intro!: diff_less_mono2 trans_less_add2)

declare pad_zeros.simps [simp del]

definition sha256_padded :: "u8 list \<Rightarrow> u8 list" where
  "sha256_padded msg =
     pad_zeros 64 56 (msg @ [0x80]) @ u64_bytes (of_nat (length msg) * 8)"

definition sha256_schedule :: "u8 list \<Rightarrow> u32 list" where
  "sha256_schedule block =
     fold (schedule_step (\<lambda>x. rotr 7 x XOR rotr 18 x XOR drop_bit 3 x)
                         (\<lambda>x. rotr 17 x XOR rotr 19 x XOR drop_bit 10 x))
       [16..<64] (map (\<lambda>i. u32_at block (i * 4)) [0..<16] @ replicate 48 0)"

definition sha256_round :: "u32 list \<Rightarrow> nat \<Rightarrow> u32 list \<Rightarrow> u32 list" where
  "sha256_round w i =
     round_step (\<lambda>a. rotr 2 a XOR rotr 13 a XOR rotr 22 a) (\<lambda>e. rotr 6 e XOR rotr 11 e XOR rotr 25 e)
       (K256 ! i + w ! i)"

definition sha256_block :: "u8 list \<Rightarrow> u32 list \<Rightarrow> u32 list" where
  "sha256_block block h = map2 (+) h (fold (sha256_round (sha256_schedule block)) [0..<64] h)"

definition sha256 :: "u8 list \<Rightarrow> u8 list" where
  "sha256 msg = concat (map be32 (fold sha256_block (blocks_of 64 (sha256_padded msg)) H256))"

section \<open>sha512_internal, sha384, sha512\<close>

definition K512 :: "u64 list" where
  "K512 = concat [
     [0x428a2f98d728ae22, 0x7137449123ef65cd, 0xb5c0fbcfec4d3b2f, 0xe9b5dba58189dbbc],
     [0x3956c25bf348b538, 0x59f111f1b605d019, 0x923f82a4af194f9b, 0xab1c5ed5da6d8118],
     [0xd807aa98a3030242, 0x12835b0145706fbe, 0x243185be4ee4b28c, 0x550c7dc3d5ffb4e2],
     [0x72be5d74f27b896f, 0x80deb1fe3b1696b1, 0x9bdc06a725c71235, 0xc19bf174cf692694],
     [0xe49b69c19ef14ad2, 0xefbe4786384f25e3, 0x0fc19dc68b8cd5b5, 0x240ca1cc77ac9c65],
     [0x2de92c6f592b0275, 0x4a7484aa6ea6e483, 0x5cb0a9dcbd41fbd4, 0x76f988da831153b5],
     [0x983e5152ee66dfab, 0xa831c66d2db43210, 0xb00327c898fb213f, 0xbf597fc7beef0ee4],
     [0xc6e00bf33da88fc2, 0xd5a79147930aa725, 0x06ca6351e003826f, 0x142929670a0e6e70],
     [0x27b70a8546d22ffc, 0x2e1b21385c26c926, 0x4d2c6dfc5ac42aed, 0x53380d139d95b3df],
     [0x650a73548baf63de, 0x766a0abb3c77b2a8, 0x81c2c92e47edaee6, 0x92722c851482353b],
     [0xa2bfe8a14cf10364, 0xa81a664bbc423001, 0xc24b8b70d0f89791, 0xc76c51a30654be30],
     [0xd192e819d6ef5218, 0xd69906245565a910, 0xf40e35855771202a, 0x106aa07032bbd1b8],
     [0x19a4c116b8d2d0c8, 0x1e376c085141ab53, 0x2748774cdf8eeb99, 0x34b0bcb5e19b48a8],
     [0x391c0cb3c5c95a63, 0x4ed8aa4ae3418acb, 0x5b9cca4f7763e373, 0x682e6ff3d6b2b8a3],
     [0x748f82ee5defb2fc, 0x78a5636f43172f60, 0x84c87814a1f0ab72, 0x8cc702081a6439ec],
     [0x90befffa23631e28, 0xa4506cebde82bde9, 0xbef9a3f7b2c67915, 0xc67178f2e372532b],
     [0xca273eceea26619c, 0xd186b8c721c0c207, 0xeada7dd6cde0eb1e, 0xf57d4f7fee6ed178],
     [0x06f067aa72176fba, 0x0a637dc5a2c898a6, 0x113f9804bef90dae, 0x1b710b35131c471b],
     [0x28db77f523047d84, 0x32caab7b40c72493, 0x3c9ebe0a15c9bebc, 0x431d67c49c100d4c],
     [0x4cc5d4becb3e42b6, 0x597f299cfc657e2a, 0x5fcb6fab3ad6faec, 0x6c44198c4a475817]]"

definition H384 :: "u64 list" where
  "H384 = [0xcbbb9d5dc1059ed8, 0x629a292a367cd507, 0x9159015a3070dd17, 0x152fecd8f70e5939,
     0x67332667ffc00b31, 0x8eb44a8768581511, 0xdb0c2e0d64f98fa7, 0x47b5481dbefa4fa4]"

definition H512 :: "u64 list" where
  "H512 = [0x6a09e667f3bcc908, 0xbb67ae8584caa73b, 0x3c6ef372fe94f82b, 0xa54ff53a5f1d36f1,
     0x510e527fade682d1, 0x9b05688c2b3e6c1f, 0x1f83d9abfb41bd6b, 0x5be0cd19137e2179]"

definition sha512_padded :: "u8 list \<Rightarrow> u8 list" where
  "sha512_padded msg =
     pad_zeros 128 112 (msg @ [0x80]) @ u64_bytes 0 @ u64_bytes (of_nat (length msg * 8))"

definition sha512_schedule :: "u8 list \<Rightarrow> u64 list" where
  "sha512_schedule block =
     fold (schedule_step (\<lambda>x. rotr 1 x XOR rotr 8 x XOR drop_bit 7 x)
                         (\<lambda>x. rotr 19 x XOR rotr 61 x XOR drop_bit 6 x))
       [16..<80] (map (\<lambda>i. u64_at block (i * 8)) [0..<16] @ replicate 64 0)"

definition sha512_round :: "u64 list \<Rightarrow> nat \<Rightarrow> u64 list \<Rightarrow> u64 list" where
  "sha512_round w i =
     round_step (\<lambda>a. rotr 28 a XOR rotr 34 a XOR rotr 39 a) (\<lambda>e. rotr 14 e XOR rotr 18 e XOR rotr 41 e)
       (K512 ! i + w ! i)"

definition sha512_block :: "u8 list \<Rightarrow> u64 list \<Rightarrow> u64 list" where
  "sha512_block block h = map2 (+) h (fold (sha512_round (sha512_schedule block)) [0..<80] h)"

definition sha512_internal :: "u8 list \<Rightarrow> bool \<Rightarrow> u8 list" where
  "sha512_internal msg is_384 =
     concat (map u64_bytes (fold sha512_block (blocks_of 128 (sha512_padded msg))
       (if is_384 then H384 else H512)))"

definition sha384 :: "u8 list \<Rightarrow> u8 list" where
  "sha384 msg = take 48 (sha512_internal msg True)"

definition sha512 :: "u8 list \<Rightarrow> u8 list" where
  "sha512 msg = sha512_internal msg False"

section \<open>FIPS 180-4\<close>

text \<open>The message schedule as the recurrence of section 6.2.2 step 1.\<close>

function fips_W :: "('a::len word \<Rightarrow> 'a word) \<Rightarrow> ('a word \<Rightarrow> 'a word) \<Rightarrow> 'a word list \<Rightarrow> nat \<Rightarrow> 'a word" where
  "fips_W s0 s1 m t =
     (if t < 16 then m ! t
      else s1 (fips_W s0 s1 m (t - 2)) + fips_W s0 s1 m (t - 7) + s0 (fips_W s0 s1 m (t - 15)) +
           fips_W s0 s1 m (t - 16))"
  by pat_completeness auto
termination by (relation "measure (\<lambda>(s0, s1, m, t). t)") auto

declare fips_W.simps [simp del]

text \<open>
  Padding by arithmetic (section 5.1): the least number of zero bytes that brings the length with
  the 0x80 byte to \<open>r\<close> modulo the block size.
\<close>

definition fips_pad :: "nat \<Rightarrow> nat \<Rightarrow> u8 list \<Rightarrow> u8 list" where
  "fips_pad block r msg = msg @ [0x80] @ replicate ((r + block - (length msg + 1) mod block) mod block) 0"

definition fips_blocks :: "nat \<Rightarrow> u8 list \<Rightarrow> u8 list list" where
  "fips_blocks n bs = map (\<lambda>i. take n (drop (n * i) bs)) [0..<length bs div n]"

text \<open>A client of the compression loop supplies the small sigmas and the number of rounds.\<close>

locale sha2_core =
  fixes s0 s1 :: "'a::len word \<Rightarrow> 'a word" and rounds :: nat
  assumes rounds: "16 \<le> rounds"
begin

lemma schedule_prefix:
  "16 \<le> n \<Longrightarrow> n \<le> rounds \<Longrightarrow> length m = 16 \<Longrightarrow>
    (let w = fold (schedule_step s0 s1) [16..<n] (m @ replicate (rounds - 16) 0)
     in length w = rounds \<and> (\<forall>t<n. w ! t = fips_W s0 s1 m t))"
proof (induction n rule: dec_induct)
  case base
  have "fips_W s0 s1 m t = m ! t" if "t < 16" for t using that by (simp add: fips_W.simps)
  with base rounds show ?case by (simp add: nth_append)
next
  case (step n)
  define w where "w = fold (schedule_step s0 s1) [16..<n] (m @ replicate (rounds - 16) 0)"
  have w: "length w = rounds" "\<And>t. t < n \<Longrightarrow> w ! t = fips_W s0 s1 m t"
    using step by (simp_all add: w_def Let_def)
  have "fold (schedule_step s0 s1) [16..<Suc n] (m @ replicate (rounds - 16) 0) = schedule_step s0 s1 n w"
    using step.hyps by (simp add: w_def)
  moreover have "schedule_step s0 s1 n w ! n = fips_W s0 s1 m n"
    using w step.hyps step.prems
    by (subst fips_W.simps) (simp add: schedule_step_def algebra_simps)
  moreover have "schedule_step s0 s1 n w ! t = fips_W s0 s1 m t" if "t < n" for t
    using w that by (simp add: schedule_step_def)
  ultimately show ?case
    using w(1) by (auto simp: Let_def less_Suc_eq) (simp add: schedule_step_def)
qed

lemma schedule_fips:
  "length m = 16 \<Longrightarrow> n = rounds - 16 \<Longrightarrow>
    fold (schedule_step s0 s1) [16..<rounds] (m @ replicate n 0) = map (fips_W s0 s1 m) [0..<rounds]"
  using schedule_prefix [of rounds m] rounds by (auto simp: Let_def intro: nth_equalityI)

end

interpretation c256: sha2_core "\<lambda>x :: u32. rotr 7 x XOR rotr 18 x XOR drop_bit 3 x"
  "\<lambda>x. rotr 17 x XOR rotr 19 x XOR drop_bit 10 x" 64
  by unfold_locales simp

interpretation c512: sha2_core "\<lambda>x :: u64. rotr 1 x XOR rotr 8 x XOR drop_bit 7 x"
  "\<lambda>x. rotr 19 x XOR rotr 61 x XOR drop_bit 6 x" 80
  by unfold_locales simp

lemma pad_step:
  assumes "l < block" "r < block" "l \<noteq> r"
  shows "(r + block - l) mod block = Suc ((r + block - (if Suc l = block then 0 else Suc l)) mod block)"
proof -
  have c: "(r + block - x) mod block = (if x \<le> r then r - x else r + block - x)" if "x < block" for x
  proof (cases "x \<le> r")
    case True
    then have "(r + block - x) mod block = ((r - x) + block) mod block" by simp
    also have "\<dots> = r - x" using assms(2) by (simp only: mod_add_self2 mod_less less_imp_diff_less)
    finally show ?thesis using True by simp
  next
    case False
    then have "r + block - x < block" using that by linarith
    then show ?thesis using False by simp
  qed
  show ?thesis
  proof (cases "Suc l = block")
    case True
    then show ?thesis using assms c [of l] by auto
  next
    case False
    then have "Suc l < block" using assms(1) by simp
    then show ?thesis using assms False c [of l] c [of "Suc l"] by auto
  qed
qed

lemma pad_zeros_count:
  "0 < block \<Longrightarrow> r < block \<Longrightarrow>
    pad_zeros block r p = p @ replicate ((r + block - length p mod block) mod block) 0"
proof (induction block r p rule: pad_zeros.induct)
  case (1 block r p)
  let ?l = "length p mod block"
  have l: "?l < block" using "1.prems" by simp
  show ?case
  proof (cases "?l = r")
    case True
    then show ?thesis by (subst pad_zeros.simps) simp
  next
    case False
    let ?k = "\<lambda>n. (r + block - n mod block) mod block"
    have "?k (length p) = Suc (?k (Suc (length p)))"
      using pad_step [OF l "1.prems"(2) False] by (simp add: mod_Suc)
    moreover have "pad_zeros block r p = pad_zeros block r (p @ [0])"
      using False "1.prems" by (subst pad_zeros.simps) simp
    moreover have "pad_zeros block r (p @ [0]) = (p @ [0]) @ replicate (?k (length (p @ [0]))) 0"
      using False "1.prems" by (intro "1.IH") auto
    ultimately show ?thesis by simp
  qed
qed

lemma pad_zeros_fips: "0 < block \<Longrightarrow> r < block \<Longrightarrow> pad_zeros block r (msg @ [0x80]) = fips_pad block r msg"
  by (simp add: pad_zeros_count fips_pad_def)

lemma length_fips_pad: "0 < block \<Longrightarrow> r < block \<Longrightarrow> length (fips_pad block r msg) mod block = r"
proof -
  assume b: "0 < block" "r < block"
  let ?n = "length msg + 1"
  have le: "?n mod block \<le> r + block" using b by (simp add: less_imp_le trans_le_add2)
  have "(?n + (r + block - ?n mod block) mod block) mod block = (?n + (r + block - ?n mod block)) mod block"
    by (rule mod_add_right_eq)
  also have "\<dots> = (?n mod block + (r + block - ?n mod block)) mod block"
    by (rule mod_add_left_eq [symmetric])
  also have "\<dots> = (r + block) mod block" by (simp only: le_add_diff_inverse [OF le])
  finally show ?thesis using b by (simp add: fips_pad_def)
qed

lemma blocks_of_fips: "0 < n \<Longrightarrow> n dvd length bs \<Longrightarrow> blocks_of n bs = fips_blocks n bs"
proof (induction n bs rule: blocks_of.induct)
  case (1 n bs)
  show ?case
  proof (cases "bs = []")
    case True
    then show ?thesis by (subst blocks_of.simps) (simp add: fips_blocks_def)
  next
    case False
    with "1.prems" obtain k where k: "length bs = n * Suc k"
      by (metis dvd_def length_0_conv mult_0_right not0_implies_Suc)
    have "blocks_of n (drop n bs) = fips_blocks n (drop n bs)"
      using "1.prems" False k by (intro "1.IH") auto
    moreover have "fips_blocks n bs = take n bs # fips_blocks n (drop n bs)"
      using k "1.prems"(1)
      by (simp add: fips_blocks_def upt_conv_Cons map_Suc_upt [symmetric] add.commute del: upt_Suc)
    ultimately show ?thesis using "1.prems" False by (subst blocks_of.simps) simp
  qed
qed

text \<open>The hash functions of section 6, over the recurrence and the arithmetic padding.\<close>

definition fips_sha256 :: "u8 list \<Rightarrow> u8 list" where
  "fips_sha256 msg =
     concat (map be32 (foldl (\<lambda>h block.
         map2 (+) h (fold (\<lambda>t. round_step
             (\<lambda>a. rotr 2 a XOR rotr 13 a XOR rotr 22 a) (\<lambda>e. rotr 6 e XOR rotr 11 e XOR rotr 25 e)
             (K256 ! t + fips_W (\<lambda>x. rotr 7 x XOR rotr 18 x XOR drop_bit 3 x)
                                (\<lambda>x. rotr 17 x XOR rotr 19 x XOR drop_bit 10 x)
                                (map (\<lambda>i. u32_at block (i * 4)) [0..<16]) t)) [0..<64] h))
       H256 (fips_blocks 64 (fips_pad 64 56 msg @ u64_bytes (8 * of_nat (length msg))))))"

definition fips_sha512 :: "u64 list \<Rightarrow> u8 list \<Rightarrow> u8 list" where
  "fips_sha512 iv msg =
     concat (map u64_bytes (foldl (\<lambda>h block.
         map2 (+) h (fold (\<lambda>t. round_step
             (\<lambda>a. rotr 28 a XOR rotr 34 a XOR rotr 39 a) (\<lambda>e. rotr 14 e XOR rotr 18 e XOR rotr 41 e)
             (K512 ! t + fips_W (\<lambda>x. rotr 1 x XOR rotr 8 x XOR drop_bit 7 x)
                                (\<lambda>x. rotr 19 x XOR rotr 61 x XOR drop_bit 6 x)
                                (map (\<lambda>i. u64_at block (i * 8)) [0..<16]) t)) [0..<80] h))
       iv (fips_blocks 128 (fips_pad 128 112 msg @ u64_bytes 0 @ u64_bytes (8 * of_nat (length msg))))))"

lemma length_u64_bytes [simp]: "length (u64_bytes w) = 8"
  by (simp add: u64_bytes_def)

lemma sha256_padded_blocks:
  "blocks_of 64 (sha256_padded msg) =
    fips_blocks 64 (fips_pad 64 56 msg @ u64_bytes (8 * of_nat (length msg)))"
proof -
  have pad: "sha256_padded msg = fips_pad 64 56 msg @ u64_bytes (8 * of_nat (length msg))"
    by (simp add: sha256_padded_def pad_zeros_fips mult.commute)
  have "(length (fips_pad 64 56 msg) + 8) mod 64 = 0"
    using length_fips_pad [of 64 56 msg] by presburger
  then have "64 dvd length (fips_pad 64 56 msg @ u64_bytes (8 * of_nat (length msg)))"
    by (simp add: dvd_eq_mod_eq_0)
  with pad show ?thesis by (simp add: blocks_of_fips)
qed

lemma sha512_padded_blocks:
  "blocks_of 128 (sha512_padded msg) =
    fips_blocks 128 (fips_pad 128 112 msg @ u64_bytes 0 @ u64_bytes (8 * of_nat (length msg)))"
proof -
  have pad: "sha512_padded msg = fips_pad 128 112 msg @ u64_bytes 0 @ u64_bytes (8 * of_nat (length msg))"
    by (simp add: sha512_padded_def pad_zeros_fips mult.commute)
  have "(length (fips_pad 128 112 msg) + 16) mod 128 = 0"
    using length_fips_pad [of 128 112 msg] by presburger
  then have "128 dvd length (fips_pad 128 112 msg @ u64_bytes 0 @ u64_bytes (8 * of_nat (length msg)))"
    by (simp add: dvd_eq_mod_eq_0)
  with pad show ?thesis by (simp add: blocks_of_fips)
qed

lemma sha256_schedule_eq:
  "sha256_schedule block = map (fips_W (\<lambda>x. rotr 7 x XOR rotr 18 x XOR drop_bit 3 x)
     (\<lambda>x. rotr 17 x XOR rotr 19 x XOR drop_bit 10 x) (map (\<lambda>i. u32_at block (i * 4)) [0..<16])) [0..<64]"
  unfolding sha256_schedule_def by (rule c256.schedule_fips) simp_all

lemma sha512_schedule_eq:
  "sha512_schedule block = map (fips_W (\<lambda>x. rotr 1 x XOR rotr 8 x XOR drop_bit 7 x)
     (\<lambda>x. rotr 19 x XOR rotr 61 x XOR drop_bit 6 x) (map (\<lambda>i. u64_at block (i * 8)) [0..<16])) [0..<80]"
  unfolding sha512_schedule_def by (rule c512.schedule_fips) simp_all

lemma nth_map_upt_less: "t \<in> set [0..<n] \<Longrightarrow> map f [0..<n] ! t = f t"
  by simp

lemma foldl_fold_blocks: "fold f bs h = foldl (\<lambda>h b. f b h) h bs"
  by (induction bs arbitrary: h) simp_all


text \<open>
  The published test vector of FIPS 180-4 for the message \<open>abc\<close>, computed by the model: every
  constant, rotation and initial value of \<open>sha256\<close> takes part in it.
\<close>

lemma sha256_abc:
  "sha256 (str_bytes ''abc'') =
    [0xba, 0x78, 0x16, 0xbf, 0x8f, 0x01, 0xcf, 0xea, 0x41, 0x41, 0x40, 0xde, 0x5d, 0xae, 0x22, 0x23,
     0xb0, 0x03, 0x61, 0xa3, 0x96, 0x17, 0x7a, 0x9c, 0xb4, 0x10, 0xff, 0x61, 0xf2, 0x00, 0x15, 0xad]"
  by code_simp

end
