(* ===== verification/Dnssec.thy ===== *)
theory Dnssec
  imports Sha2 "HOL-Library.List_Lexorder"
begin

text \<open>
  \<open>src/src/dnssec.rs\<close> and \<open>src/src/anchor.rs\<close>: signature validation of an RRset, DS matching and
  the chain of trust from the pinned root keys.  The public-key primitives of the crypto crates are
  the record \<open>crypto\<close>; \<open>None\<close> is a key or signature they reject as malformed.  The clock is the
  argument \<open>now\<close>, the closure \<open>fetch\<close> a function.
\<close>

section \<open>Constants, results and primitives\<close>

definition ALG_RSAMD5 :: u8 where "ALG_RSAMD5 = 1"
definition ALG_RSASHA256 :: u8 where "ALG_RSASHA256 = 8"
definition ALG_RSASHA512 :: u8 where "ALG_RSASHA512 = 10"
definition ALG_ECDSAP256SHA256 :: u8 where "ALG_ECDSAP256SHA256 = 13"
definition ALG_ECDSAP384SHA384 :: u8 where "ALG_ECDSAP384SHA384 = 14"
definition ALG_ED25519 :: u8 where "ALG_ED25519 = 15"
definition DIGEST_SHA256 :: u8 where "DIGEST_SHA256 = 2"
definition DIGEST_SHA384 :: u8 where "DIGEST_SHA384 = 4"

lemmas alg_defs = ALG_RSAMD5_def ALG_RSASHA256_def ALG_RSASHA512_def ALG_ECDSAP256SHA256_def
  ALG_ECDSAP384SHA384_def ALG_ED25519_def

datatype bogus_reason =
    SignatureMismatch | NoValidRrsig | DsDigestMismatch u16 | NoRootKeys | RootNotAnchored
  | DsInvalid string | NoDnskey string | DnskeyNotChained string | DnskeySelfSignature string

datatype ValidationResult = Secure | Insecure | Bogus bogus_reason | Indeterminate

datatype RsaHash = Sha256 | Sha512

record crypto =
  rsa_check :: "RsaHash \<Rightarrow> u8 list \<Rightarrow> u8 list \<Rightarrow> u8 list \<Rightarrow> u8 list \<Rightarrow> bool option"
  p256_check :: "u8 list \<Rightarrow> u8 list \<Rightarrow> u8 list \<Rightarrow> bool option"
  p384_check :: "u8 list \<Rightarrow> u8 list \<Rightarrow> u8 list \<Rightarrow> bool option"
  ed25519_check :: "u8 list \<Rightarrow> u8 list \<Rightarrow> u8 list \<Rightarrow> bool option"

section \<open>verify_signature\<close>

datatype verify_error =
    EmptyKey | KeyTooShort | ExponentTruncated | BadLength | CryptoError | Prohibited | Unsupported u8

text \<open>RFC 3110: one or three bytes of exponent length, exponent, modulus.\<close>

definition parse_rsa_pubkey :: "u8 list \<Rightarrow> verify_error + u8 list \<times> u8 list" where
  "parse_rsa_pubkey key =
     (if key = [] then Inl EmptyKey
      else if key ! 0 = 0 \<and> length key < 3 then Inl KeyTooShort
      else let (exp_len, rest) =
             (if key ! 0 = 0 then (256 * unat (key ! 1) + unat (key ! 2), drop 3 key)
              else (unat (key ! 0), drop 1 key))
           in if length rest < exp_len then Inl ExponentTruncated
              else Inr (take exp_len rest, drop exp_len rest))"

definition checked :: "bool option \<Rightarrow> verify_error + bool" where
  "checked r = (case r of None \<Rightarrow> Inl CryptoError | Some b \<Rightarrow> Inr b)"

definition verify_rsa :: "crypto \<Rightarrow> u8 list \<Rightarrow> u8 list \<Rightarrow> u8 list \<Rightarrow> RsaHash \<Rightarrow> verify_error + bool" where
  "verify_rsa cr pubkey data sg h =
     (case parse_rsa_pubkey pubkey of
        Inl e \<Rightarrow> Inl e
      | Inr (ex, modulus) \<Rightarrow>
          checked (rsa_check cr h modulus ex (case h of Sha256 \<Rightarrow> sha256 data | Sha512 \<Rightarrow> sha512 data) sg))"

definition verify_ecdsa_p256 :: "crypto \<Rightarrow> u8 list \<Rightarrow> u8 list \<Rightarrow> u8 list \<Rightarrow> verify_error + bool" where
  "verify_ecdsa_p256 cr pubkey data sg =
     (if length pubkey \<noteq> 64 then Inl BadLength
      else if length sg \<noteq> 64 then Inl BadLength
      else checked (p256_check cr (0x04 # pubkey) data sg))"

definition verify_ecdsa_p384 :: "crypto \<Rightarrow> u8 list \<Rightarrow> u8 list \<Rightarrow> u8 list \<Rightarrow> verify_error + bool" where
  "verify_ecdsa_p384 cr pubkey data sg =
     (if length pubkey \<noteq> 96 then Inl BadLength
      else if length sg \<noteq> 96 then Inl BadLength
      else checked (p384_check cr (0x04 # pubkey) data sg))"

definition verify_ed25519 :: "crypto \<Rightarrow> u8 list \<Rightarrow> u8 list \<Rightarrow> u8 list \<Rightarrow> verify_error + bool" where
  "verify_ed25519 cr pubkey data sg =
     (if length pubkey \<noteq> 32 then Inl BadLength
      else if length sg \<noteq> 64 then Inl BadLength
      else checked (ed25519_check cr pubkey data sg))"

definition verify_signature :: "crypto \<Rightarrow> u8 \<Rightarrow> u8 list \<Rightarrow> u8 list \<Rightarrow> u8 list \<Rightarrow> verify_error + bool" where
  "verify_signature cr alg pubkey data sg =
     (if alg = ALG_RSASHA256 then verify_rsa cr pubkey data sg Sha256
      else if alg = ALG_RSASHA512 then verify_rsa cr pubkey data sg Sha512
      else if alg = ALG_ECDSAP256SHA256 then verify_ecdsa_p256 cr pubkey data sg
      else if alg = ALG_ECDSAP384SHA384 then verify_ecdsa_p384 cr pubkey data sg
      else if alg = ALG_ED25519 then verify_ed25519 cr pubkey data sg
      else if alg = ALG_RSAMD5 then Inl Prohibited
      else Inl (Unsupported alg))"

section \<open>build_signed_data\<close>

text \<open>\<open>rrs.sort()\<close> on byte vectors.\<close>

definition signed_rr :: "rrsig_fields \<Rightarrow> rr \<Rightarrow> u8 list" where
  "signed_rr rrsig r = canonical_rr (r\<lparr>r_ttl := orig_ttl rrsig\<rparr>)"

definition build_signed_data :: "rrsig_fields \<Rightarrow> rr list \<Rightarrow> u8 list" where
  "build_signed_data rrsig rrset =
     be16 (type_covered rrsig) @ [sig_algorithm rrsig, sig_labels rrsig] @ be32 (orig_ttl rrsig) @
     be32 (sig_expiry rrsig) @ be32 (sig_inception rrsig) @ be16 (sig_key_tag rrsig) @
     b_name (signer_name rrsig) @ concat (sort (map (signed_rr rrsig) rrset))"

section \<open>Validator::validate_rrset\<close>

definition key_matches :: "rrsig_fields \<Rightarrow> rr \<Rightarrow> bool" where
  "key_matches rrsig dk =
     (case parse_dnskey (r_rdata dk) of
        Inr key \<Rightarrow> key_tag (r_rdata dk) = sig_key_tag rrsig \<and> dk_algorithm key = sig_algorithm rrsig
      | Inl _ \<Rightarrow> False)"

text \<open>One signature: \<open>None\<close> is \<open>continue\<close>.\<close>

definition check_rrsig :: "crypto \<Rightarrow> u64 \<Rightarrow> rr list \<Rightarrow> rr list \<Rightarrow> rr \<Rightarrow> ValidationResult option" where
  "check_rrsig cr now rrset dnskeys sig_rec =
     (case parse_rrsig (r_rdata sig_rec) of Inl _ \<Rightarrow> None | Inr rrsig \<Rightarrow>
        if now < ucast (sig_inception rrsig) then None
        else if now > ucast (sig_expiry rrsig) then None
        else (case find (key_matches rrsig) dnskeys of None \<Rightarrow> None | Some dk \<Rightarrow>
               (case parse_dnskey (r_rdata dk) of Inl _ \<Rightarrow> None | Inr key \<Rightarrow>
                 (case verify_signature cr (sig_algorithm rrsig) (public_key key)
                         (build_signed_data rrsig rrset) (signature rrsig) of
                    Inr True \<Rightarrow> Some Secure
                  | Inr False \<Rightarrow> Some (Bogus SignatureMismatch)
                  | Inl _ \<Rightarrow> None))))"

fun check_rrsigs :: "crypto \<Rightarrow> u64 \<Rightarrow> rr list \<Rightarrow> rr list \<Rightarrow> rr list \<Rightarrow> ValidationResult" where
  "check_rrsigs cr now rrset dnskeys [] = Bogus NoValidRrsig"
| "check_rrsigs cr now rrset dnskeys (s # sigs) =
     (case check_rrsig cr now rrset dnskeys s of
        Some res \<Rightarrow> res | None \<Rightarrow> check_rrsigs cr now rrset dnskeys sigs)"

definition validate_rrset :: "crypto \<Rightarrow> u64 \<Rightarrow> rr list \<Rightarrow> rr list \<Rightarrow> rr list \<Rightarrow> ValidationResult" where
  "validate_rrset cr now rrset rrsigs dnskeys =
     (if rrset = [] \<or> rrsigs = [] \<or> dnskeys = [] then Insecure
      else check_rrsigs cr now rrset dnskeys rrsigs)"

section \<open>Validator::validate_dnskey_with_ds\<close>

definition ds_digest :: "u8 \<Rightarrow> rr \<Rightarrow> u8 list" where
  "ds_digest dt key_rec =
     (let preimage = canonical_name (r_name key_rec) @ r_rdata key_rec
      in if dt = DIGEST_SHA256 then sha256 preimage else sha384 preimage)"

fun ds_keys :: "ds_fields \<Rightarrow> rr list \<Rightarrow> ValidationResult option" where
  "ds_keys ds [] = None"
| "ds_keys ds (key_rec # keys) =
     (case parse_dnskey (r_rdata key_rec) of Inl _ \<Rightarrow> ds_keys ds keys | Inr dnskey \<Rightarrow>
        if key_tag (r_rdata key_rec) \<noteq> ds_key_tag ds \<or> dk_algorithm dnskey \<noteq> ds_algorithm ds
        then ds_keys ds keys
        else if ds_digest (digest_type ds) key_rec = digest ds then Some Secure
        else Some (Bogus (DsDigestMismatch (ds_key_tag ds))))"

fun validate_dnskey_with_ds :: "rr list \<Rightarrow> rr list \<Rightarrow> ValidationResult" where
  "validate_dnskey_with_ds dnskeys [] = Insecure"
| "validate_dnskey_with_ds dnskeys (ds_rec # ds_recs) =
     (case parse_ds (r_rdata ds_rec) of Inl _ \<Rightarrow> validate_dnskey_with_ds dnskeys ds_recs | Inr ds \<Rightarrow>
        if digest_type ds \<noteq> DIGEST_SHA256 \<and> digest_type ds \<noteq> DIGEST_SHA384
        then validate_dnskey_with_ds dnskeys ds_recs
        else (case ds_keys ds dnskeys of
                Some res \<Rightarrow> res | None \<Rightarrow> validate_dnskey_with_ds dnskeys ds_recs))"

section \<open>The trust anchors\<close>

record root_anchor =
  ra_key_tag :: u16
  ra_algorithm :: u8
  ra_digest_type :: u8
  ra_digest_hex :: string

definition root_anchors :: "root_anchor list" where
  "root_anchors =
     [\<lparr>ra_key_tag = 20326, ra_algorithm = 8, ra_digest_type = 2,
       ra_digest_hex = ''e06d44b80b8f1d39a95c0b0d7c65d08458e880409bbc683457104237c7f8ec8d''\<rparr>,
      \<lparr>ra_key_tag = 38696, ra_algorithm = 8, ra_digest_type = 2,
       ra_digest_hex = ''683d2d0acb8c9b712a1948b27f741219298d0a450d612c483af444a4c0fb2b16''\<rparr>]"

text \<open>\<open>hex::decode\<close> on the static lower-case digits above.\<close>

definition hex_digit :: "char \<Rightarrow> u8" where
  "hex_digit c = (let n = byte_of_char c in if n \<le> 57 then n - 48 else n - 87)"

fun hex_decode_static :: "string \<Rightarrow> u8 list" where
  "hex_decode_static (a # b # cs) = (16 * hex_digit a + hex_digit b) # hex_decode_static cs"
| "hex_decode_static cs = []"

definition as_ds_record :: "root_anchor \<Rightarrow> rr" where
  "as_ds_record a =
     \<lparr>r_name = ''.'', r_type = DS, r_class = CLASS_IN, r_ttl = 172800,
      r_rdata = be16 (ra_key_tag a) @ [ra_algorithm a, ra_digest_type a] @ hex_decode_static (ra_digest_hex a)\<rparr>"

definition validate_root_dnskeys :: "rr list \<Rightarrow> ValidationResult" where
  "validate_root_dnskeys dnskeys = validate_dnskey_with_ds dnskeys (map as_ds_record root_anchors)"

section \<open>Validator::chain_validate\<close>

type_synonym fetch = "string \<Rightarrow> RType \<Rightarrow> rr list \<times> rr list"

definition child_name :: "string \<Rightarrow> string \<Rightarrow> string" where
  "child_name label current = (if current = ''.'' then label @ ''.'' else label @ ''.'' @ current)"

text \<open>One zone cut: the child's keys, or the result that ends the walk.\<close>

definition chain_step :: "crypto \<Rightarrow> u64 \<Rightarrow> fetch \<Rightarrow> rr list \<Rightarrow> string \<Rightarrow> ValidationResult + rr list" where
  "chain_step cr now fetch parent_keys child =
     (let (ds, ds_sigs) = fetch child DS in
      if ds = [] then Inl Insecure
      else if validate_rrset cr now ds ds_sigs parent_keys \<noteq> Secure then Inl (Bogus (DsInvalid child))
      else let (child_keys, child_sigs) = fetch child DNSKEY in
        if child_keys = [] then Inl (Bogus (NoDnskey child))
        else if validate_dnskey_with_ds child_keys ds \<noteq> Secure then Inl (Bogus (DnskeyNotChained child))
        else if validate_rrset cr now child_keys child_sigs child_keys \<noteq> Secure
        then Inl (Bogus (DnskeySelfSignature child))
        else Inr child_keys)"

fun chain_walk :: "crypto \<Rightarrow> u64 \<Rightarrow> fetch \<Rightarrow> string \<Rightarrow> string list \<Rightarrow> rr list \<Rightarrow> string \<Rightarrow>
    ValidationResult + rr list" where
  "chain_walk cr now fetch owner [] parent_keys current = Inr parent_keys"
| "chain_walk cr now fetch owner (label # labels) parent_keys current =
     (let child = child_name label current in
      case chain_step cr now fetch parent_keys child of
        Inl res \<Rightarrow> Inl res
      | Inr child_keys \<Rightarrow>
          if trim_end_dots child = trim_end_dots owner then Inr child_keys
          else chain_walk cr now fetch owner labels child_keys child)"

definition chain_validate :: "crypto \<Rightarrow> u64 \<Rightarrow> string \<Rightarrow> rr list \<Rightarrow> rr list \<Rightarrow> fetch \<Rightarrow> ValidationResult" where
  "chain_validate cr now owner rrset rrsigs fetch =
     (let (root_keys, root_sigs) = fetch ''.'' DNSKEY in
      if root_keys = [] then Bogus NoRootKeys
      else if validate_root_dnskeys root_keys \<noteq> Secure then Bogus RootNotAnchored
      else case chain_walk cr now fetch owner (rev (split_dots (trim_end_dots owner))) root_keys ''.'' of
             Inl res \<Rightarrow> res
           | Inr keys \<Rightarrow> validate_rrset cr now rrset rrsigs keys)"

section \<open>Signed data\<close>

lemma build_signed_data_mset:
  assumes "mset (map (\<lambda>r. (to_lower (r_name r), r_type r, r_class r, r_rdata r)) rrset) =
    mset (map (\<lambda>r. (to_lower (r_name r), r_type r, r_class r, r_rdata r)) rrset')"
  shows "build_signed_data rrsig rrset = build_signed_data rrsig rrset'"
proof -
  define g where "g = (\<lambda>(n, t, c, rdat). b_name n @ be16 (rtype_to t) @ be16 c @ be32 (orig_ttl rrsig) @
    be16 (of_nat (length rdat)) @ rdat)"
  have g: "map (signed_rr rrsig) rs = map g (map (\<lambda>r. (to_lower (r_name r), r_type r, r_class r, r_rdata r)) rs)"
    for rs
    by (simp add: g_def signed_rr_def canonical_rr_def)
  have "mset (map (signed_rr rrsig) rrset) = mset (map (signed_rr rrsig) rrset')"
    unfolding g mset_map assms [unfolded mset_map] ..
  then have "sort (map (signed_rr rrsig) rrset) = sort (map (signed_rr rrsig) rrset')"
    by (metis mset_sort properties_for_sort sorted_sort)
  then show ?thesis by (simp add: build_signed_data_def)
qed

text \<open>
  What is signed depends only on the records as a multiset, not on the order in which a server
  sent them, nor on their TTLs or the case of their owner names: RFC 4034 section 6.
\<close>

theorem build_signed_data_canonical:
  assumes "mset (map (\<lambda>r. (to_lower (r_name r), r_type r, r_class r, r_rdata r)) rrset) =
    mset (map (\<lambda>r. (to_lower (r_name r), r_type r, r_class r, r_rdata r)) rrset')"
  shows "build_signed_data rrsig rrset = build_signed_data rrsig rrset'"
  using assms by (rule build_signed_data_mset)

definition two_hosts :: "rr list" where
  "two_hosts = [\<lparr>r_name = ''h.e'', r_type = A, r_class = 1, r_ttl = 60, r_rdata = [192, 0, 2, 1]\<rparr>,
     \<lparr>r_name = ''H.e'', r_type = A, r_class = 1, r_ttl = 30, r_rdata = [192, 0, 2, 2]\<rparr>]"

lemma build_signed_data_canonical_witness:
  "\<forall>sg. build_signed_data sg two_hosts = build_signed_data sg (map (\<lambda>r. r\<lparr>r_ttl := 0\<rparr>) (rev two_hosts))"
  by (intro allI build_signed_data_canonical) (simp add: two_hosts_def)

text \<open>
  The order RFC 4034 section 6.3 asks for compares the rdata only; the program sorts whole records,
  in which the rdata length comes first.
\<close>

definition rfc4034_signed_data :: "rrsig_fields \<Rightarrow> rr list \<Rightarrow> u8 list" where
  "rfc4034_signed_data rrsig rrset =
     build_signed_data rrsig [] @ concat (map (signed_rr rrsig) (sort_key r_rdata rrset))"

lemma build_signed_data_split:
  "build_signed_data rrsig rrset = build_signed_data rrsig [] @ concat (sort (map (signed_rr rrsig) rrset))"
  by (simp add: build_signed_data_def)

lemma append_le_append [simp]: "(xs :: 'a::linorder list) @ ys \<le> xs @ zs \<longleftrightarrow> ys \<le> zs"
  by (induction xs) auto

lemma sort_map_mono:
  assumes "\<And>x y. x \<in> set xs \<Longrightarrow> y \<in> set xs \<Longrightarrow> k x \<le> k y \<Longrightarrow> f x \<le> f y"
  shows "sort (map f xs) = map f (sort_key k xs)"
proof (rule properties_for_sort)
  show "mset (map f (sort_key k xs)) = mset (map f xs)" by simp
  have "sorted_wrt (\<lambda>x y. k x \<le> k y) (sort_key k xs)" using sorted_sort_key [of k xs] by (simp add: sorted_map)
  then have "sorted_wrt (\<lambda>x y. f x \<le> f y) (sort_key k xs)"
    using assms by (elim sorted_wrt_mono_rel [rotated]) auto
  then show "sorted (map f (sort_key k xs))" by (simp add: sorted_wrt_map)
qed

text \<open>
  For an RRset whose records all have rdata of one length, such as A, AAAA or DS records of
  one digest type, what is signed is the canonical form in the canonical order of RFC 4034.
\<close>

theorem signed_data_rfc4034:
  assumes "\<forall>r\<in>set rrset. to_lower (r_name r) = owner \<and> r_type r = t \<and> r_class r = c \<and> length (r_rdata r) = n"
  shows "build_signed_data rrsig rrset = rfc4034_signed_data rrsig rrset"
proof -
  have "signed_rr rrsig r \<le> signed_rr rrsig r'"
    if "r \<in> set rrset" "r' \<in> set rrset" "r_rdata r \<le> r_rdata r'" for r r'
    using that assms by (simp add: signed_rr_def canonical_rr_def flip: append_assoc)
  then have "sort (map (signed_rr rrsig) rrset) = map (signed_rr rrsig) (sort_key r_rdata rrset)"
    by (rule sort_map_mono)
  then show ?thesis unfolding rfc4034_signed_data_def by (subst build_signed_data_split) simp
qed

lemma two_hosts_lower: "to_lower ''H.e'' = ''h.e''" "to_lower ''h.e'' = ''h.e''"
  by code_simp+

lemma signed_data_rfc4034_witness: "\<forall>sg. build_signed_data sg two_hosts = rfc4034_signed_data sg two_hosts"
  by (intro allI signed_data_rfc4034 [where owner = "''h.e''" and t = A and c = 1 and n = 4])
    (simp add: two_hosts_def two_hosts_lower)

definition two_servers :: "rr list" where
  "two_servers = [\<lparr>r_name = ''e'', r_type = NS, r_class = 1, r_ttl = 60, r_rdata = [1, 98, 0]\<rparr>,
     \<lparr>r_name = ''e'', r_type = NS, r_class = 1, r_ttl = 60, r_rdata = [1, 97, 1, 97, 0]\<rparr>]"

text \<open>
  Otherwise the shorter rdata comes first: for the name servers \<open>b.\<close> and \<open>a.a.\<close> of a zone the
  data differ from what a conforming signer has signed, so its signature is taken for a forgery.
\<close>

theorem signed_data_length_first: "build_signed_data rrsig two_servers \<noteq> rfc4034_signed_data rrsig two_servers"
proof -
  have "sort_key r_rdata two_servers = rev two_servers" by (simp add: two_servers_def)
  moreover have "sort (map (signed_rr rrsig) two_servers) = map (signed_rr rrsig) two_servers"
    by (simp add: two_servers_def signed_rr_def canonical_rr_def be16_def)
  ultimately show ?thesis
    unfolding rfc4034_signed_data_def
    by (subst build_signed_data_split) (simp add: two_servers_def signed_rr_def canonical_rr_def be16_def)
qed

section \<open>Validation of one RRset\<close>

text \<open>
  A genuine signature: inside its validity window and verified, over the canonical form of this
  RRset, under the first key of its tag and algorithm.
\<close>

definition genuine :: "crypto \<Rightarrow> u64 \<Rightarrow> rr list \<Rightarrow> rr list \<Rightarrow> rr \<Rightarrow> bool" where
  "genuine cr now rrset dnskeys s \<longleftrightarrow>
     (\<exists>rrsig dk key. parse_rrsig (r_rdata s) = Inr rrsig \<and>
        ucast (sig_inception rrsig) \<le> now \<and> now \<le> ucast (sig_expiry rrsig) \<and>
        find (key_matches rrsig) dnskeys = Some dk \<and> parse_dnskey (r_rdata dk) = Inr key \<and>
        verify_signature cr (sig_algorithm rrsig) (public_key key) (build_signed_data rrsig rrset)
          (signature rrsig) = Inr True)"

lemma check_rrsig_Secure: "check_rrsig cr now rrset dnskeys s = Some Secure \<longleftrightarrow> genuine cr now rrset dnskeys s"
  by (auto simp: check_rrsig_def genuine_def not_less split: sum.splits option.splits bool.splits if_splits)

lemma check_rrsig_cases:
  "check_rrsig cr now rrset dnskeys s \<in> {None, Some Secure, Some (Bogus SignatureMismatch)}"
  by (auto simp: check_rrsig_def split: sum.splits option.splits bool.splits if_splits)

lemma first_hit:
  "(\<exists>pre s post. x # xs = pre @ s # post \<and> (\<forall>y\<in>set pre. P y) \<and> Q s) \<longleftrightarrow>
    Q x \<or> P x \<and> (\<exists>pre s post. xs = pre @ s # post \<and> (\<forall>y\<in>set pre. P y) \<and> Q s)" (is "?l \<longleftrightarrow> ?r")
proof
  assume ?l
  then obtain pre s post where *: "x # xs = pre @ s # post" "\<forall>y\<in>set pre. P y" "Q s" by blast
  then show ?r by (cases pre) auto
next
  assume ?r
  then show ?l
  proof
    assume "Q x"
    then show ?l by (intro exI [of _ "[]"] exI [of _ x] exI [of _ xs]) simp
  next
    assume "P x \<and> (\<exists>pre s post. xs = pre @ s # post \<and> (\<forall>y\<in>set pre. P y) \<and> Q s)"
    then obtain pre s post where "P x" "xs = pre @ s # post" "\<forall>y\<in>set pre. P y" "Q s" by blast
    then show ?l by (intro exI [of _ "x # pre"] exI [of _ s] exI [of _ post]) simp
  qed
qed

lemma check_rrsigs_Secure:
  "check_rrsigs cr now rrset dnskeys sigs = Secure \<longleftrightarrow>
    (\<exists>pre s post. sigs = pre @ s # post \<and> (\<forall>x\<in>set pre. check_rrsig cr now rrset dnskeys x = None) \<and>
      genuine cr now rrset dnskeys s)"
proof (induction sigs)
  case (Cons s sigs)
  show ?case
    using Cons check_rrsig_Secure [of cr now rrset dnskeys s]
    unfolding first_hit by (cases "check_rrsig cr now rrset dnskeys s") auto
qed simp

text \<open>
  An RRset is Secure exactly when some signature is genuine and every signature before it was
  skipped, because it does not parse, is outside its validity window, has no matching key or uses
  an unusable algorithm or key.
\<close>

theorem validate_rrset_secure:
  "validate_rrset cr now rrset rrsigs dnskeys = Secure \<longleftrightarrow>
    rrset \<noteq> [] \<and> (\<exists>pre s post. rrsigs = pre @ s # post \<and>
      list_all (\<lambda>x. check_rrsig cr now rrset dnskeys x = None) pre \<and> genuine cr now rrset dnskeys s)"
proof -
  have "genuine cr now rrset dnskeys s \<Longrightarrow> dnskeys \<noteq> []" for s by (auto simp: genuine_def)
  then show ?thesis by (auto simp: validate_rrset_def check_rrsigs_Secure list_all_iff)
qed

section \<open>The chain of trust\<close>

text \<open>
  \<open>trust_path labels keys\<close>: the keys of the zone with these labels (leaf first) are trusted.  The
  root's are trusted when they match a pinned anchor; a child's when the parent's trusted keys sign
  its DS set, the DS set matches a key of the child, and the child's keys sign themselves.
\<close>

definition fqdn_of :: "string list \<Rightarrow> string" where
  "fqdn_of labels = join_dots labels @ ''.''"

fun trust_path :: "crypto \<Rightarrow> u64 \<Rightarrow> fetch \<Rightarrow> string list \<Rightarrow> rr list \<Rightarrow> bool" where
  "trust_path cr now fetch [] keys \<longleftrightarrow>
     keys = fst (fetch ''.'' DNSKEY) \<and> keys \<noteq> [] \<and> validate_root_dnskeys keys = Secure"
| "trust_path cr now fetch (label # labels) keys \<longleftrightarrow>
     (\<exists>parent_keys. trust_path cr now fetch labels parent_keys \<and>
        (let z = fqdn_of (label # labels); (ds, ds_sigs) = fetch z DS; (ks, ks_sigs) = fetch z DNSKEY
         in validate_rrset cr now ds ds_sigs parent_keys = Secure \<and> keys = ks \<and>
            validate_dnskey_with_ds ks ds = Secure \<and> validate_rrset cr now ks ks_sigs ks = Secure))"

lemma validate_rrset_nonempty: "validate_rrset cr now rrset sigs keys = Secure \<Longrightarrow> rrset \<noteq> []"
  by (auto simp: validate_rrset_def)

lemma chain_step_Inr:
  "chain_step cr now fetch pk z = Inr keys \<longleftrightarrow>
    (let (ds, ds_sigs) = fetch z DS; (ks, ks_sigs) = fetch z DNSKEY
     in validate_rrset cr now ds ds_sigs pk = Secure \<and> keys = ks \<and>
        validate_dnskey_with_ds ks ds = Secure \<and> validate_rrset cr now ks ks_sigs ks = Secure)"
proof -
  obtain ds ds_sigs where d: "fetch z DS = (ds, ds_sigs)" by fastforce
  obtain ks ks_sigs where k: "fetch z DNSKEY = (ks, ks_sigs)" by fastforce
  show ?thesis
  proof (cases "ds = [] \<or> ks = []")
    case True
    then show ?thesis
      using validate_rrset_nonempty [of cr now ds ds_sigs pk] validate_rrset_nonempty [of cr now ks ks_sigs ks]
      by (auto simp: chain_step_def d k)
  next
    case False
    then show ?thesis by (auto simp: chain_step_def d k)
  qed
qed

lemma chain_step_Inl: "chain_step cr now fetch pk z = Inl res \<Longrightarrow> res \<noteq> Secure"
  by (auto simp: chain_step_def Let_def split: prod.splits if_splits)

lemma chain_walk_Inl: "chain_walk cr now fetch owner labels pk current = Inl res \<Longrightarrow> res \<noteq> Secure"
  by (induction cr now fetch owner labels pk current rule: chain_walk.induct)
    (auto simp: Let_def chain_step_Inl split: sum.splits if_splits)

text \<open>The name built on the way down is the one of the labels walked so far.\<close>

definition below_root :: "string list \<Rightarrow> string" where
  "below_root labels = (if labels = [] then ''.'' else fqdn_of labels)"

lemma child_name_labels:
  assumes "labels \<noteq> [] \<Longrightarrow> last labels \<noteq> []"
  shows "child_name label (below_root labels) = fqdn_of (label # labels)"
proof (cases labels)
  case (Cons l ls)
  have "join_dots labels \<noteq> []" using assms Cons by (auto simp: join_on_eq_Nil)
  then have "below_root labels \<noteq> ''.''" using Cons by (simp add: below_root_def fqdn_of_def)
  with Cons show ?thesis by (simp add: child_name_def below_root_def fqdn_of_def)
qed (simp add: child_name_def below_root_def fqdn_of_def)

lemma trim_fqdn_of:
  assumes "last (label # labels) \<noteq> [] \<or> labels = []" "\<forall>l\<in>set (label # labels). CHR ''.'' \<notin> set l"
  shows "trim_end_dots (fqdn_of (label # labels)) = join_dots (label # labels)"
proof (cases "last (label # labels) = []")
  case True
  with assms(1) have "labels = []" by blast
  with True show ?thesis by (simp add: fqdn_of_def trim_end_dots_def)
next
  case False
  have "last (join_dots (label # labels)) = last (last (label # labels))"
    using False by (intro last_join_on) auto
  moreover have "last (last (label # labels)) \<in> set (last (label # labels))" using False by simp
  moreover have "last (label # labels) \<in> set (label # labels)" by (rule last_in_set) simp
  ultimately have "last (join_dots (label # labels)) \<noteq> CHR ''.''" using assms(2) by metis
  then show ?thesis by (simp add: fqdn_of_def trim_end_dots_id)
qed

lemma last_label: "split_dots (trim_end_dots s) = [[]] \<or> last (split_dots (trim_end_dots s)) \<noteq> []"
proof (rule ccontr)
  let ?labels = "split_dots (trim_end_dots s)"
  assume *: "\<not> (?labels = [[]] \<or> last ?labels \<noteq> [])"
  then obtain ls where ls: "?labels = ls @ [[]]" by (metis append_butlast_last_id split_on_not_Nil)
  with * have "ls \<noteq> []" by auto
  then have "join_dots (ls @ [[]]) = join_dots ls @ ''.''"
    by (induction "CHR ''.''" ls rule: join_on.induct) auto
  then have "trim_end_dots s = join_dots ls @ ''.''" by (metis ls join_on_split_on)
  with trim_end_dots_last [of s] show False by simp
qed

lemma trim_end_dots_last_label:
  assumes "trim_end_dots s \<noteq> []" shows "last (split_dots (trim_end_dots s)) \<noteq> []"
proof -
  have "split_dots (trim_end_dots s) \<noteq> [[]]" using assms by (metis join_on.simps(2) join_on_split_on)
  with last_label [of s] show ?thesis by blast
qed

lemma trust_path_unique: "trust_path cr now fetch ls k \<Longrightarrow> trust_path cr now fetch ls k' \<Longrightarrow> k = k'"
  by (cases ls) (auto simp: Let_def split: prod.splits)

lemma trust_path_suffix: "trust_path cr now fetch (xs @ ys) k \<Longrightarrow> \<exists>k'. trust_path cr now fetch ys k'"
  by (induction xs arbitrary: k) auto

lemma trust_path_step:
  "trust_path cr now fetch labels pk \<Longrightarrow>
    trust_path cr now fetch (label # labels) keys \<longleftrightarrow>
    chain_step cr now fetch pk (fqdn_of (label # labels)) = Inr keys"
  using trust_path_unique [of cr now fetch labels pk]
  unfolding chain_step_Inr trust_path.simps(2) Let_def by (metis (no_types, lifting))

lemma chain_walk_Inr:
  assumes "trust_path cr now fetch labels pk" "trim_end_dots owner = join_dots (rev todo @ labels)"
    and "\<forall>l\<in>set (rev todo @ labels). CHR ''.'' \<notin> set l"
    and "rev todo @ labels = [[]] \<or> last (rev todo @ labels) \<noteq> [] \<or> todo = []"
  shows "chain_walk cr now fetch owner todo pk (below_root labels) = Inr keys \<longleftrightarrow>
    trust_path cr now fetch (rev todo @ labels) keys"
  using assms
proof (induction todo arbitrary: labels pk)
  case Nil
  then show ?case using trust_path_unique by auto
next
  case (Cons label todo)
  let ?ls = "label # labels"
  have low: "\<forall>l\<in>set ?ls. CHR ''.'' \<notin> set l" using Cons.prems(3) by auto
  have root: "rev todo @ ?ls = [[]] \<Longrightarrow> labels = [] \<and> todo = []" by (cases todo rule: rev_cases) auto
  then have lst: "last ?ls \<noteq> [] \<or> labels = []" using Cons.prems(4) by auto
  have child: "child_name label (below_root labels) = fqdn_of ?ls"
    using lst by (intro child_name_labels) auto
  have below: "fqdn_of ?ls = below_root ?ls" by (simp add: below_root_def)
  have eq: "trim_end_dots (fqdn_of ?ls) = trim_end_dots owner \<longleftrightarrow> todo = []"
  proof -
    have "trim_end_dots (fqdn_of ?ls) = join_dots ?ls" by (rule trim_fqdn_of [OF lst low])
    moreover have "trim_end_dots owner = join_dots (rev todo @ ?ls)" using Cons.prems(2) by simp
    moreover have "split_dots (join_dots ?ls) = ?ls"
      by (rule split_on_join_on) (use low in auto)
    moreover have "split_dots (join_dots (rev todo @ ?ls)) = rev todo @ ?ls"
      by (rule split_on_join_on) (use Cons.prems(3) in auto)
    ultimately have "trim_end_dots (fqdn_of ?ls) = trim_end_dots owner \<longleftrightarrow> ?ls = rev todo @ ?ls"
      by metis
    then show ?thesis by simp
  qed
  show ?case
  proof (cases "chain_step cr now fetch pk (fqdn_of ?ls)")
    case (Inl res)
    have "\<not> trust_path cr now fetch (rev todo @ ?ls) keys"
      using Inl trust_path_suffix [of cr now fetch "rev todo" ?ls keys] trust_path_step [OF Cons.prems(1)]
      by auto
    with Inl show ?thesis by (simp add: child)
  next
    case (Inr ck)
    then have tp: "trust_path cr now fetch ?ls ck" using trust_path_step [OF Cons.prems(1)] by blast
    show ?thesis
    proof (cases "todo = []")
      case True
      have "trust_path cr now fetch ?ls keys \<longleftrightarrow> ck = keys" using trust_path_unique [OF tp] tp by blast
      with True Inr show ?thesis by (simp add: child eq del: trust_path.simps)
    next
      case False
      have "chain_walk cr now fetch owner todo ck (below_root ?ls) = Inr keys \<longleftrightarrow>
          trust_path cr now fetch (rev todo @ ?ls) keys"
        using Cons.prems(2-4) False by (intro Cons.IH [OF tp]) auto
      then show ?thesis using Inr False by (simp add: child eq [unfolded below] below Let_def del: trust_path.simps)
    qed
  qed
qed

lemma chain_validate_Secure_iff:
  "chain_validate cr now owner rrset rrsigs fetch = Secure \<longleftrightarrow>
    (\<exists>keys. trust_path cr now fetch (split_dots (trim_end_dots owner)) keys \<and>
       validate_rrset cr now rrset rrsigs keys = Secure)"
proof -
  let ?labels = "split_dots (trim_end_dots owner)"
  obtain root sigs where r: "fetch ''.'' DNSKEY = (root, sigs)" by fastforce
  show ?thesis
  proof (cases "root \<noteq> [] \<and> validate_root_dnskeys root = Secure")
    case True
    then have tp: "trust_path cr now fetch [] root" by (simp add: r)
    have "?labels = [[]] \<or> last ?labels \<noteq> []" by (rule last_label)
    then have walk: "chain_walk cr now fetch owner (rev ?labels) root (below_root []) = Inr keys \<longleftrightarrow>
        trust_path cr now fetch (rev (rev ?labels) @ []) keys" for keys
      using split_on_no_sep_pieces [of _ "CHR ''.''" "trim_end_dots owner"]
      by (intro chain_walk_Inr [OF tp]) (auto simp del: trust_path.simps)
    have "chain_validate cr now owner rrset rrsigs fetch =
        (case chain_walk cr now fetch owner (rev ?labels) root (below_root []) of
           Inl res \<Rightarrow> res | Inr keys \<Rightarrow> validate_rrset cr now rrset rrsigs keys)"
      using True by (simp add: chain_validate_def r below_root_def)
    moreover have "trust_path cr now fetch ?labels keys \<longleftrightarrow>
        chain_walk cr now fetch owner (rev ?labels) root (below_root []) = Inr keys" for keys
      using walk by simp
    ultimately show ?thesis
      using chain_walk_Inl [of cr now fetch owner "rev ?labels" root "below_root []"]
      by (cases "chain_walk cr now fetch owner (rev ?labels) root (below_root [])") simp_all
  next
    case False
    then have "\<not> trust_path cr now fetch [] keys" for keys by (auto simp: r)
    then have "\<not> trust_path cr now fetch ?labels keys" for keys
      using trust_path_suffix [of cr now fetch ?labels "[]" keys] by auto
    with False show ?thesis by (auto simp: chain_validate_def r simp del: trust_path.simps)
  qed
qed


section \<open>Where the walk demands too much and too little\<close>

lemma trust_path_has_ds:
  "trust_path cr now fetch (label # labels) keys \<Longrightarrow> fst (fetch (fqdn_of (label # labels)) DS) \<noteq> []"
  using validate_rrset_nonempty by (fastforce simp: Let_def case_prod_beta)

lemma no_trust_path_to_host:
  assumes "fst (fetch (trim_end_dots owner @ ''.'') DS) = []"
  shows "\<not> trust_path cr now fetch (split_dots (trim_end_dots owner)) keys"
proof
  assume t: "trust_path cr now fetch (split_dots (trim_end_dots owner)) keys"
  obtain label labels where s: "split_dots (trim_end_dots owner) = label # labels"
    by (cases "split_dots (trim_end_dots owner)") auto
  then have "fqdn_of (label # labels) = trim_end_dots owner @ ''.''"
    by (metis fqdn_of_def join_on_split_on)
  with trust_path_has_ds [OF t [unfolded s]] assms show False by simp
qed

text \<open>
  A name without a DS set of its own, which is every name that is not a secure delegation, is
  never Secure, whatever keys and signatures its zone serves.
\<close>

theorem host_names_never_secure:
  assumes "fst (fetch (trim_end_dots owner @ ''.'') DS) = []"
  shows "chain_validate cr now owner rrset rrsigs fetch \<noteq> Secure"
  using no_trust_path_to_host [where owner = owner and fetch = fetch] assms by (simp add: chain_validate_Secure_iff)

lemma host_names_never_secure_witness:
  "\<forall>cr now rrsigs. chain_validate cr now ''h.e'' two_hosts rrsigs (\<lambda>z t. ([], [])) \<noteq> Secure"
  by (intro allI host_names_never_secure) simp

lemma chain_step_cong:
  "fetch child DS = fetch' child DS \<Longrightarrow> fetch child DNSKEY = fetch' child DNSKEY \<Longrightarrow>
    chain_step cr now fetch pk child = chain_step cr now fetch' pk child"
  by (simp add: chain_step_def Let_def case_prod_beta)

lemma chain_walk_below_root:
  assumes "\<And>z t. (z, t) \<noteq> (''.'', DNSKEY) \<Longrightarrow> fetch' z t = fetch z t"
  shows "current = ''.'' \<and> (todo \<noteq> [] \<longrightarrow> hd todo \<noteq> []) \<or> 2 \<le> length current \<Longrightarrow>
    chain_walk cr now fetch' owner todo pk current = chain_walk cr now fetch owner todo pk current"
proof (induction todo arbitrary: pk current)
  case (Cons label todo)
  have len: "2 \<le> length (child_name label current)"
    using Cons.prems by (cases label) (auto simp: child_name_def)
  then have "chain_step cr now fetch' pk (child_name label current) =
      chain_step cr now fetch pk (child_name label current)"
    by (intro chain_step_cong assms) auto
  with Cons.IH len show ?case by (simp add: Let_def split: sum.split)
qed simp

text \<open>
  Below the root the signatures over the root's DNSKEY set play no part: the answer is the same
  whatever is sent for them, so every key that comes with a genuine one is used as a root key.
\<close>

theorem root_signatures_ignored:
  assumes "trim_end_dots owner \<noteq> []"
    and "\<And>z t. (z, t) \<noteq> (''.'', DNSKEY) \<Longrightarrow> fetch' z t = fetch z t"
    and "fst (fetch' ''.'' DNSKEY) = fst (fetch ''.'' DNSKEY)"
  shows "chain_validate cr now owner rrset rrsigs fetch' = chain_validate cr now owner rrset rrsigs fetch"
proof -
  let ?labels = "split_dots (trim_end_dots owner)"
  have "last ?labels \<noteq> []" using trim_end_dots_last_label [OF assms(1)] .
  then have "chain_walk cr now fetch' owner (rev ?labels) pk ''.'' = chain_walk cr now fetch owner (rev ?labels) pk ''.''"
    for pk using assms(2) by (intro chain_walk_below_root) (auto simp: hd_rev)
  with assms(3) show ?thesis by (simp add: chain_validate_def Let_def case_prod_beta)
qed

lemma root_signatures_ignored_witness:
  "\<forall>cr now keys sigs. chain_validate cr now ''e.'' two_hosts [] (\<lambda>z t. if z = ''.'' \<and> t = DNSKEY then (keys, sigs) else ([], [])) =
    chain_validate cr now ''e.'' two_hosts [] (\<lambda>z t. if z = ''.'' \<and> t = DNSKEY then (keys, []) else ([], []))"
  by (intro allI root_signatures_ignored) (auto simp: trim_end_dots_def)

section \<open>The pinned anchors\<close>

definition anchored_by :: "root_anchor \<Rightarrow> rr \<Rightarrow> bool" where
  "anchored_by a k =
     (case parse_dnskey (r_rdata k) of
        Inr key \<Rightarrow> key_tag (r_rdata k) = ra_key_tag a \<and> dk_algorithm key = ra_algorithm a
      | Inl _ \<Rightarrow> False)"

lemma ds_keys_find:
  "ds_keys ds keys =
    map_option (\<lambda>k. if ds_digest (digest_type ds) k = digest ds then Secure
        else Bogus (DsDigestMismatch (ds_key_tag ds)))
      (find (\<lambda>k. case parse_dnskey (r_rdata k) of
          Inr key \<Rightarrow> key_tag (r_rdata k) = ds_key_tag ds \<and> dk_algorithm key = ds_algorithm ds
        | Inl _ \<Rightarrow> False) keys)"
  by (induction keys) (auto split: sum.splits)

lemma parse_anchor:
  assumes "a \<in> set root_anchors"
  shows "parse_ds (r_rdata (as_ds_record a)) = Inr \<lparr>ds_key_tag = ra_key_tag a, ds_algorithm = 8,
    digest_type = 2, digest = hex_decode_static (ra_digest_hex a)\<rparr>"
proof -
  have "ra_algorithm a = 8 \<and> ra_digest_type a = 2" using assms by (auto simp: root_anchors_def)
  then show ?thesis
    using parse_ds_bytes [of "ra_key_tag a" 8 2 "hex_decode_static (ra_digest_hex a)"]
    by (simp add: as_ds_record_def)
qed

text \<open>
  The root keys are accepted by the first pinned anchor that some key has the tag and
  algorithm of, and exactly when the SHA-256 digest of the first such key is the pinned one.
\<close>

theorem root_keys_anchored:
  "validate_root_dnskeys keys =
    (case [(a, k). a \<leftarrow> root_anchors, k \<leftarrow> (case find (anchored_by a) keys of None \<Rightarrow> [] | Some k \<Rightarrow> [k])] of
       [] \<Rightarrow> Insecure
     | (a, k) # _ \<Rightarrow>
         if sha256 (canonical_name (r_name k) @ r_rdata k) = hex_decode_static (ra_digest_hex a) then Secure
         else Bogus (DsDigestMismatch (ra_key_tag a)))"
proof -
  have step: "validate_dnskey_with_ds keys (as_ds_record a # rest) =
      (case find (anchored_by a) keys of None \<Rightarrow> validate_dnskey_with_ds keys rest
       | Some k \<Rightarrow> if sha256 (canonical_name (r_name k) @ r_rdata k) = hex_decode_static (ra_digest_hex a)
           then Secure else Bogus (DsDigestMismatch (ra_key_tag a)))"
    if "a \<in> set root_anchors" for a rest
  proof -
    have "ra_algorithm a = 8" using that by (auto simp: root_anchors_def)
    then have "anchored_by a = (\<lambda>k. case parse_dnskey (r_rdata k) of
        Inr key \<Rightarrow> key_tag (r_rdata k) = ra_key_tag a \<and> dk_algorithm key = 8 | Inl _ \<Rightarrow> False)"
      by (intro ext) (simp add: anchored_by_def cong: sum.case_cong)
    then show ?thesis
      using parse_anchor [OF that]
      by (simp add: ds_keys_find DIGEST_SHA256_def ds_digest_def cong: sum.case_cong split: option.split)
  qed
  obtain a b where ab: "root_anchors = [a, b]" by (simp add: root_anchors_def)
  then have "a \<in> set root_anchors" "b \<in> set root_anchors" by (simp add: ab)+
  note steps = this [THEN step]
  show ?thesis
    unfolding validate_root_dnskeys_def ab by (simp add: steps del: validate_dnskey_with_ds.simps(2) split: option.split)
qed

end
