(* ===== verification/Net.thy ===== *)
theory Net
  imports Prelude
begin

text \<open>
  Addresses and address ranges: \<open>std::net::IpAddr\<close> as the program uses it, and \<open>Network\<close> of
  \<open>src/src/config.rs\<close>, the ranges that may use recursion.
\<close>

section \<open>Addresses\<close>

type_synonym u128 = "128 word"

datatype ip_addr = V4 u32 | V6 u128

text \<open>\<open>IpAddr::to_canonical\<close>: an IPv4-mapped address \<open>::ffff:a.b.c.d\<close> becomes the IPv4 one.\<close>

fun to_canonical :: "ip_addr \<Rightarrow> ip_addr" where
  "to_canonical (V4 a) = V4 a"
| "to_canonical (V6 a) = (if drop_bit 32 a = 0xffff then V4 (ucast a) else V6 a)"

section \<open>Network\<close>

record network =
  n_address :: ip_addr
  n_prefix :: u8

text \<open>\<open>MAX.checked_shl(w - prefix).unwrap_or(0)\<close> at width \<open>w\<close>; \<open>Network::parse\<close> keeps \<open>prefix \<le> w\<close>.\<close>

definition net_mask :: "u8 \<Rightarrow> 'a::len word" where
  "net_mask plen =
     (let n = LENGTH('a) - unat plen in if n < LENGTH('a) then push_bit n (- 1) else 0)"

definition net_contains :: "network \<Rightarrow> ip_addr \<Rightarrow> bool" where
  "net_contains net ip =
     (case (n_address net, to_canonical ip) of
        (V4 network, V4 a) \<Rightarrow> network AND net_mask (n_prefix net) = a AND net_mask (n_prefix net)
      | (V6 network, V6 a) \<Rightarrow> network AND net_mask (n_prefix net) = a AND net_mask (n_prefix net)
      | _ \<Rightarrow> False)"

fun ip_width :: "ip_addr \<Rightarrow> nat" where
  "ip_width (V4 a) = 32"
| "ip_width (V6 a) = 128"

definition wf_network :: "network \<Rightarrow> bool" where
  "wf_network net \<longleftrightarrow> unat (n_prefix net) \<le> ip_width (n_address net)"

section \<open>What containment means\<close>

lemma bit_net_mask:
  "unat p \<le> LENGTH('a) \<Longrightarrow> bit (net_mask p :: 'a::len word) i \<longleftrightarrow> LENGTH('a) - unat p \<le> i \<and> i < LENGTH('a)"
  by (auto simp: net_mask_def Let_def bit_not_iff bit_mask_iff)

lemma masked_eq:
  fixes a b :: "'a::len word"
  assumes "unat p \<le> LENGTH('a)"
  shows "a AND net_mask p = b AND net_mask p \<longleftrightarrow>
    drop_bit (LENGTH('a) - unat p) a = drop_bit (LENGTH('a) - unat p) b" (is "?l \<longleftrightarrow> ?r")
proof
  assume l: ?l
  show ?r
  proof (rule bit_word_eqI)
    fix i assume "i < LENGTH('a)"
    have "bit (a AND net_mask p) (LENGTH('a) - unat p + i) = bit (b AND net_mask p) (LENGTH('a) - unat p + i)"
      using l by simp
    then show "bit (drop_bit (LENGTH('a) - unat p) a) i = bit (drop_bit (LENGTH('a) - unat p) b) i"
      using assms by (auto simp: bit_and_iff bit_net_mask bit_drop_bit_eq dest: bit_imp_le_length)
  qed
next
  assume r: ?r
  show ?l
  proof (rule bit_word_eqI)
    fix i assume i: "i < LENGTH('a)"
    show "bit (a AND net_mask p) i = bit (b AND net_mask p) i"
    proof (cases "LENGTH('a) - unat p \<le> i")
      case True
      have "bit (drop_bit (LENGTH('a) - unat p) a) (i - (LENGTH('a) - unat p)) =
          bit (drop_bit (LENGTH('a) - unat p) b) (i - (LENGTH('a) - unat p))"
        using r by simp
      with True show ?thesis by (simp add: bit_and_iff bit_drop_bit_eq)
    next
      case False
      with assms show ?thesis by (simp add: bit_and_iff bit_net_mask)
    qed
  qed
qed

fun same_prefix :: "nat \<Rightarrow> ip_addr \<Rightarrow> ip_addr \<Rightarrow> bool" where
  "same_prefix n (V4 a) (V4 b) \<longleftrightarrow> drop_bit (32 - n) a = drop_bit (32 - n) b"
| "same_prefix n (V6 a) (V6 b) \<longleftrightarrow> drop_bit (128 - n) a = drop_bit (128 - n) b"
| "same_prefix n _ _ \<longleftrightarrow> False"

lemma net_contains_prefix:
  assumes "wf_network net"
  shows "net_contains net ip \<longleftrightarrow> same_prefix (unat (n_prefix net)) (n_address net) (to_canonical ip)"
  using assms
  by (cases "n_address net"; cases "to_canonical ip")
    (simp_all add: net_contains_def wf_network_def masked_eq)

text \<open>
  A client is in a network exactly when its address, with IPv4-mapped ones read as IPv4, is of
  the network's family and agrees with it in the leading \<open>prefix\<close> bits; this holds for prefixes 0
  and full width, where the shift amounts are at the edge.
\<close>

theorem contains_is_prefix_match:
  assumes "wf_network net"
  shows "net_contains net ip \<longleftrightarrow> same_prefix (unat (n_prefix net)) (n_address net) (to_canonical ip)"
  using assms by (rule net_contains_prefix)

lemma contains_is_prefix_match_witness:
  "net_contains \<lparr>n_address = V4 0x0A000000, n_prefix = 8\<rparr> (V6 0xffff0A010203) \<and>
   \<not> net_contains \<lparr>n_address = V4 0x0A000000, n_prefix = 8\<rparr> (V4 0x0B000001)"
  by (simp add: contains_is_prefix_match wf_network_def drop_bit_eq_div)

end
