(* ===== verification/RateLimit.thy ===== *)
theory RateLimit
  imports Complex_Main Net "HOL-Library.AList" "HOL-Library.Multiset"
begin

text \<open>
  The rate limiter of \<open>src/src/ratelimit.rs\<close>.  \<open>f64\<close> values are rationals and every arithmetic
  operation is followed by the rounding \<open>rnd\<close>, an argument: IEEE rounding is monotone and keeps
  the integers up to \<open>2 ^ 53\<close>.  An \<open>Instant\<close> is a number of nanoseconds and \<open>DefaultHasher\<close> the argument \<open>hash\<close>.
  A bucket table is an association list with distinct keys.
\<close>

section \<open>State\<close>

definition SHARDS :: nat where "SHARDS = 64"

record bucket =
  tokens :: rat
  last_refill :: nat

record shard =
  buckets :: "(ip_addr \<times> bucket) list"
  last_prune :: nat

record rate_limiter =
  rl_capacity :: rat
  rl_rate :: rat
  rl_shards :: "shard list"
  max_sources_per_shard :: nat
  global_limit :: u64
  rl_started :: nat
  global_window :: u64
  global_count :: u64

type_synonym rounding = "rat \<Rightarrow> rat"

definition rl_new :: "u32 \<Rightarrow> u32 \<Rightarrow> nat \<Rightarrow> nat \<Rightarrow> rate_limiter" where
  "rl_new qps global_qps max_tracked now =
     \<lparr>rl_capacity = of_nat (unat qps), rl_rate = of_nat (unat qps),
      rl_shards = replicate SHARDS \<lparr>buckets = [], last_prune = now\<rparr>,
      max_sources_per_shard = max (max_tracked div SHARDS) 1, global_limit = ucast global_qps,
      rl_started = now, global_window = 0, global_count = 0\<rparr>"

section \<open>check_global\<close>

definition whole_secs :: "nat \<Rightarrow> nat" where
  "whole_secs ns = ns div 1000000000"

definition check_global :: "nat \<Rightarrow> rate_limiter \<Rightarrow> bool \<times> rate_limiter" where
  "check_global now rl =
     (if global_limit rl = 0 then (True, rl)
      else let window = of_nat (whole_secs (now - rl_started rl));
               rl = (if global_window rl \<noteq> window then rl\<lparr>global_window := window, global_count := 0\<rparr> else rl)
           in (global_count rl < global_limit rl, rl\<lparr>global_count := global_count rl + 1\<rparr>))"

section \<open>check_source\<close>

text \<open>\<open>Duration::as_secs_f64\<close>\<close>

definition as_secs_f64 :: "rounding \<Rightarrow> nat \<Rightarrow> rat" where
  "as_secs_f64 rnd ns = rnd (rnd (of_nat (whole_secs ns)) + rnd (of_nat (ns mod 1000000000) / 1000000000))"

definition refilled :: "rounding \<Rightarrow> rat \<Rightarrow> nat \<Rightarrow> bucket \<Rightarrow> rat" where
  "refilled rnd rate now b = rnd (tokens b + rnd (as_secs_f64 rnd (now - last_refill b) * rate))"

definition prune :: "rounding \<Rightarrow> rat \<Rightarrow> rat \<Rightarrow> nat \<Rightarrow> shard \<Rightarrow> shard" where
  "prune rnd cap rate now sh =
     sh\<lparr>last_prune := now, buckets := filter (\<lambda>(_, b). refilled rnd rate now b < cap) (buckets sh)\<rparr>"

definition full_for :: "nat \<Rightarrow> ip_addr \<Rightarrow> shard \<Rightarrow> bool" where
  "full_for max_sources ip sh \<longleftrightarrow> map_of (buckets sh) ip = None \<and> max_sources \<le> length (buckets sh)"

definition take_token :: "rounding \<Rightarrow> rat \<Rightarrow> rat \<Rightarrow> nat \<Rightarrow> ip_addr \<Rightarrow> shard \<Rightarrow> bool \<times> shard" where
  "take_token rnd cap rate now ip sh =
     (let b = (case map_of (buckets sh) ip of Some b \<Rightarrow> b | None \<Rightarrow> \<lparr>tokens = cap, last_refill = now\<rparr>);
          t = min (refilled rnd rate now b) cap
      in if 1 \<le> t then (True, sh\<lparr>buckets := AList.update ip \<lparr>tokens = rnd (t - 1), last_refill = now\<rparr> (buckets sh)\<rparr>)
         else (False, sh\<lparr>buckets := AList.update ip \<lparr>tokens = t, last_refill = now\<rparr> (buckets sh)\<rparr>))"

definition check_shard :: "rounding \<Rightarrow> rat \<Rightarrow> rat \<Rightarrow> nat \<Rightarrow> nat \<Rightarrow> ip_addr \<Rightarrow> shard \<Rightarrow> bool \<times> shard" where
  "check_shard rnd cap rate max_sources now ip sh =
     (if full_for max_sources ip sh then
        if whole_secs (now - last_prune sh) < 1 then (True, sh)
        else let sh = prune rnd cap rate now sh in
          if max_sources \<le> length (buckets sh) then (True, sh)
          else take_token rnd cap rate now ip sh
      else take_token rnd cap rate now ip sh)"

definition check_source :: "rounding \<Rightarrow> (ip_addr \<Rightarrow> nat) \<Rightarrow> nat \<Rightarrow> ip_addr \<Rightarrow> rate_limiter \<Rightarrow>
    bool \<times> rate_limiter" where
  "check_source rnd hash now ip rl =
     (if rl_capacity rl \<le> 0 then (True, rl)
      else let i = hash ip mod SHARDS;
               (ok, sh) = check_shard rnd (rl_capacity rl) (rl_rate rl) (max_sources_per_shard rl) now ip
                            (rl_shards rl ! i)
           in (ok, rl\<lparr>rl_shards := (rl_shards rl)[i := sh]\<rparr>))"

definition rl_check :: "rounding \<Rightarrow> (ip_addr \<Rightarrow> nat) \<Rightarrow> nat \<Rightarrow> ip_addr \<Rightarrow> rate_limiter \<Rightarrow>
    bool \<times> rate_limiter" where
  "rl_check rnd hash now ip rl =
     (let (ok, rl) = check_source rnd hash now ip rl
      in if ok then check_global now rl else (False, rl))"

text \<open>A run of checks, in the order in which they take the locks: the verdicts and the final state.\<close>

fun run_checks :: "rounding \<Rightarrow> (ip_addr \<Rightarrow> nat) \<Rightarrow> (nat \<times> ip_addr) list \<Rightarrow> rate_limiter \<Rightarrow>
    bool list \<times> rate_limiter" where
  "run_checks rnd hash [] rl = ([], rl)"
| "run_checks rnd hash ((now, ip) # reqs) rl =
     (let (ok, rl) = rl_check rnd hash now ip rl; (oks, rl) = run_checks rnd hash reqs rl
      in (ok # oks, rl))"

section \<open>The invariant\<close>

definition f64_rounding :: "rounding \<Rightarrow> bool" where
  "f64_rounding rnd \<longleftrightarrow> mono rnd \<and> (\<forall>n. n \<le> 2 ^ 53 \<longrightarrow> rnd (of_nat n) = of_nat n)"

definition bucket_ok :: "rat \<Rightarrow> bucket \<Rightarrow> bool" where
  "bucket_ok cap b \<longleftrightarrow> 0 \<le> tokens b \<and> tokens b \<le> cap"

definition shard_inv :: "rat \<Rightarrow> nat \<Rightarrow> shard \<Rightarrow> bool" where
  "shard_inv cap max_sources sh \<longleftrightarrow>
     distinct (map fst (buckets sh)) \<and> length (buckets sh) \<le> max_sources \<and>
     list_all (\<lambda>e. bucket_ok cap (snd e)) (buckets sh)"

definition limiter_inv :: "rate_limiter \<Rightarrow> bool" where
  "limiter_inv rl \<longleftrightarrow> length (rl_shards rl) = SHARDS \<and>
     (\<exists>n \<le> 2 ^ 53. rl_capacity rl = of_nat n) \<and> rl_rate rl = rl_capacity rl \<and>
     list_all (shard_inv (rl_capacity rl) (max_sources_per_shard rl)) (rl_shards rl)"

lemma length_update:
  "length (AList.update k v al) = (if map_of al k = None then Suc (length al) else length al)"
  by (induction al) auto

lemma list_all_update: "list_all P al \<Longrightarrow> P (k, v) \<Longrightarrow> list_all P (AList.update k v al)"
  by (induction al) auto

lemma rnd_mono: "f64_rounding rnd \<Longrightarrow> x \<le> y \<Longrightarrow> rnd x \<le> rnd y"
  by (auto simp: f64_rounding_def mono_def)

lemma rnd_nat: "f64_rounding rnd \<Longrightarrow> n \<le> 2 ^ 53 \<Longrightarrow> rnd (of_nat n) = of_nat n"
  by (simp add: f64_rounding_def)

lemma rnd_nonneg: "f64_rounding rnd \<Longrightarrow> 0 \<le> x \<Longrightarrow> 0 \<le> rnd x"
  using rnd_mono [of rnd 0 x] rnd_nat [of rnd 0] by simp

lemma refilled_nonneg: "f64_rounding rnd \<Longrightarrow> 0 \<le> tokens b \<Longrightarrow> 0 \<le> rate \<Longrightarrow> 0 \<le> refilled rnd rate now b"
  unfolding refilled_def as_secs_f64_def by (intro rnd_nonneg [of rnd] add_nonneg_nonneg mult_nonneg_nonneg) simp_all

lemma update_inv:
  "shard_inv cap m sh \<Longrightarrow> \<not> full_for m ip sh \<Longrightarrow> bucket_ok cap b \<Longrightarrow>
    shard_inv cap m (sh\<lparr>buckets := AList.update ip b (buckets sh)\<rparr>)"
  by (auto simp: shard_inv_def full_for_def length_update intro!: list_all_update distinct_update)

lemma take_token_inv:
  assumes rnd: "f64_rounding rnd" and "shard_inv cap m sh" "\<not> full_for m ip sh" "cap = of_nat n" "n \<le> 2 ^ 53" "0 \<le> rate"
  shows "shard_inv cap m (snd (take_token rnd cap rate now ip sh))"
proof -
  define b where "b = (case map_of (buckets sh) ip of Some b \<Rightarrow> b | None \<Rightarrow> \<lparr>tokens = cap, last_refill = now\<rparr>)"
  define t where "t = min (refilled rnd rate now b) cap"
  have "bucket_ok cap b"
    using assms by (auto simp: b_def bucket_ok_def shard_inv_def list_all_iff split: option.split dest: map_of_SomeD)
  then have t: "0 \<le> t" "t \<le> cap"
    using assms refilled_nonneg [OF rnd] by (auto simp: t_def bucket_ok_def)
  have "1 \<le> t \<Longrightarrow> 0 \<le> rnd (t - 1) \<and> rnd (t - 1) \<le> cap"
    using rnd_nonneg [OF rnd, of "t - 1"] rnd_mono [OF rnd, of "t - 1" cap] t rnd_nat [OF rnd assms(5)] assms(4) by auto
  with t have "bucket_ok cap \<lparr>tokens = t, last_refill = now\<rparr>"
    "1 \<le> t \<Longrightarrow> bucket_ok cap \<lparr>tokens = rnd (t - 1), last_refill = now\<rparr>"
    by (auto simp: bucket_ok_def)
  with update_inv [OF assms(2,3)] show ?thesis
    unfolding take_token_def b_def [symmetric] t_def [symmetric] Let_def by simp
qed

lemma prune_inv: "shard_inv cap m sh \<Longrightarrow> shard_inv cap m (prune rnd cap rate now sh)"
  by (auto simp: shard_inv_def prune_def list_all_iff distinct_map_filter intro: order.trans [OF length_filter_le])

lemma check_shard_inv:
  assumes "f64_rounding rnd" "shard_inv cap m sh" "cap = of_nat n" "n \<le> 2 ^ 53" "0 \<le> rate"
  shows "shard_inv cap m (snd (check_shard rnd cap rate m now ip sh))"
  using assms take_token_inv [OF assms(1) _ _ assms(3-5)] prune_inv
  by (auto simp: check_shard_def Let_def full_for_def)

lemma rl_check_inv:
  assumes rnd: "f64_rounding rnd" and "limiter_inv rl"
  shows "limiter_inv (snd (rl_check rnd hash now ip rl))"
proof -
  obtain n where n: "n \<le> 2 ^ 53" "rl_capacity rl = of_nat n" using assms by (auto simp: limiter_inv_def)
  let ?i = "hash ip mod SHARDS"
  have "?i < length (rl_shards rl)" using assms by (simp add: limiter_inv_def SHARDS_def)
  then have "shard_inv (rl_capacity rl) (max_sources_per_shard rl) (rl_shards rl ! ?i)"
    using assms by (simp add: limiter_inv_def list_all_length)
  then have "shard_inv (rl_capacity rl) (max_sources_per_shard rl)
      (snd (check_shard rnd (rl_capacity rl) (rl_rate rl) (max_sources_per_shard rl) now ip (rl_shards rl ! ?i)))"
    using n assms by (intro check_shard_inv [OF rnd]) (auto simp: limiter_inv_def)
  with assms show ?thesis
    by (auto simp: rl_check_def check_source_def check_global_def limiter_inv_def Let_def case_prod_beta
        list_all_iff dest: set_update_subset_insert [THEN subsetD])
qed

lemma run_checks_Cons:
  "run_checks rnd hash ((now, ip) # reqs) rl =
    (fst (rl_check rnd hash now ip rl) # fst (run_checks rnd hash reqs (snd (rl_check rnd hash now ip rl))),
     snd (run_checks rnd hash reqs (snd (rl_check rnd hash now ip rl))))"
  by (simp add: case_prod_beta)

declare run_checks.simps(2) [simp del]

lemma run_checks_inv:
  "f64_rounding rnd \<Longrightarrow> limiter_inv rl \<Longrightarrow> limiter_inv (snd (run_checks rnd hash reqs rl))"
proof (induction reqs arbitrary: rl)
  case (Cons req reqs)
  then show ?case by (cases req) (simp add: run_checks_Cons rl_check_inv)
qed simp

lemma rl_new_inv: "limiter_inv (rl_new qps gqps mt now)"
proof -
  have "unat qps \<le> 2 ^ 53" using unsigned_less [of qps, where ?'a = nat] by simp
  then show ?thesis by (auto simp: limiter_inv_def rl_new_def shard_inv_def list_all_iff)
qed

definition tracked :: "rate_limiter \<Rightarrow> nat" where
  "tracked rl = (\<Sum>sh\<leftarrow>rl_shards rl. length (buckets sh))"

lemma tracked_bound: "limiter_inv rl \<Longrightarrow> tracked rl \<le> SHARDS * max_sources_per_shard rl"
proof -
  have "(\<Sum>sh\<leftarrow>shs. length (buckets sh)) \<le> length shs * m" if "list_all (shard_inv c m) shs" for shs c m
    using that by (induction shs) (auto simp: shard_inv_def)
  then show "limiter_inv rl \<Longrightarrow> ?thesis" unfolding limiter_inv_def tracked_def by metis
qed

lemma run_checks_max: "max_sources_per_shard (snd (run_checks rnd hash reqs rl)) = max_sources_per_shard rl"
proof (induction reqs arbitrary: rl)
  case (Cons req reqs)
  then show ?case
    by (cases req) (simp add: run_checks_Cons rl_check_def check_source_def check_global_def Let_def case_prod_beta)
qed simp



section \<open>The global cap\<close>

definition window_of :: "rate_limiter \<Rightarrow> nat \<Rightarrow> nat" where
  "window_of rl now = whole_secs (now - rl_started rl)"

text \<open>Requests admitted in the one-second window \<open>w\<close>.\<close>

definition admitted_in :: "rate_limiter \<Rightarrow> nat \<Rightarrow> (nat \<times> ip_addr) list \<Rightarrow> bool list \<Rightarrow> nat" where
  "admitted_in rl w reqs oks =
     length (filter (\<lambda>((now, ip), ok). ok \<and> window_of rl now = w) (zip reqs oks))"

lemma window_of_mono: "a \<le> b \<Longrightarrow> window_of rl a \<le> window_of rl b"
  by (simp add: window_of_def whole_secs_def div_le_mono diff_le_mono)

lemma check_source_global:
  "global_limit (snd (check_source rnd hash now ip rl)) = global_limit rl"
  "global_window (snd (check_source rnd hash now ip rl)) = global_window rl"
  "global_count (snd (check_source rnd hash now ip rl)) = global_count rl"
  "rl_started (snd (check_source rnd hash now ip rl)) = rl_started rl"
  by (auto simp: check_source_def Let_def case_prod_beta)

definition budget :: "rate_limiter \<Rightarrow> nat \<Rightarrow> nat" where
  "budget rl w = (if w = unat (global_window rl) then unat (global_limit rl) - unat (global_count rl)
     else unat (global_limit rl))"

lemma unat_Suc_u64: "unat c + 1 < 2 ^ 64 \<Longrightarrow> unat (c + 1) = unat c + 1" for c :: u64
  by (simp add: unat_word_ariths)

lemma window_u64: "n < 2 ^ 64 \<Longrightarrow> unat (of_nat n :: u64) = n"
  by (simp add: unsigned_of_nat take_bit_nat_eq_self)

lemma rl_check_budget:
  fixes rnd hash now ip rl
  defines "r \<equiv> rl_check rnd hash now ip rl"
  assumes lim: "global_limit rl \<noteq> 0" and win: "window_of rl now < 2 ^ 64"
    and ge: "unat (global_window rl) \<le> window_of rl now" and c: "unat (global_count rl) + 1 < 2 ^ 64"
    and w: "window_of rl now \<le> w"
  shows "budget (snd r) w + (if fst r \<and> window_of rl now = w then 1 else 0) \<le> budget rl w \<and>
    unat (global_count (snd r)) \<le> unat (global_count rl) + 1 \<and>
    unat (global_window (snd r)) \<le> window_of rl now \<and>
    global_limit (snd r) = global_limit rl \<and> rl_started (snd r) = rl_started rl"
proof -
  define s where "s = check_source rnd hash now ip rl"
  have eqs: "global_limit (snd s) = global_limit rl" "global_window (snd s) = global_window rl"
    "global_count (snd s) = global_count rl" "rl_started (snd s) = rl_started rl"
    by (simp_all add: s_def check_source_global)
  have r: "r = (if fst s then check_global now (snd s) else (False, snd s))"
    by (simp add: r_def rl_check_def s_def case_prod_beta)
  define W :: u64 where "W = of_nat (window_of rl now)"
  have W: "unat W = window_of rl now" using win by (simp add: W_def window_u64)
  show ?thesis
  proof (cases "fst s")
    case False
    with ge show ?thesis by (simp add: r eqs budget_def)
  next
    case True
    have r': "r = (let rl = (if global_window rl \<noteq> W then (snd s)\<lparr>global_window := W, global_count := 0\<rparr> else snd s)
        in (global_count rl < global_limit rl, rl\<lparr>global_count := global_count rl + 1\<rparr>))"
      using True lim by (simp add: r check_global_def eqs Let_def W_def window_of_def)
    show ?thesis
    proof (cases "global_window rl = W")
      case same: True
      then show ?thesis using c w W unat_Suc_u64 [of "global_count rl"]
        by (auto simp: r' eqs budget_def word_less_nat_alt)
    next
      case False
      then have "unat (global_window rl) \<noteq> window_of rl now" using W by (metis unsigned_word_eqI)
      then show ?thesis using False w W ge lim
        by (auto simp: r' eqs budget_def word_less_nat_alt unat_gt_0 Suc_leI)
    qed
  qed
qed

lemma run_checks_budget:
  assumes "global_limit rl \<noteq> 0" "sorted (map fst reqs)"
    and "\<forall>(now, ip)\<in>set reqs. unat (global_window rl) \<le> window_of rl now \<and> window_of rl now < 2 ^ 64"
    and "unat (global_count rl) + length reqs < 2 ^ 64"
  shows "admitted_in rl w reqs (fst (run_checks rnd hash reqs rl)) \<le>
    (if \<exists>(now, ip)\<in>set reqs. window_of rl now \<le> w then budget rl w else 0)"
  using assms
proof (induction reqs arbitrary: rl)
  case Nil
  then show ?case by (simp add: admitted_in_def)
next
  case (Cons req reqs)
  obtain now ip where req: "req = (now, ip)" by fastforce
  define r where "r = rl_check rnd hash now ip rl"
  have run: "fst (run_checks rnd hash (req # reqs) rl) = fst r # fst (run_checks rnd hash reqs (snd r))"
    by (simp add: req r_def run_checks_Cons)
  have le: "window_of rl now \<le> window_of rl now'" if "(now', ip') \<in> set reqs" for now' ip'
    using Cons.prems(2) that by (intro window_of_mono) (auto simp: req)
  show ?case
  proof (cases "window_of rl now \<le> w")
    case False
    have "\<not> window_of rl now' = w" if "(now', ip') \<in> set (req # reqs)" for now' ip'
      using le [of now' ip'] False that by (auto simp: req)
    then have "admitted_in rl w (req # reqs) oks = 0" for oks
      by (fastforce simp: admitted_in_def filter_empty_conv dest: set_zip_leftD)
    then show ?thesis by simp
  next
    case w: True
    note b = rl_check_budget [of rl now w rnd hash ip, folded r_def]
    have step: "budget (snd r) w + (if fst r \<and> window_of rl now = w then 1 else 0) \<le> budget rl w"
      "unat (global_count (snd r)) \<le> unat (global_count rl) + 1"
      "unat (global_window (snd r)) \<le> window_of rl now"
      "global_limit (snd r) = global_limit rl" "rl_started (snd r) = rl_started rl"
      using b Cons.prems w by (auto simp: req)
    have win: "window_of (snd r) = window_of rl" by (auto simp: window_of_def step(5))
    have "admitted_in (snd r) w reqs (fst (run_checks rnd hash reqs (snd r))) \<le> budget (snd r) w"
      using Cons.prems step le
      by (intro order.trans [OF Cons.IH]) (fastforce simp: win intro: order.trans)+
    then have "admitted_in rl w reqs (fst (run_checks rnd hash reqs (snd r))) \<le> budget (snd r) w"
      by (simp add: admitted_in_def win)
    with step(1) show ?thesis using w
      by (auto simp: run [unfolded req] admitted_in_def req)
  qed
qed



section \<open>The global cap under concurrent checks\<close>

text \<open>
  \<open>check_global\<close> is not one atomic step: \<open>swap\<close>, \<open>store\<close> and \<open>fetch_add\<close> of concurrent receivers
  interleave.  A receiver has read its window, has found it stale, is about to count (\<open>True\<close> when
  it has reset the counter) or is done with a verdict.
\<close>

datatype checker = Reading u64 | Stale | Counting bool | Done bool bool

type_synonym gstate = "u64 \<times> u64 \<times> checker multiset"

inductive gstep :: "u64 \<Rightarrow> gstate \<Rightarrow> gstate \<Rightarrow> bool" for limit :: u64 where
  swap_same: "gstep limit (W, c, add_mset (Reading W) ts) (W, c, add_mset (Counting False) ts)"
| swap_new: "w \<noteq> W \<Longrightarrow> gstep limit (W, c, add_mset (Reading w) ts) (w, c, add_mset Stale ts)"
| store: "gstep limit (W, c, add_mset Stale ts) (W, 0, add_mset (Counting True) ts)"
| fetch_add: "gstep limit (W, c, add_mset (Counting r) ts) (W, c + 1, add_mset (Done r (c < limit)) ts)"

inductive_cases gstepE: "gstep limit (W, c, ts) s'"

fun has_reset :: "checker \<Rightarrow> bool" where
  "has_reset (Counting r) = r"
| "has_reset (Done r ok) = r"
| "has_reset _ = False"

fun is_admitted :: "checker \<Rightarrow> bool" where
  "is_admitted (Done r ok) = ok"
| "is_admitted _ = False"

fun is_done :: "checker \<Rightarrow> bool" where
  "is_done (Done r ok) = True"
| "is_done _ = False"

definition resets :: "checker multiset \<Rightarrow> nat" where "resets ts = size (filter_mset has_reset ts)"
definition admitted :: "checker multiset \<Rightarrow> nat" where "admitted ts = size (filter_mset is_admitted ts)"
definition finished :: "checker multiset \<Rightarrow> nat" where "finished ts = size (filter_mset is_done ts)"

lemmas gcount_defs = resets_def admitted_def finished_def

definition ginv :: "u64 \<Rightarrow> nat \<Rightarrow> gstate \<Rightarrow> bool" where
  "ginv limit n s \<longleftrightarrow> (case s of (W, c, ts) \<Rightarrow>
     size ts + unat c \<le> n + finished ts \<and>
     admitted ts \<le> unat limit * resets ts + min (unat c) (unat limit))"

lemma finished_le: "finished ts \<le> size ts"
  by (simp add: finished_def size_filter_mset_lesseq)

lemma ginv_step: "gstep limit s s' \<Longrightarrow> n < 2 ^ 64 \<Longrightarrow> ginv limit n s \<Longrightarrow> ginv limit n s'"
proof (induction rule: gstep.induct)
  case (fetch_add W c r ts)
  have "finished (add_mset (Counting r) ts) = finished ts" by (simp add: finished_def)
  then have "unat c + 1 < 2 ^ 64"
    using fetch_add finished_le [of ts] by (simp add: ginv_def)
  then have "unat (c + 1) = unat c + 1" by (rule unat_Suc_u64)
  with fetch_add show ?case
    by (auto simp: ginv_def gcount_defs word_less_nat_alt min_def split: if_splits)
qed (auto simp: ginv_def gcount_defs)

interpretation gcap: transition_invariant "gstep limit" "\<lambda>s. n < 2 ^ 64 \<longrightarrow> ginv limit n s" for limit n
  by unfold_locales (use ginv_step in blast)

text \<open>
  However the atomic steps of concurrent receivers interleave, the queries admitted are at most
  the limit times one more than the number of counter resets that took place.
\<close>

theorem concurrent_cap:
  assumes "(gstep limit)\<^sup>*\<^sup>* (W, c, image_mset Reading ws) (W', c', ts)" "size ws + unat c < 2 ^ 64"
  shows "admitted ts \<le> unat limit * (resets ts + 1)"
proof -
  have "admitted (image_mset Reading ws) = 0" by (induction ws) (auto simp: admitted_def)
  then have "ginv limit (size ws + unat c) (W, c, image_mset Reading ws)" by (simp add: ginv_def)
  then have "ginv limit (size ws + unat c) (W', c', ts)"
    using gcap.reachable [OF assms(1), of "size ws + unat c"] assms(2) by blast
  then show ?thesis by (auto simp: ginv_def)
qed

lemma race_run:
  "(gstep 1)\<^sup>*\<^sup>* (0, 0, {#Reading 1, Reading 1#}) (1, 1, {#Done True True, Done False True#})"
proof -
  have "gstep 1 (0, 0, {#Reading 1, Reading 1#}) (1, 0, {#Stale, Reading 1#})" by (rule swap_new) simp
  moreover have "gstep 1 (1, 0, {#Stale, Reading 1#}) (1, 0, {#Stale, Counting False#})"
    using swap_same [of 1 1 0 "{#Stale#}"] by (simp add: add_mset_commute)
  moreover have "gstep 1 (1, 0, {#Stale, Counting False#}) (1, 1, {#Stale, Done False True#})"
    using fetch_add [of 1 1 0 False "{#Stale#}"] by (simp add: add_mset_commute)
  moreover have "gstep 1 (1, 1, {#Stale, Done False True#}) (1, 0, {#Counting True, Done False True#})"
    by (rule store)
  moreover have "gstep 1 (1, 0, {#Counting True, Done False True#}) (1, 1, {#Done True True, Done False True#})"
    using fetch_add [of 1 1 0 True "{#Done False True#}"] by simp
  ultimately show ?thesis by (meson converse_rtranclp_into_rtranclp rtranclp.rtrancl_refl)
qed

lemma concurrent_cap_witness: "admitted {#Done True True, Done False True#} \<le> 2"
  using concurrent_cap [of 1 0 0 "{#1, 1#}" 1 1 "{#Done True True, Done False True#}"] race_run
  by (simp add: resets_def)

text \<open>
  Two receivers of one window, with a limit of one: the second counts between the first one's
  \<open>swap\<close> and \<open>store\<close>, its count is lost, and both queries are admitted.
\<close>

theorem global_race:
  "\<exists>W c ts. (gstep 1)\<^sup>*\<^sup>* (0, 0, {#Reading 1, Reading 1#}) (W, c, ts) \<and> admitted ts = 2"
  by (intro exI conjI, rule race_run) (simp add: admitted_def)

section \<open>The cap per source\<close>

text \<open>
  In exact arithmetic, \<open>rnd\<close> the identity: the level of a source is what its bucket would hold now,
  the full capacity when it has none.
\<close>

definition level :: "rat \<Rightarrow> rat \<Rightarrow> nat \<Rightarrow> ip_addr \<Rightarrow> shard \<Rightarrow> rat" where
  "level cap rate now ip sh =
     (case map_of (buckets sh) ip of None \<Rightarrow> cap | Some b \<Rightarrow> min (refilled (\<lambda>x. x) rate now b) cap)"

definition seconds :: "nat \<Rightarrow> rat" where
  "seconds ns = of_nat ns / 1000000000"

lemma as_secs_exact: "as_secs_f64 (\<lambda>x. x) ns = seconds ns"
proof -
  have "(of_nat ns :: rat) = of_nat (ns div 1000000000) * 1000000000 + of_nat (ns mod 1000000000)"
    by (metis div_mult_mod_eq of_nat_add of_nat_mult of_nat_numeral)
  then show ?thesis by (simp add: as_secs_f64_def seconds_def whole_secs_def add_divide_distrib)
qed

lemma refilled_exact: "refilled (\<lambda>x. x) rate now b = tokens b + seconds (now - last_refill b) * rate"
  by (simp add: refilled_def as_secs_exact)

definition past :: "nat \<Rightarrow> shard \<Rightarrow> bool" where
  "past now sh \<longleftrightarrow> distinct (map fst (buckets sh)) \<and> list_all (\<lambda>e. last_refill (snd e) \<le> now) (buckets sh)"

lemma seconds_mono: "a \<le> b \<Longrightarrow> seconds a \<le> seconds b"
  by (simp add: seconds_def divide_right_mono)

lemma seconds_nonneg: "0 \<le> seconds a"
  by (simp add: seconds_def)

lemma refilled_later:
  assumes "last_refill b \<le> now" "now \<le> now'" "0 \<le> rate"
  shows "refilled (\<lambda>x. x) rate now' b = refilled (\<lambda>x. x) rate now b + seconds (now' - now) * rate"
proof -
  have "seconds (now' - last_refill b) = seconds (now - last_refill b) + seconds (now' - now)"
    using assms by (simp add: seconds_def of_nat_diff flip: add_divide_distrib)
  then show ?thesis by (simp add: refilled_exact algebra_simps)
qed

lemma map_of_past: "past now sh \<Longrightarrow> map_of (buckets sh) ip = Some b \<Longrightarrow> last_refill b \<le> now"
  by (auto simp: past_def list_all_iff dest: map_of_SomeD)

lemma level_later:
  assumes "past now sh" "now \<le> now'" "0 \<le> rate"
  shows "level cap rate now' ip sh \<le> level cap rate now ip sh + seconds (now' - now) * rate"
  using assms refilled_later [OF map_of_past [OF assms(1)] assms(2,3)]
    mult_nonneg_nonneg [OF seconds_nonneg [of "now' - now"] assms(3)]
  by (auto simp: level_def min_def split: option.split)

lemma map_of_filter_snd:
  "distinct (map fst al) \<Longrightarrow> map_of (filter (\<lambda>(_, b). P b) al) k =
    (case map_of al k of Some b \<Rightarrow> if P b then Some b else None | None \<Rightarrow> None)"
  by (induction al) (auto simp: map_of_eq_None_iff image_iff split: option.splits intro!: map_of_is_SomeI)

text \<open>Pruning forgets nothing: a bucket that is dropped would have been full again.\<close>

lemma level_prune:
  assumes "past now sh"
  shows "level cap rate now ip (prune (\<lambda>x. x) cap rate now sh) = level cap rate now ip sh"
  using assms by (auto simp: level_def prune_def past_def map_of_filter_snd min_def split: option.split)

lemma past_prune: "past now sh \<Longrightarrow> past now (prune (\<lambda>x. x) cap rate now sh)"
  by (auto simp: past_def prune_def list_all_iff distinct_map_filter)

lemma past_later: "past now sh \<Longrightarrow> now \<le> now' \<Longrightarrow> past now' sh"
  by (auto simp: past_def list_all_iff)

lemma level_mono:
  assumes "past now sh" "now \<le> now'" "0 \<le> rate"
  shows "level cap rate now ip sh \<le> level cap rate now' ip sh"
  using assms refilled_later [OF map_of_past [OF assms(1)] assms(2,3)]
    mult_nonneg_nonneg [OF seconds_nonneg [of "now' - now"] assms(3)]
  by (auto simp: level_def min_def split: option.split)

lemma take_token_past: "past now sh \<Longrightarrow> past now (snd (take_token (\<lambda>x. x) cap rate now x sh))"
  by (auto simp: take_token_def Let_def past_def distinct_update intro!: list_all_update)

lemma take_token_level:
  "0 \<le> cap \<Longrightarrow> level cap rate now ip (snd (take_token (\<lambda>x. x) cap rate now x sh)) =
    level cap rate now ip sh - (if x = ip \<and> fst (take_token (\<lambda>x. x) cap rate now x sh) then 1 else 0)"
  by (auto simp: take_token_def level_def Let_def update_conv' refilled_exact seconds_def min_def split: option.splits)

lemma take_token_ok: "fst (take_token (\<lambda>x. x) cap rate now x sh) \<Longrightarrow> 1 \<le> level cap rate now x sh"
  by (auto simp: take_token_def level_def Let_def refilled_exact seconds_def split: option.splits if_splits)

text \<open>A query let through because the table has no room for its source.\<close>

definition untracked :: "rat \<Rightarrow> rat \<Rightarrow> nat \<Rightarrow> nat \<Rightarrow> ip_addr \<Rightarrow> shard \<Rightarrow> bool" where
  "untracked cap rate m now ip sh \<longleftrightarrow> full_for m ip sh \<and>
     (whole_secs (now - last_prune sh) < 1 \<or> m \<le> length (buckets (prune (\<lambda>x. x) cap rate now sh)))"

fun shard_run :: "rat \<Rightarrow> rat \<Rightarrow> nat \<Rightarrow> (nat \<times> ip_addr) list \<Rightarrow> shard \<Rightarrow> bool list" where
  "shard_run cap rate m [] sh = []"
| "shard_run cap rate m ((now, ip) # reqs) sh =
     fst (check_shard (\<lambda>x. x) cap rate m now ip sh) #
     shard_run cap rate m reqs (snd (check_shard (\<lambda>x. x) cap rate m now ip sh))"

fun always_tracked :: "rat \<Rightarrow> rat \<Rightarrow> nat \<Rightarrow> ip_addr \<Rightarrow> (nat \<times> ip_addr) list \<Rightarrow> shard \<Rightarrow> bool" where
  "always_tracked cap rate m x [] sh \<longleftrightarrow> True"
| "always_tracked cap rate m x ((now, ip) # reqs) sh \<longleftrightarrow>
     (ip = x \<longrightarrow> \<not> untracked cap rate m now ip sh) \<and>
     always_tracked cap rate m x reqs (snd (check_shard (\<lambda>x. x) cap rate m now ip sh))"

definition admitted_from :: "ip_addr \<Rightarrow> (nat \<times> ip_addr) list \<Rightarrow> bool list \<Rightarrow> nat" where
  "admitted_from x reqs oks = length (filter (\<lambda>((now, ip), ok). ok \<and> ip = x) (zip reqs oks))"

lemma check_shard_level:
  assumes "past now sh" "0 \<le> cap" "ip = x \<Longrightarrow> \<not> untracked cap rate m now ip sh"
  shows "level cap rate now x (snd (check_shard (\<lambda>x. x) cap rate m now ip sh)) =
      level cap rate now x sh - (if ip = x \<and> fst (check_shard (\<lambda>x. x) cap rate m now ip sh) then 1 else 0)"
    and "past now (snd (check_shard (\<lambda>x. x) cap rate m now ip sh))"
    and "ip = x \<Longrightarrow> fst (check_shard (\<lambda>x. x) cap rate m now ip sh) \<Longrightarrow> 1 \<le> level cap rate now x sh"
proof -
  let ?p = "prune (\<lambda>x. x) cap rate now sh"
  note facts = take_token_level [OF assms(2)] level_prune [OF assms(1)] take_token_past [OF past_prune [OF assms(1)]]
    take_token_past [OF assms(1)] past_prune [OF assms(1)] assms(1)
  show "level cap rate now x (snd (check_shard (\<lambda>x. x) cap rate m now ip sh)) =
      level cap rate now x sh - (if ip = x \<and> fst (check_shard (\<lambda>x. x) cap rate m now ip sh) then 1 else 0)"
    using assms(3) facts by (auto simp: check_shard_def untracked_def Let_def)
  show "past now (snd (check_shard (\<lambda>x. x) cap rate m now ip sh))"
    using facts by (simp add: check_shard_def Let_def)
  show "ip = x \<Longrightarrow> fst (check_shard (\<lambda>x. x) cap rate m now ip sh) \<Longrightarrow> 1 \<le> level cap rate now x sh"
    using assms(3) take_token_ok [of cap rate now x sh] take_token_ok [of cap rate now x ?p] facts(2)
    by (auto simp: check_shard_def untracked_def Let_def split: if_splits)
qed

lemma shard_run_admitted:
  assumes "past t0 sh" "0 \<le> rate" "0 \<le> cap" "0 \<le> level cap rate t0 x sh" "sorted (t0 # map fst reqs @ [t1])"
    and "always_tracked cap rate m x reqs sh"
  shows "of_nat (admitted_from x reqs (shard_run cap rate m reqs sh)) \<le> level cap rate t0 x sh + seconds (t1 - t0) * rate"
  using assms
proof (induction reqs arbitrary: sh t0)
  case Nil
  then show ?case using seconds_nonneg [of "t1 - t0"] by (simp add: admitted_from_def)
next
  case (Cons req reqs)
  obtain t ip where req: "req = (t, ip)" by fastforce
  define r where "r = check_shard (\<lambda>x. x) cap rate m t ip sh"
  have t: "t0 \<le> t" "t \<le> t1" using Cons.prems(5) by (auto simp: req)
  have past: "past t sh" using Cons.prems(1) t(1) by (rule past_later)
  have tr: "ip = x \<Longrightarrow> \<not> untracked cap rate m t ip sh" using Cons.prems(6) by (simp add: req)
  note step = check_shard_level [OF past Cons.prems(3) tr, folded r_def]
  have up: "level cap rate t0 x sh \<le> level cap rate t x sh"
    "level cap rate t x sh \<le> level cap rate t0 x sh + seconds (t - t0) * rate"
    using level_mono [OF Cons.prems(1) t(1) Cons.prems(2)] level_later [OF Cons.prems(1) t(1) Cons.prems(2)] by auto
  have "of_nat (admitted_from x reqs (shard_run cap rate m reqs (snd r))) \<le>
      level cap rate t x (snd r) + seconds (t1 - t) * rate"
    using Cons.prems step up by (intro Cons.IH) (auto simp: req r_def [symmetric])
  moreover have "seconds (t1 - t0) * rate = seconds (t - t0) * rate + seconds (t1 - t) * rate"
    using t by (simp add: seconds_def of_nat_diff algebra_simps flip: add_divide_distrib)
  ultimately show ?case using step up by (auto simp: req admitted_from_def r_def [symmetric])
qed



end
