(* ===== verification/Resolver.thy ===== *)
theory Resolver
  imports Zone Net
begin

text \<open>
  The resolver of \<open>src/src/resolver.rs\<close>.  The network is an argument that may answer every
  exchange differently: exchanges are numbered and the number is the state passed along.  A failed
  socket call ends the list of datagrams, as the deadline does.  \<open>rand::random\<close> is the field
  \<open>net_id\<close>.  Bounded retries and nested lookups make every definition total.
\<close>

section \<open>The network\<close>

datatype udp_event = Datagram "u8 list" | RecvError

record network_io =
  net_id :: "nat \<Rightarrow> u16"
  net_udp :: "nat \<Rightarrow> ip_addr \<Rightarrow> u8 list \<Rightarrow> udp_event list"
  net_tcp :: "nat \<Rightarrow> ip_addr \<Rightarrow> u8 list \<Rightarrow> (unit + u8 list)"

section \<open>Queries and replies\<close>

definition build_query_flags :: "u16 \<Rightarrow> string \<Rightarrow> RType \<Rightarrow> u16 \<Rightarrow> bool \<Rightarrow> u8 list" where
  "build_query_flags qid name qtype flags do_bit =
     serialize \<lparr>p_id = qid, p_flags = flags,
       p_questions = [\<lparr>q_name = name, q_type = qtype, q_class = CLASS_IN\<rparr>],
       p_answers = [], p_authority = [], p_additional = [], edns_udp_size = 4096, dnssec_ok = do_bit\<rparr> True"

definition build_query_dnssec :: "u16 \<Rightarrow> string \<Rightarrow> RType \<Rightarrow> u8 list" where
  "build_query_dnssec qid name qtype = build_query_flags qid name qtype 0x0100 True"

definition build_query :: "u16 \<Rightarrow> string \<Rightarrow> RType \<Rightarrow> bool \<Rightarrow> u8 list" where
  "build_query qid name qtype recurse =
     build_query_flags qid name qtype (if recurse then 0x0100 else 0x0000) False"

definition answers_query :: "packet \<Rightarrow> packet \<Rightarrow> bool" where
  "answers_query query reply \<longleftrightarrow>
     (case (p_questions query, p_questions reply) of
        (asked # _, answered # _) \<Rightarrow>
          is_response reply \<and> p_id reply = p_id query \<and> to_lower (q_name answered) = to_lower (q_name asked) \<and>
          q_type answered = q_type asked \<and> q_class answered = q_class asked
      | _ \<Rightarrow> False)"

definition in_bailiwick :: "string \<Rightarrow> string \<Rightarrow> bool" where
  "in_bailiwick name zone \<longleftrightarrow>
     (let n = to_lower (trim_end_dots name); z = to_lower (trim_end_dots zone)
      in z = [] \<or> n = z \<or> below n z)"

definition parse_name_from_rdata :: "u8 list \<Rightarrow> string" where
  "parse_name_from_rdata rdata = (case p_name rdata 0 of Inr (n, _) \<Rightarrow> n | Inl _ \<Rightarrow> [])"

section \<open>Exchanges\<close>

definition tcp_exchange :: "network_io \<Rightarrow> nat \<Rightarrow> u8 list \<Rightarrow> ip_addr \<Rightarrow> packet option" where
  "tcp_exchange net k query addr =
     (case net_tcp net k addr query of Inl _ \<Rightarrow> None | Inr stream \<Rightarrow>
        if length stream < 2 then None
        else let rlen = unat (of_be16 (stream ! 0) (stream ! 1)) in
          if length stream < 2 + rlen then None
          else case parse (take rlen (drop 2 stream)) of Inl _ \<Rightarrow> None | Inr pkt \<Rightarrow>
            (case parse query of Inl _ \<Rightarrow> None | Inr expected \<Rightarrow>
               if answers_query expected pkt then Some pkt else None))"

fun udp_receive :: "network_io \<Rightarrow> nat \<Rightarrow> u8 list \<Rightarrow> ip_addr \<Rightarrow> packet \<Rightarrow> udp_event list \<Rightarrow> packet option" where
  "udp_receive net k query addr expected [] = None"
| "udp_receive net k query addr expected (RecvError # evs) = None"
| "udp_receive net k query addr expected (Datagram d # evs) =
     (case parse (take 4096 d) of
        Inl _ \<Rightarrow> udp_receive net k query addr expected evs
      | Inr pkt \<Rightarrow>
          if \<not> answers_query expected pkt then udp_receive net k query addr expected evs
          else if truncated pkt then tcp_exchange net k query addr
          else Some pkt)"

definition udp_exchange :: "network_io \<Rightarrow> nat \<Rightarrow> u8 list \<Rightarrow> ip_addr \<Rightarrow> packet option" where
  "udp_exchange net k query addr =
     (case parse query of Inl _ \<Rightarrow> None
      | Inr expected \<Rightarrow> udp_receive net k query addr expected (net_udp net k addr query))"

section \<open>Results and configuration\<close>

datatype servfail_reason =
    DepthExceeded | MaxReferrals | AllFailed | CnameLoop | BogusReferral | EmptyReferral | NoNsAddress

datatype ResolveResult = ResAnswer packet | ResNxDomain packet | ResServFail servfail_reason

record resolver_config =
  forwarders :: "ip_addr list"
  use_forwarders :: bool

definition ipv4 :: "u8 \<Rightarrow> u8 \<Rightarrow> u8 \<Rightarrow> u8 \<Rightarrow> ip_addr" where
  "ipv4 a b c d = V4 (of_be32 (of_be16 a b) (of_be16 c d))"

definition ROOT_SERVERS :: "ip_addr list" where
  "ROOT_SERVERS =
     [ipv4 198 41 0 4, ipv4 199 9 14 201, ipv4 192 33 4 12, ipv4 199 7 91 13, ipv4 192 203 230 10,
      ipv4 192 5 5 241, ipv4 192 112 36 4, ipv4 198 97 190 53, ipv4 192 36 148 17,
      ipv4 192 58 128 30, ipv4 193 0 14 129, ipv4 199 7 83 42, ipv4 202 12 27 33]"

definition MAX_REFERRALS :: nat where "MAX_REFERRALS = 20"
definition MAX_NS_LOOKUP_DEPTH :: nat where "MAX_NS_LOOKUP_DEPTH = 4"

section \<open>One round of the iteration\<close>

record iter_state =
  nameservers :: "ip_addr list"
  current_zone :: string
  visited :: "(string \<times> ip_addr) set"
  cname_chain :: "string list"
  current_name :: string

text \<open>The servers in turn, skipping those already asked for this name.\<close>

fun ask_servers :: "network_io \<Rightarrow> u8 list \<Rightarrow> string \<Rightarrow> ip_addr list \<Rightarrow> (string \<times> ip_addr) set \<Rightarrow> nat \<Rightarrow>
    packet option \<times> (string \<times> ip_addr) set \<times> nat" where
  "ask_servers net q name [] seen k = (None, seen, k)"
| "ask_servers net q name (ns # nss) seen k =
     (if (name, ns) \<in> seen then ask_servers net q name nss seen k
      else case udp_exchange net k q ns of
             Some pkt \<Rightarrow> (Some pkt, insert (name, ns) seen, k + 1)
           | None \<Rightarrow> ask_servers net q name nss (insert (name, ns) seen) (k + 1))"

definition retain_bailiwick :: "string \<Rightarrow> packet \<Rightarrow> packet" where
  "retain_bailiwick zone pkt =
     pkt\<lparr>p_answers := filter (\<lambda>r. in_bailiwick (r_name r) zone) (p_answers pkt),
         p_authority := filter (\<lambda>r. in_bailiwick (r_name r) zone) (p_authority pkt),
         p_additional := filter (\<lambda>r. r_type r = OPT \<or> in_bailiwick (r_name r) zone) (p_additional pkt)\<rparr>"

definition delegation :: "iter_state \<Rightarrow> packet \<Rightarrow> string option" where
  "delegation st pkt =
     (case find (\<lambda>r. r_type r = NS) (p_authority pkt) of None \<Rightarrow> None | Some r \<Rightarrow>
        let zone = to_lower (r_name r) in
        if zone \<noteq> current_zone st \<and> in_bailiwick (current_name st) zone then Some zone else None)"

definition ns_names_of :: "string \<Rightarrow> packet \<Rightarrow> string list" where
  "ns_names_of zone pkt =
     filter (\<lambda>n. n \<noteq> [])
       (map (\<lambda>r. parse_name_from_rdata (r_rdata r))
         (filter (\<lambda>r. r_type r = NS \<and> to_lower (r_name r) = to_lower zone) (p_authority pkt)))"

fun a_address :: "rr \<Rightarrow> ip_addr list" where
  "a_address r =
     (if r_type r = A \<and> length (r_rdata r) = 4
      then [ipv4 (r_rdata r ! 0) (r_rdata r ! 1) (r_rdata r ! 2) (r_rdata r ! 3)] else [])"

definition glue :: "string list \<Rightarrow> packet \<Rightarrow> ip_addr list" where
  "glue ns_names pkt =
     concat (map (\<lambda>ns. concat (map a_address
       (filter (\<lambda>add. to_lower (r_name add) = to_lower ns) (p_additional pkt)))) ns_names)"

datatype round_result = Finish ResolveResult | FollowCname string | Referral string "string list"

definition classify :: "RType \<Rightarrow> iter_state \<Rightarrow> packet \<Rightarrow> round_result" where
  "classify qtype st pkt =
     (if rcode pkt = RCODE_NXDOMAIN then Finish (ResNxDomain pkt)
      else if p_answers pkt \<noteq> [] then
        (case find (\<lambda>r. r_type r = CNAME) (p_answers pkt) of
           Some cn \<Rightarrow>
             if qtype \<noteq> CNAME then
               let target = parse_name_from_rdata (r_rdata cn) in
               if target = [] \<or> target \<in> set (cname_chain st) then Finish (ResServFail CnameLoop)
               else FollowCname target
             else Finish (ResAnswer pkt)
         | None \<Rightarrow> Finish (ResAnswer pkt))
      else if p_authority pkt \<noteq> [] then
        (case delegation st pkt of
           None \<Rightarrow> Finish (ResServFail BogusReferral)
         | Some zone \<Rightarrow>
             let names = ns_names_of zone pkt in
             if names = [] then Finish (ResServFail EmptyReferral) else Referral zone names)
      else Finish (ResAnswer pkt))"

section \<open>iterative_resolve\<close>

type_synonym lookup = "string \<Rightarrow> RType \<Rightarrow> nat \<Rightarrow> ResolveResult \<times> nat"

text \<open>Glueless delegations: the first name server whose address can be found.\<close>

fun resolve_ns :: "lookup \<Rightarrow> string list \<Rightarrow> nat \<Rightarrow> ip_addr list \<times> nat" where
  "resolve_ns look [] k = ([], k)"
| "resolve_ns look (ns # nss) k =
     (let (res, k) = look ns A k;
          ips = (case res of ResAnswer p \<Rightarrow> concat (map a_address (p_answers p)) | _ \<Rightarrow> [])
      in if ips \<noteq> [] then (ips, k) else resolve_ns look nss k)"

definition start_state :: "string \<Rightarrow> iter_state" where
  "start_state name =
     \<lparr>nameservers = ROOT_SERVERS, current_zone = ''.'', visited = {}, cname_chain = [], current_name = name\<rparr>"

text \<open>\<open>resolve_loop n\<close>: the loop with \<open>n\<close> referrals left.\<close>

fun resolve_loop :: "network_io \<Rightarrow> lookup \<Rightarrow> RType \<Rightarrow> nat \<Rightarrow> iter_state \<Rightarrow> nat \<Rightarrow> ResolveResult \<times> nat" where
  "resolve_loop net look qtype 0 st k = (ResServFail MaxReferrals, k)"
| "resolve_loop net look qtype (Suc n) st k =
     (let q = build_query (net_id net k) (current_name st) qtype False;
          (resp, seen, k) = ask_servers net q (current_name st) (nameservers st) (visited st) k;
          st = st\<lparr>visited := seen\<rparr>
      in case resp of None \<Rightarrow> (ResServFail AllFailed, k) | Some reply \<Rightarrow>
        (let pkt = retain_bailiwick (current_zone st) reply in
         case classify qtype st pkt of
           Finish res \<Rightarrow> (res, k)
         | FollowCname target \<Rightarrow>
             resolve_loop net look qtype n
               (st\<lparr>cname_chain := cname_chain st @ [current_name st], current_name := target,
                   nameservers := ROOT_SERVERS, current_zone := ''.''\<rparr>) k
         | Referral zone names \<Rightarrow>
             (let (ips, k) = (case glue names pkt of [] \<Rightarrow> resolve_ns look names k | ips \<Rightarrow> (ips, k))
              in if ips = [] then (ResServFail NoNsAddress, k)
                 else resolve_loop net look qtype n (st\<lparr>nameservers := ips, current_zone := zone\<rparr>) k)))"

text \<open>\<open>iterative_resolve n\<close> has \<open>n\<close> levels left: \<open>depth = MAX_NS_LOOKUP_DEPTH + 1 - n\<close>.\<close>

fun iterative_resolve :: "network_io \<Rightarrow> nat \<Rightarrow> lookup" where
  "iterative_resolve net 0 name qtype k = (ResServFail DepthExceeded, k)"
| "iterative_resolve net (Suc n) name qtype k =
     resolve_loop net (iterative_resolve net n) qtype MAX_REFERRALS (start_state name) k"

fun try_forwarders :: "network_io \<Rightarrow> string \<Rightarrow> RType \<Rightarrow> u8 list \<Rightarrow> ip_addr list \<Rightarrow> nat \<Rightarrow>
    ResolveResult option \<times> nat" where
  "try_forwarders net name qtype q [] k = (None, k)"
| "try_forwarders net name qtype q (fwd # fwds) k =
     (case udp_exchange net k q fwd of
        None \<Rightarrow> try_forwarders net name qtype q fwds (k + 1)
      | Some pkt \<Rightarrow>
          if rcode pkt = RCODE_SERVFAIL then try_forwarders net name qtype q fwds (k + 1)
          else (Some (if rcode pkt = RCODE_NXDOMAIN then ResNxDomain pkt else ResAnswer pkt), k + 1))"

definition resolve :: "network_io \<Rightarrow> resolver_config \<Rightarrow> lookup" where
  "resolve net cfg name qtype k =
     (let iter = iterative_resolve net (MAX_NS_LOOKUP_DEPTH + 1) name qtype in
      if use_forwarders cfg then
        (case try_forwarders net name qtype (build_query (net_id net k) name qtype True) (forwarders cfg) k of
           (Some res, k) \<Rightarrow> (res, k)
         | (None, k) \<Rightarrow> iter k)
      else iter k)"

fun fetch_from :: "network_io \<Rightarrow> u8 list \<Rightarrow> RType \<Rightarrow> ip_addr list \<Rightarrow> nat \<Rightarrow> (rr list \<times> rr list) \<times> nat" where
  "fetch_from net q qtype [] k = (([], []), k)"
| "fetch_from net q qtype (fwd # fwds) k =
     (case udp_exchange net k q fwd of
        None \<Rightarrow> fetch_from net q qtype fwds (k + 1)
      | Some pkt \<Rightarrow> ((filter (\<lambda>r. r_type r = qtype) (p_answers pkt),
                      filter (\<lambda>r. r_type r = RRSIG) (p_answers pkt)), k + 1))"

definition fetch_with_rrsig :: "network_io \<Rightarrow> resolver_config \<Rightarrow> string \<Rightarrow> RType \<Rightarrow> nat \<Rightarrow>
    (rr list \<times> rr list) \<times> nat" where
  "fetch_with_rrsig net cfg name qtype k =
     fetch_from net (build_query_dnssec (net_id net k) name qtype) qtype (forwarders cfg) k"

section \<open>Replies must match\<close>

lemma tcp_exchange_answers:
  "tcp_exchange net k q a = Some p \<Longrightarrow> parse q = Inr e \<Longrightarrow> answers_query e p"
  by (auto simp: tcp_exchange_def Let_def split: sum.splits if_splits)

lemma udp_receive_answers:
  "udp_receive net k q a e evs = Some p \<Longrightarrow> parse q = Inr e \<Longrightarrow> answers_query e p"
  by (induction net k q a e evs rule: udp_receive.induct)
    (auto split: sum.splits if_splits dest: tcp_exchange_answers)

lemma udp_exchange_answers:
  "udp_exchange net k q a = Some p \<Longrightarrow> parse q = Inr e \<Longrightarrow> answers_query e p"
  by (auto simp: udp_exchange_def dest: udp_receive_answers)

lemma wf_query:
  assumes "wf_name name" "canonical_rtype qtype"
  shows "wf_packet \<lparr>p_id = qid, p_flags = flags, p_questions = [\<lparr>q_name = name, q_type = qtype, q_class = c\<rparr>],
    p_answers = [], p_authority = [], p_additional = [], edns_udp_size = sz, dnssec_ok = d\<rparr>"
  using assms by (simp add: wf_packet_def wf_question_def)

lemma parse_build_query:
  assumes "wf_name name" "canonical_rtype qtype"
  shows "\<exists>e. parse (build_query qid name qtype r) = Inr e \<and> p_id e = qid \<and>
    p_questions e = [\<lparr>q_name = name, q_type = qtype, q_class = CLASS_IN\<rparr>]"
  using parse_of_serialize [OF wf_query [OF assms]]
  by (simp add: build_query_def build_query_flags_def sent_packet_def)

text \<open>
  Whatever datagrams and TCP streams arrive, a reply that is used is a response with the ID of
  the query that was sent and with its question: name up to case, type and class.
\<close>

theorem reply_matches_query:
  assumes "wf_name name" "canonical_rtype qtype"
    and "udp_exchange net k (build_query qid name qtype r) addr = Some p"
  shows "is_response p \<and> p_id p = qid \<and> (\<exists>q qs. p_questions p = q # qs \<and>
    to_lower (q_name q) = to_lower name \<and> q_type q = qtype \<and> q_class q = CLASS_IN)"
proof -
  obtain e where "parse (build_query qid name qtype r) = Inr e" "p_id e = qid"
    "p_questions e = [\<lparr>q_name = name, q_type = qtype, q_class = CLASS_IN\<rparr>]"
    using parse_build_query [OF assms(1,2)] by blast
  with udp_exchange_answers [OF assms(3)] show ?thesis
    by (auto simp: answers_query_def split: list.splits)
qed

section \<open>A network that answers\<close>

text \<open>A reply to the question \<open>e. A\<close>: no such record, with the SOA that proves it.\<close>

definition nodata_reply :: packet where
  "nodata_reply =
     \<lparr>p_id = 0, p_flags = 0x8400, p_questions = [\<lparr>q_name = ''e'', q_type = A, q_class = 1\<rparr>],
      p_answers = [],
      p_authority = [\<lparr>r_name = ''e'', r_type = SOA, r_class = 1, r_ttl = 60,
         r_rdata = b_soa ''n.e'' ''h.e'' 1 2 3 4 5\<rparr>],
      p_additional = [], edns_udp_size = 0, dnssec_ok = False\<rparr>"

definition answer_reply :: packet where
  "answer_reply = nodata_reply\<lparr>p_authority := [],
     p_answers := [\<lparr>r_name = ''e'', r_type = A, r_class = 1, r_ttl = 60, r_rdata = [192, 0, 2, 1]\<rparr>]\<rparr>"

definition reply_net :: "packet \<Rightarrow> network_io" where
  "reply_net p = \<lparr>net_id = (\<lambda>k. 0), net_udp = (\<lambda>k a q. [Datagram (serialize p False)]),
     net_tcp = (\<lambda>k a q. Inl ())\<rparr>"

lemma wf_e: "wf_name ''e''" "wf_name ''n.e''" "wf_name ''h.e''"
  by (simp_all add: wf_name_def wf_label_def to_lower_def ascii_lower_def byte_of_char_def)

lemma wf_rdata_b_soa:
  assumes "wf_name m" "wf_name r"
  shows "wf_rdata SOA (b_soa m r serial refresh retry expire minimum)" (is "wf_rdata SOA ?b")
proof -
  let ?t = "be32 serial @ be32 refresh @ be32 retry @ be32 expire @ be32 minimum"
  have b: "?b = b_name m @ b_name r @ ?t" by (simp add: b_soa_def)
  have "p_name ?b 0 = Inr (m, length (b_name m))"
    using cname.dec_enc_append [OF assms(1), of "[]" "b_name r @ ?t"] by (simp add: b)
  moreover have "p_name ?b (length (b_name m)) = Inr (r, length (b_name m) + length (b_name r))"
    using cname.dec_enc_append [OF assms(2), of "b_name m" ?t] by (simp add: b)
  ultimately show ?thesis using assms by (simp add: wf_rdata_def) (simp add: b)
qed

lemma wf_nodata_reply: "wf_packet nodata_reply"
proof -
  have "length (b_soa ''n.e'' ''h.e'' 1 2 3 4 5) < 65536"
    by (simp add: b_soa_def b_name_def b_label_def trim_end_dots_def)
  then show ?thesis
    using wf_e wf_rdata_b_soa
    by (simp add: nodata_reply_def wf_packet_def wf_question_def wf_record_def
        canonical_rtype_def rtype_from_def)
qed

lemma reply_exchange:
  assumes "wf_packet p" "edns_udp_size p = 0" "\<not> dnssec_ok p" "length (serialize p False) \<le> 4096"
    and "p_flags p = 0x8400" "p_id p = 0" "p_questions p = [\<lparr>q_name = ''e'', q_type = A, q_class = 1\<rparr>]"
  shows "udp_exchange (reply_net p) k (build_query 0 ''e'' A False) a = Some p"
proof -
  obtain e where e: "parse (build_query 0 ''e'' A False) = Inr e" "p_id e = 0"
    "p_questions e = [\<lparr>q_name = ''e'', q_type = A, q_class = CLASS_IN\<rparr>]"
    using parse_build_query [OF wf_e(1), of A 0 False] by (auto simp: canonical_rtype_def rtype_from_def)
  have p: "parse (serialize p False) = Inr p"
    using parse_of_serialize [OF assms(1), of False] assms(2,3)
    by (cases p) (simp add: sent_packet_def with_opt_def)
  have "answers_query e p" "\<not> truncated p"
    using e assms(5-7) by (simp_all add: answers_query_def truncated_def is_response_def CLASS_IN_def)
  then show ?thesis using e p assms(4) by (simp add: udp_exchange_def reply_net_def)
qed

lemma nodata_exchange: "udp_exchange (reply_net nodata_reply) k (build_query 0 ''e'' A False) a = Some nodata_reply"
proof (rule reply_exchange [OF wf_nodata_reply])
  show "length (serialize nodata_reply False) \<le> 4096"
    by (simp add: serialize_def nodata_reply_def b_question_def b_record_def b_soa_def b_name_def
        b_label_def trim_end_dots_def with_opt_def)
qed (simp_all add: nodata_reply_def)

lemma answer_exchange: "udp_exchange (reply_net answer_reply) k (build_query 0 ''e'' A False) a = Some answer_reply"
proof (rule reply_exchange)
  show "wf_packet answer_reply"
    using wf_e by (simp add: answer_reply_def nodata_reply_def wf_packet_def wf_question_def wf_record_def
        wf_rdata_def canonical_rtype_def rtype_from_def)
  show "length (serialize answer_reply False) \<le> 4096"
    by (simp add: serialize_def answer_reply_def nodata_reply_def b_question_def b_record_def b_name_def
        b_label_def trim_end_dots_def with_opt_def)
qed (simp_all add: answer_reply_def nodata_reply_def)

lemma reply_matches_query_witness:
  "to_lower (q_name (hd (p_questions nodata_reply))) = to_lower ''e''"
  using reply_matches_query [OF wf_e(1) _ nodata_exchange] by (auto simp: canonical_rtype_def rtype_from_def)

section \<open>Where an answer comes from\<close>

text \<open>
  \<open>sourced net qtype p\<close>: \<open>p\<close> is the reply of a server to a query for some name, with everything
  outside a zone that contains that name removed.
\<close>

definition sourced :: "network_io \<Rightarrow> RType \<Rightarrow> packet \<Rightarrow> bool" where
  "sourced net qtype p \<longleftrightarrow>
     (\<exists>name zone j k ns reply. in_bailiwick name zone \<and>
        udp_exchange net k (build_query (net_id net j) name qtype False) ns = Some reply \<and>
        p = retain_bailiwick zone reply)"

lemma ask_servers_Some:
  "ask_servers net q name nss seen k = (Some reply, seen', k') \<Longrightarrow>
    \<exists>k ns. ns \<in> set nss \<and> udp_exchange net k q ns = Some reply"
  by (induction net q name nss seen k rule: ask_servers.induct) (auto split: if_splits option.splits)

lemma in_bailiwick_root: "in_bailiwick name ''.''"
  by (simp add: in_bailiwick_def trim_end_dots_def)

lemma delegation_in: "delegation st pkt = Some zone \<Longrightarrow> in_bailiwick (current_name st) zone"
  by (auto simp: delegation_def Let_def split: option.splits if_splits)

definition result_ok :: "(packet \<Rightarrow> bool) \<Rightarrow> (packet \<Rightarrow> bool) \<Rightarrow> ResolveResult \<Rightarrow> bool" where
  "result_ok P Q res \<longleftrightarrow> (case res of ResAnswer p \<Rightarrow> P p | ResNxDomain p \<Rightarrow> Q p | ResServFail r \<Rightarrow> True)"

lemma classify_Finish:
  "classify qtype st pkt = Finish res \<Longrightarrow>
    result_ok (\<lambda>p. p = pkt \<and> (qtype \<noteq> CNAME \<longrightarrow> list_all (\<lambda>r. r_type r \<noteq> CNAME) (p_answers p))) (\<lambda>p. p = pkt) res"
  by (auto simp: classify_def result_ok_def Let_def find_None_iff list_all_iff split: option.splits if_splits)

lemma classify_Referral: "classify qtype st pkt = Referral zone names \<Longrightarrow> in_bailiwick (current_name st) zone"
  by (auto simp: classify_def Let_def dest: delegation_in split: option.splits if_splits)

text \<open>One induction over the loop for whatever holds of filtered replies.\<close>

lemma resolve_loop_result:
  assumes "in_bailiwick (current_name st) (current_zone st)"
  shows "result_ok (\<lambda>p. sourced net qtype p \<and> (qtype \<noteq> CNAME \<longrightarrow> list_all (\<lambda>r. r_type r \<noteq> CNAME) (p_answers p)))
    (sourced net qtype) (fst (resolve_loop net look qtype n st k))"
  using assms
proof (induction n arbitrary: st k)
  case 0
  then show ?case by (simp add: result_ok_def)
next
  case (Suc n)
  let ?q = "build_query (net_id net k) (current_name st) qtype False"
  obtain resp seen k1 where ask: "ask_servers net ?q (current_name st) (nameservers st) (visited st) k = (resp, seen, k1)"
    using prod_cases3 by blast
  show ?case
  proof (cases resp)
    case None
    with ask show ?thesis by (simp add: result_ok_def)
  next
    case (Some reply)
    let ?pkt = "retain_bailiwick (current_zone st) reply"
    let ?st = "st\<lparr>visited := seen\<rparr>"
    have src: "sourced net qtype ?pkt"
      using ask_servers_Some [OF ask [unfolded Some]] Suc.prems unfolding sourced_def by blast
    show ?thesis
    proof (cases "classify qtype ?st ?pkt")
      case (Finish res)
      have "result_ok (\<lambda>p. sourced net qtype p \<and> (qtype \<noteq> CNAME \<longrightarrow> list_all (\<lambda>r. r_type r \<noteq> CNAME) (p_answers p)))
          (sourced net qtype) res"
        using classify_Finish [OF Finish] src by (cases res) (auto simp: result_ok_def)
      with ask Some Finish show ?thesis by simp
    next
      case (FollowCname target)
      with ask Some show ?thesis by (simp add: Suc.IH in_bailiwick_root)
    next
      case (Referral zone names)
      obtain ips k2 where "(case glue names ?pkt of [] \<Rightarrow> resolve_ns look names k1 | ips \<Rightarrow> (ips, k1)) = (ips, k2)"
        by fastforce
      then show ?thesis
        using ask Some Referral classify_Referral [OF Referral] by (simp add: Suc.IH) (simp add: result_ok_def)
    qed
  qed
qed

lemma iterative_resolve_result:
  "result_ok (\<lambda>p. sourced net qtype p \<and> (qtype \<noteq> CNAME \<longrightarrow> list_all (\<lambda>r. r_type r \<noteq> CNAME) (p_answers p)))
    (sourced net qtype) (fst (iterative_resolve net n name qtype k))"
proof (cases n)
  case 0
  then show ?thesis by (simp add: result_ok_def)
next
  case (Suc m)
  then show ?thesis by (simp add: resolve_loop_result start_state_def in_bailiwick_root)
qed

lemma retain_bailiwick_all:
  "p = retain_bailiwick zone reply \<Longrightarrow>
    list_all (\<lambda>r. in_bailiwick (r_name r) zone) (p_answers p @ p_authority p)"
  by (auto simp: retain_bailiwick_def list_all_iff)


lemma in_bailiwick_refl: "in_bailiwick n n"
  by (simp add: in_bailiwick_def Let_def)

lemma referrals: "MAX_REFERRALS = Suc 19"
  by (simp add: MAX_REFERRALS_def)

lemma answer_run:
  "iterative_resolve (reply_net answer_reply) (Suc n) ''e'' A k = (ResAnswer answer_reply, k + 1)"
proof -
  obtain rest where root: "ROOT_SERVERS = hd ROOT_SERVERS # rest" by (simp add: ROOT_SERVERS_def)
  have "ask_servers (reply_net answer_reply) (build_query 0 ''e'' A False) ''e'' ROOT_SERVERS {} k =
      (Some answer_reply, {(''e'', hd ROOT_SERVERS)}, k + 1)"
    by (subst root) (simp add: answer_exchange)
  moreover have "classify A st answer_reply = Finish (ResAnswer answer_reply)" for st
    by (simp add: classify_def answer_reply_def nodata_reply_def rcode_def rcode_defs)
  moreover have "retain_bailiwick ''.'' answer_reply = answer_reply"
    by (simp add: retain_bailiwick_def in_bailiwick_root)
  moreover have "net_id (reply_net answer_reply) k = 0" by (simp add: reply_net_def)
  ultimately show ?thesis
    unfolding iterative_resolve.simps referrals resolve_loop.simps by (simp add: start_state_def)
qed


text \<open>
  The aliases are dropped: an answer to a query for another type never contains a CNAME
  record, so its records belong to the last target and nothing ties them to the name asked for.
\<close>

theorem iterative_answer_has_no_alias:
  assumes "fst (iterative_resolve net n name qtype k) = ResAnswer p" "qtype \<noteq> CNAME"
  shows "list_all (\<lambda>r. r_type r \<noteq> CNAME) (p_answers p)"
  using iterative_resolve_result [of net qtype n name k] assms by (auto simp: result_ok_def)

lemma iterative_answer_has_no_alias_witness: "list_all (\<lambda>r. r_type r \<noteq> CNAME) (p_answers answer_reply)"
  using iterative_answer_has_no_alias [of "reply_net answer_reply" "Suc 0" "''e''" A 0 answer_reply]
  by (simp add: answer_run del: iterative_resolve.simps)

section \<open>Negative answers\<close>

lemma retain_root: "retain_bailiwick ''.'' pkt = pkt"
  by (simp add: retain_bailiwick_def in_bailiwick_root)

text \<open>
  A reply without an answer whose authority section has the SOA of the zone, the normal form of
  "no such record", is taken for a broken referral and becomes a server failure.
\<close>

theorem nodata_is_servfail:
  assumes "udp_exchange net k (build_query (net_id net k) name qtype False) (hd ROOT_SERVERS) = Some reply"
    and "rcode reply = RCODE_NOERROR" "p_answers reply = []" "p_authority reply \<noteq> []"
    and "list_all (\<lambda>r. r_type r = SOA) (p_authority reply)"
  shows "iterative_resolve net (Suc n) name qtype k = (ResServFail BogusReferral, k + 1)"
proof -
  obtain rest where root: "ROOT_SERVERS = hd ROOT_SERVERS # rest" by (simp add: ROOT_SERVERS_def)
  have "ask_servers net (build_query (net_id net k) name qtype False) name ROOT_SERVERS {} k =
      (Some reply, {(name, hd ROOT_SERVERS)}, k + 1)"
    by (subst root) (simp add: assms(1))
  moreover have "find (\<lambda>r. r_type r = NS) (p_authority reply) = None"
    using assms(5) by (auto simp: list_all_iff find_None_iff)
  then have "classify qtype st reply = Finish (ResServFail BogusReferral)" for st
    using assms(2-4) by (simp add: classify_def delegation_def rcode_defs)
  ultimately show ?thesis
    unfolding iterative_resolve.simps referrals resolve_loop.simps by (simp add: start_state_def retain_root)
qed

lemma nodata_is_servfail_witness:
  "iterative_resolve (reply_net nodata_reply) 5 ''e'' A 0 = (ResServFail BogusReferral, 1)"
proof -
  have "net_id (reply_net nodata_reply) 0 = 0" by (simp add: reply_net_def)
  moreover have "rcode nodata_reply = RCODE_NOERROR" "p_answers nodata_reply = []" "p_authority nodata_reply \<noteq> []"
    "list_all (\<lambda>r. r_type r = SOA) (p_authority nodata_reply)"
    by (simp_all add: nodata_reply_def rcode_def rcode_defs)
  ultimately show ?thesis
    using nodata_is_servfail [of "reply_net nodata_reply" 0 "''e''" A nodata_reply 4] nodata_exchange
    by (simp del: iterative_resolve.simps)
qed

end
