(* ===== verification/Metrics.thy ===== *)
theory Metrics
  imports Prelude
begin

text \<open>
  The counters of \<open>src/src/metrics.rs\<close>.  Each is an atomic \<open>u64\<close> that wraps; the two ratios are
  \<open>f64\<close> computations whose rounding is the argument \<open>rnd\<close>.
\<close>

record metrics =
  m_total_queries :: u64
  m_cache_hits :: u64
  m_cache_misses :: u64
  m_success :: u64
  m_nxdomain :: u64
  m_servfail :: u64
  m_dnssec_valid :: u64
  m_dnssec_bogus :: u64
  m_tcp_queries :: u64
  m_udp_queries :: u64
  m_total_query_time :: u64
  m_query_count_for_avg :: u64
  m_dropped_rate_limited :: u64
  m_dropped_recursion_limit :: u64
  m_dropped_connections :: u64

definition metrics_new :: metrics where
  "metrics_new =
     \<lparr>m_total_queries = 0, m_cache_hits = 0, m_cache_misses = 0, m_success = 0, m_nxdomain = 0,
      m_servfail = 0, m_dnssec_valid = 0, m_dnssec_bogus = 0, m_tcp_queries = 0, m_udp_queries = 0,
      m_total_query_time = 0, m_query_count_for_avg = 0, m_dropped_rate_limited = 0,
      m_dropped_recursion_limit = 0, m_dropped_connections = 0\<rparr>"

definition record_query :: "metrics \<Rightarrow> metrics" where
  "record_query m = m\<lparr>m_total_queries := m_total_queries m + 1\<rparr>"
definition record_udp_query :: "metrics \<Rightarrow> metrics" where
  "record_udp_query m = m\<lparr>m_udp_queries := m_udp_queries m + 1\<rparr>"
definition record_tcp_query :: "metrics \<Rightarrow> metrics" where
  "record_tcp_query m = m\<lparr>m_tcp_queries := m_tcp_queries m + 1\<rparr>"
definition record_cache_hit :: "metrics \<Rightarrow> metrics" where
  "record_cache_hit m = m\<lparr>m_cache_hits := m_cache_hits m + 1\<rparr>"
definition record_cache_miss :: "metrics \<Rightarrow> metrics" where
  "record_cache_miss m = m\<lparr>m_cache_misses := m_cache_misses m + 1\<rparr>"
definition record_success :: "metrics \<Rightarrow> metrics" where
  "record_success m = m\<lparr>m_success := m_success m + 1\<rparr>"
definition record_nxdomain :: "metrics \<Rightarrow> metrics" where
  "record_nxdomain m = m\<lparr>m_nxdomain := m_nxdomain m + 1\<rparr>"
definition record_servfail :: "metrics \<Rightarrow> metrics" where
  "record_servfail m = m\<lparr>m_servfail := m_servfail m + 1\<rparr>"
definition record_dnssec_valid :: "metrics \<Rightarrow> metrics" where
  "record_dnssec_valid m = m\<lparr>m_dnssec_valid := m_dnssec_valid m + 1\<rparr>"
definition record_dnssec_bogus :: "metrics \<Rightarrow> metrics" where
  "record_dnssec_bogus m = m\<lparr>m_dnssec_bogus := m_dnssec_bogus m + 1\<rparr>"
definition record_query_time :: "u64 \<Rightarrow> metrics \<Rightarrow> metrics" where
  "record_query_time ns m =
     m\<lparr>m_total_query_time := m_total_query_time m + ns, m_query_count_for_avg := m_query_count_for_avg m + 1\<rparr>"
definition record_dropped_rate_limited :: "metrics \<Rightarrow> metrics" where
  "record_dropped_rate_limited m = m\<lparr>m_dropped_rate_limited := m_dropped_rate_limited m + 1\<rparr>"
definition record_dropped_recursion_limit :: "metrics \<Rightarrow> metrics" where
  "record_dropped_recursion_limit m = m\<lparr>m_dropped_recursion_limit := m_dropped_recursion_limit m + 1\<rparr>"
definition record_dropped_connection :: "metrics \<Rightarrow> metrics" where
  "record_dropped_connection m = m\<lparr>m_dropped_connections := m_dropped_connections m + 1\<rparr>"

lemmas metrics_defs = record_query_def record_udp_query_def record_tcp_query_def record_cache_hit_def
  record_cache_miss_def record_success_def record_nxdomain_def record_servfail_def
  record_dnssec_valid_def record_dnssec_bogus_def record_query_time_def
  record_dropped_rate_limited_def record_dropped_recursion_limit_def record_dropped_connection_def

definition get_total_queries :: "metrics \<Rightarrow> u64" where
  "get_total_queries m = m_total_queries m"

end
