(* ===== verification/Config.thy ===== *)
theory Config
  imports Net
begin

text \<open>
  \<open>ServerConfig\<close> of \<open>src/src/config.rs\<close> and its defaults.
\<close>

record tls_listener_config =
  tls_bind :: string
  tls_cert_path :: string
  tls_key_path :: string

datatype tsig_secret_source = Inline string | Keychain string | File string

record tsig_key_config =
  tkc_name :: string
  tkc_algorithm :: string
  tkc_source :: tsig_secret_source

record rate_limit_config =
  queries_per_second :: u32
  per_ip :: bool
  global_queries_per_second :: u32
  max_tracked_sources :: u64

record server_config =
  c_bind :: string
  c_port :: u16
  c_use_forwarders :: bool
  dnssec_validate :: bool
  dnssec_strict :: bool
  allow_recursion :: "network list"
  cache_max :: u64
  neg_cache_ttl :: u32
  zone_files :: "string list"
  log_level :: string
  log_queries :: bool
  tcp_timeout_ms :: u64
  c_rate_limit :: "rate_limit_config option"
  metrics_port :: u16
  worker_threads :: u64
  udp_receivers :: u64
  c_dot :: "tls_listener_config option"
  c_doh :: "tls_listener_config option"
  c_tsig_keys :: "tsig_key_config list"
  tsig_require_all :: bool

section \<open>Defaults\<close>

text \<open>
  127/8, 10/8, 172.16/12, 192.168/16, 169.254/16, 100.64/10, ::1/128, fc00::/7 and fe80::/10, as
  \<open>Network::parse\<close> reads them.
\<close>

definition DEFAULT_ALLOW_RECURSION :: "network list" where
  "DEFAULT_ALLOW_RECURSION =
     [\<lparr>n_address = V4 0x7F000000, n_prefix = 8\<rparr>, \<lparr>n_address = V4 0x0A000000, n_prefix = 8\<rparr>,
      \<lparr>n_address = V4 0xAC100000, n_prefix = 12\<rparr>, \<lparr>n_address = V4 0xC0A80000, n_prefix = 16\<rparr>,
      \<lparr>n_address = V4 0xA9FE0000, n_prefix = 16\<rparr>, \<lparr>n_address = V4 0x64400000, n_prefix = 10\<rparr>,
      \<lparr>n_address = V6 1, n_prefix = 128\<rparr>, \<lparr>n_address = V6 (push_bit 112 0xFC00), n_prefix = 7\<rparr>,
      \<lparr>n_address = V6 (push_bit 112 0xFE80), n_prefix = 10\<rparr>]"

definition server_config_default :: server_config where
  "server_config_default =
     \<lparr>c_bind = ''0.0.0.0'', c_port = 53, c_use_forwarders = True, dnssec_validate = True, dnssec_strict = False,
      allow_recursion = DEFAULT_ALLOW_RECURSION, cache_max = 100000, neg_cache_ttl = 300, zone_files = [],
      log_level = ''info'', log_queries = False, tcp_timeout_ms = 5000, c_rate_limit = None, metrics_port = 0,
      worker_threads = 64, udp_receivers = 2, c_dot = None, c_doh = None, c_tsig_keys = [], tsig_require_all = False\<rparr>"

text \<open>No address of the public IPv4 internet may recurse by default.\<close>

lemma default_networks_v4:
  "list_ex (\<lambda>net. net_contains net (V4 a)) DEFAULT_ALLOW_RECURSION \<longleftrightarrow>
    drop_bit 24 a = 127 \<or> drop_bit 24 a = 10 \<or> drop_bit 20 a = 0xAC1 \<or> drop_bit 16 a = 0xC0A8 \<or>
    drop_bit 16 a = 0xA9FE \<or> drop_bit 22 a = 0x191"
  by (auto simp: DEFAULT_ALLOW_RECURSION_def net_contains_def masked_eq drop_bit_eq_div)

end
