(* ===== verification/Server.thy ===== *)
theory Server
  imports Cache Config Dnssec Metrics Nsec Nsec3 RateLimit Resolver Tsig ZoneManager ZoneTransfer
begin

text \<open>
  The query pipeline of \<open>src/src/server.rs\<close>.  The shared \<open>State\<close> is a record that every operation
  returns updated; a query is one step.  What lies outside is the record \<open>env\<close>: clocks, the crypto
  crates, the network with the number of the next exchange, the rounding and the hash function.
\<close>

section \<open>State and environment\<close>

record server_state =
  s_zones :: "zone list"
  s_cache :: cache
  s_config :: server_config
  s_limiter :: "rate_limiter option"
  s_metrics :: metrics
  s_manager :: zone_manager
  s_keys :: keyring

record env =
  e_now :: nat
  e_unix :: u64
  e_elapsed :: u64
  e_mac :: mac
  e_crypto :: crypto
  e_sha1 :: "u8 list \<Rightarrow> u8 list"
  e_net :: network_io
  e_exchange :: nat
  e_resolver :: resolver_config
  e_round :: rounding
  e_hash :: "ip_addr \<Rightarrow> nat"

datatype Recursion = InlineRecursion | Defer | Resume

datatype Answer = Ready "u8 list option" | Recursive

definition MAX_CNAME_CHAIN :: nat where "MAX_CNAME_CHAIN = 8"

definition count :: "(metrics \<Rightarrow> metrics) \<Rightarrow> server_state \<Rightarrow> server_state" where
  "count f st = st\<lparr>s_metrics := f (s_metrics st)\<rparr>"

section \<open>Rate limit and error replies\<close>

definition admit :: "env \<Rightarrow> ip_addr \<Rightarrow> server_state \<Rightarrow> bool \<times> server_state" where
  "admit env peer st =
     (case s_limiter st of None \<Rightarrow> (True, st)
      | Some rl \<Rightarrow>
          (let (ok, rl) = rl_check (e_round env) (e_hash env) (e_now env) peer rl;
               st = st\<lparr>s_limiter := Some rl\<rparr>
           in if ok then (True, st) else (False, count record_dropped_rate_limited st)))"

definition error_response :: "packet \<Rightarrow> u8 \<Rightarrow> u8 list" where
  "error_response pkt code =
     serialize (set_rcode code ((new_response (p_id pkt) (p_flags pkt))\<lparr>p_questions := p_questions pkt\<rparr>)) False"

definition formerr_response :: "u8 list \<Rightarrow> u8 list" where
  "formerr_response data =
     (let qid = (if 2 \<le> length data then of_be16 (data ! 0) (data ! 1) else 0)
      in serialize (set_rcode 1 (new_response qid 0)) False)"

definition build_truncated :: "u8 list \<Rightarrow> u8 list" where
  "build_truncated query =
     (case parse query of
        Inr pkt \<Rightarrow>
          serialize (set_ra (set_tc ((new_response (p_id pkt) (p_flags pkt))\<lparr>p_questions := p_questions pkt\<rparr>))) False
      | Inl _ \<Rightarrow> formerr_response query)"

section \<open>Authoritative answers\<close>

definition covering_rrsigs :: "zone \<Rightarrow> string \<Rightarrow> RType \<Rightarrow> rr list" where
  "covering_rrsigs z name covered_type =
     (case zone_lookup z name RRSIG of None \<Rightarrow> []
      | Some rrsigs \<Rightarrow>
          filter (\<lambda>r. case parse_rrsig (r_rdata r) of
                    Inr sig \<Rightarrow> type_covered sig = rtype_to covered_type | Inl _ \<Rightarrow> False) rrsigs)"

text \<open>What \<open>push_signed_nsec\<close> appends.\<close>

definition push_signed_nsec :: "zone \<Rightarrow> string \<Rightarrow> rr list" where
  "push_signed_nsec z owner =
     (case zone_lookup z owner NSEC of None \<Rightarrow> [] | Some nsec \<Rightarrow> nsec @ covering_rrsigs z owner NSEC)"

definition signed :: "bool \<Rightarrow> rr list \<Rightarrow> rr list" where
  "signed do_bit rs = (if do_bit then rs else [])"

text \<open>The most specific zone; \<open>max_by_key\<close> returns the last of several maxima.\<close>

fun max_by_origin :: "zone list \<Rightarrow> zone option" where
  "max_by_origin [] = None"
| "max_by_origin (z # zs) =
     (case max_by_origin zs of None \<Rightarrow> Some z
      | Some b \<Rightarrow> if length (z_origin b) < length (z_origin z) then Some z else Some b)"

definition authoritative_zone :: "zone list \<Rightarrow> string \<Rightarrow> zone option" where
  "authoritative_zone zones name = max_by_origin (filter (\<lambda>z. is_authoritative_for z name) zones)"

text \<open>The CNAME loop with \<open>n\<close> rounds left: the answers, the last name and whether it is answered.\<close>

fun cname_loop :: "zone \<Rightarrow> bool \<Rightarrow> RType \<Rightarrow> nat \<Rightarrow> string \<Rightarrow> rr list \<times> string \<times> bool" where
  "cname_loop z do_bit qtype 0 name = ([], name, False)"
| "cname_loop z do_bit qtype (Suc n) name =
     (case zone_lookup z name qtype of
        Some records \<Rightarrow> (records @ signed do_bit (covering_rrsigs z name qtype), name, True)
      | None \<Rightarrow>
          if qtype = CNAME then ([], name, False)
          else case zone_lookup z name CNAME of
            Some (cname # _) \<Rightarrow>
              (let here = cname # signed do_bit (covering_rrsigs z name CNAME) in
               case p_name (r_rdata cname) 0 of
                 Inl _ \<Rightarrow> (here, name, False)
               | Inr (target, _) \<Rightarrow>
                   if \<not> is_authoritative_for z target then (here, name, True)
                   else (let (rest, last_name, answered) = cname_loop z do_bit qtype n target
                         in (here @ rest, last_name, answered)))
          | _ \<Rightarrow> ([], name, False))"

definition nodata_proof :: "zone \<Rightarrow> string \<Rightarrow> rr list" where
  "nodata_proof z name =
     (if is_signed z then
        (case (if zone_lookup z name NSEC \<noteq> None then Some name else nsec_covering_owner z name) of
           Some owner \<Rightarrow> push_signed_nsec z owner
         | None \<Rightarrow> [])
      else [])"

definition nxdomain_proof :: "(u8 list \<Rightarrow> u8 list) \<Rightarrow> zone \<Rightarrow> string \<Rightarrow> rr list" where
  "nxdomain_proof sha1 z name =
     (case nsec3_covering sha1 z name of
        Some nsec3 \<Rightarrow> [nsec3]
      | None \<Rightarrow>
          if is_signed z then
            let wildcard = ''*.'' @ closest_encloser z name;
                name_owner = nsec_covering_owner z name;
                wildcard_owner = nsec_covering_owner z wildcard
            in (case name_owner of Some owner \<Rightarrow> push_signed_nsec z owner | None \<Rightarrow> []) @
               (case wildcard_owner of
                  Some owner \<Rightarrow> if Some owner \<noteq> name_owner then push_signed_nsec z owner else []
                | None \<Rightarrow> [])
          else [])"

text \<open>The reply and the counters it bumps.\<close>

definition answer_authoritatively :: "(u8 list \<Rightarrow> u8 list) \<Rightarrow> zone \<Rightarrow> bool \<Rightarrow> question \<Rightarrow> packet \<Rightarrow>
    packet \<times> (metrics \<Rightarrow> metrics)" where
  "answer_authoritatively sha1 z do_bit q resp =
     (let (answers, name, answered) = cname_loop z do_bit (q_type q) MAX_CNAME_CHAIN (q_name q);
          resp = (set_aa resp)\<lparr>p_answers := answers\<rparr>
      in if answered then (resp, record_success)
         else
           let soa_part = (case zone_soa z of None \<Rightarrow> []
                           | Some soa \<Rightarrow> soa @ signed do_bit (covering_rrsigs z (z_origin z) SOA))
           in if name_exists z name
              then (resp\<lparr>p_authority := soa_part @ signed do_bit (nodata_proof z name)\<rparr>, record_success)
              else ((set_rcode RCODE_NXDOMAIN resp)\<lparr>p_authority := soa_part @ signed do_bit (nxdomain_proof sha1 z name)\<rparr>,
                    record_nxdomain))"

section \<open>Upstream answers\<close>

definition rrsigs_of :: "packet \<Rightarrow> rr list" where
  "rrsigs_of up = filter (\<lambda>r. r_type r = RRSIG) (p_answers up)"

definition rrset_of :: "packet \<Rightarrow> rr list" where
  "rrset_of up = filter (\<lambda>r. r_type r \<noteq> RRSIG \<and> r_type r \<noteq> DNSKEY) (p_answers up)"

definition dnskeys_of :: "packet \<Rightarrow> rr list" where
  "dnskeys_of up = filter (\<lambda>r. r_type r = DNSKEY) (p_additional up @ p_answers up)"

text \<open>The validation of a recursive answer; \<open>None\<close> when there is nothing to validate.\<close>

definition validate_upstream :: "env \<Rightarrow> nat \<Rightarrow> server_config \<Rightarrow> packet \<Rightarrow> question \<Rightarrow> packet \<Rightarrow>
    ValidationResult option" where
  "validate_upstream env k cfg pkt q up =
     (if dnssec_validate cfg \<and> dnssec_ok pkt \<and> p_answers up \<noteq> [] \<and> rrsigs_of up \<noteq> [] \<and> dnskeys_of up \<noteq> []
      then Some (if dnssec_strict cfg
                 then chain_validate (e_crypto env) (e_unix env) (q_name q) (rrset_of up) (rrsigs_of up)
                        (\<lambda>name t. fst (fetch_with_rrsig (e_net env) (e_resolver env) name t k))
                 else validate_rrset (e_crypto env) (e_unix env) (rrset_of up) (rrsigs_of up) (dnskeys_of up))
      else None)"

definition min_ttl :: "packet \<Rightarrow> u32 option" where
  "min_ttl up =
     (case map r_ttl (filter (\<lambda>r. r_type r \<noteq> RRSIG \<and> r_type r \<noteq> OPT) (p_answers up)) of
        [] \<Rightarrow> None | ttl # ttls \<Rightarrow> Some (fold min ttls ttl))"

definition cache_answer :: "nat \<Rightarrow> question \<Rightarrow> packet \<Rightarrow> cache \<Rightarrow> cache" where
  "cache_answer now q up c =
     (case min_ttl up of None \<Rightarrow> c
      | Some ttl \<Rightarrow>
          if 0 < ttl then insert_positive c now (q_name q) (q_type q) (filter (\<lambda>r. r_type r \<noteq> RRSIG) (p_answers up)) ttl
          else c)"

definition soa_ttl_of :: "server_config \<Rightarrow> packet \<Rightarrow> u32" where
  "soa_ttl_of cfg up =
     (case find (\<lambda>r. r_type r = SOA) (p_authority up) of
        Some r \<Rightarrow> soa_minimum_ttl (r_rdata r) | None \<Rightarrow> neg_cache_ttl cfg)"

text \<open>The reply to a resolver result and the state after it.\<close>

definition answer_recursively :: "env \<Rightarrow> packet \<Rightarrow> question \<Rightarrow> packet \<Rightarrow> server_state \<Rightarrow> packet \<times> server_state" where
  "answer_recursively env pkt q resp st =
     (case resolve (e_net env) (e_resolver env) (q_name q) (q_type q) (e_exchange env) of
        (ResAnswer up, k) \<Rightarrow>
          (let result = validate_upstream env k (s_config st) pkt q up in
           case result of
             Some (Bogus reason) \<Rightarrow>
               (set_rcode RCODE_SERVFAIL resp, count (record_servfail \<circ> record_dnssec_bogus) st)
           | _ \<Rightarrow>
               (let st = (if result = Some Secure then count record_dnssec_valid st else st);
                    st = st\<lparr>s_cache := cache_answer (e_now env) q up (s_cache st)\<rparr>;
                    resp = set_rcode (rcode up) (resp\<lparr>p_answers := p_answers up, p_authority := p_authority up,
                                                       p_additional := p_additional up\<rparr>)
                in (resp, if rcode resp = RCODE_NOERROR then count record_success st else st)))
      | (ResNxDomain up, k) \<Rightarrow>
          (set_rcode RCODE_NXDOMAIN resp\<lparr>p_authority := p_authority up\<rparr>,
           count record_nxdomain
             (st\<lparr>s_cache := insert_negative (s_cache st) (e_now env) (q_name q) (q_type q) NxDomain
                              (soa_ttl_of (s_config st) up)\<rparr>))
      | (ResServFail reason, k) \<Rightarrow> (set_rcode RCODE_SERVFAIL resp, count record_servfail st))"

section \<open>handle_query\<close>

definition response_for :: "packet \<Rightarrow> packet" where
  "response_for pkt =
     (new_response (p_id pkt) (p_flags pkt))\<lparr>p_questions := p_questions pkt, edns_udp_size := edns_udp_size pkt,
       dnssec_ok := dnssec_ok pkt\<rparr>"

definition send :: "packet \<Rightarrow> Answer" where
  "send resp = Ready (Some (serialize resp (edns_udp_size resp > 0)))"

definition timed :: "env \<Rightarrow> server_state \<Rightarrow> server_state" where
  "timed env st = count (record_query_time (e_elapsed env)) st"

definition allowed :: "server_state \<Rightarrow> ip_addr \<Rightarrow> bool" where
  "allowed st peer \<longleftrightarrow> (\<exists>net\<in>set (allow_recursion (s_config st)). net_contains net peer)"

text \<open>Everything after the authoritative zones: cache, then recursion.\<close>

definition answer_from_cache :: "env \<Rightarrow> ip_addr \<Rightarrow> Recursion \<Rightarrow> packet \<Rightarrow> question \<Rightarrow> packet \<Rightarrow> server_state \<Rightarrow>
    Answer \<times> server_state" where
  "answer_from_cache env peer recursion pkt q resp st =
     (if \<not> allowed st peer then (send (set_rcode RCODE_REFUSED resp), st)
      else case cache_get (s_cache st) (e_now env) (q_name q) (q_type q) of
        Some (Records records) \<Rightarrow>
          (send (resp\<lparr>p_answers := records\<rparr>), timed env (count (record_success \<circ> record_cache_hit) st))
      | Some (Negative NxDomain) \<Rightarrow>
          (send (set_rcode RCODE_NXDOMAIN resp), timed env (count (record_nxdomain \<circ> record_cache_hit) st))
      | Some (Negative NoData) \<Rightarrow>
          (send resp, timed env (count (record_success \<circ> record_cache_hit) st))
      | None \<Rightarrow>
          (let st = (if recursion \<noteq> Resume then count record_cache_miss st else st) in
           if \<not> rd pkt then (send (set_rcode RCODE_REFUSED resp), st)
           else if recursion = Defer then (Recursive, st)
           else (let (resp, st) = answer_recursively env pkt q (set_ra resp) st
                 in (send resp, timed env st))))"

definition tsig_refused :: "env \<Rightarrow> u8 list \<Rightarrow> server_state \<Rightarrow> bool" where
  "tsig_refused env data st \<longleftrightarrow>
     tsig_require_all (s_config st) \<and> \<not> keyring_is_empty (s_keys st) \<and>
     (case verify_message (e_mac env) (e_unix env) data (s_keys st) of Inl _ \<Rightarrow> True | Inr _ \<Rightarrow> False)"

text \<open>A message that parses.\<close>

definition answer_packet :: "env \<Rightarrow> ip_addr \<Rightarrow> Recursion \<Rightarrow> packet \<Rightarrow> server_state \<Rightarrow> Answer \<times> server_state" where
  "answer_packet env peer recursion pkt st =
     (if is_response pkt then (Ready None, st)
      else if opcode pkt \<noteq> 0 then (Ready (Some (error_response pkt RCODE_NOTIMP)), st)
      else case p_questions pkt of
        [] \<Rightarrow> (Ready (Some (error_response pkt RCODE_NOERROR)), st)
      | q # _ \<Rightarrow>
          (case authoritative_zone (s_zones st) (q_name q) of
             Some z \<Rightarrow>
               (let (resp, f) = answer_authoritatively (e_sha1 env) z (dnssec_ok pkt) q (response_for pkt)
                in (send resp, timed env (count f st)))
           | None \<Rightarrow> answer_from_cache env peer recursion pkt q (response_for pkt) st))"

definition handle_query :: "env \<Rightarrow> u8 list \<Rightarrow> ip_addr \<Rightarrow> Recursion \<Rightarrow> server_state \<Rightarrow> Answer \<times> server_state" where
  "handle_query env data peer recursion st =
     (let st = (if recursion \<noteq> Resume then count record_query st else st) in
      if length data < 3 \<or> data ! 2 AND 0x80 \<noteq> 0 then (Ready None, st)
      else if tsig_refused env data st
      then (Ready (Some (serialize (set_rcode RCODE_REFUSED (new_response (of_be16 (data ! 0) (data ! 1)) 0)) False)), st)
      else case parse data of
        Inl _ \<Rightarrow> (Ready (Some (formerr_response data)), st)
      | Inr pkt \<Rightarrow> answer_packet env peer recursion pkt st)"

section \<open>respond, UDP and TCP\<close>

text \<open>\<open>None\<close> is a panic of \<open>sign_message\<close>.\<close>

definition maybe_sign_response :: "env \<Rightarrow> u8 list \<Rightarrow> u8 list \<Rightarrow> server_state \<Rightarrow> u8 list option" where
  "maybe_sign_response env req resp st =
     (if keyring_is_empty (s_keys st) then Some resp
      else case parse req of Inl _ \<Rightarrow> Some resp | Inr pkt \<Rightarrow>
        (case find (\<lambda>r. r_type r = TSIG) (p_additional pkt) of None \<Rightarrow> Some resp | Some r \<Rightarrow>
          (case keyring_get (s_keys st) (r_name r) of None \<Rightarrow> Some resp
           | Some key \<Rightarrow> sign_message (e_mac env) (e_unix env) resp key)))"

definition respond :: "env \<Rightarrow> u8 list \<Rightarrow> ip_addr \<Rightarrow> Recursion \<Rightarrow> server_state \<Rightarrow> Answer \<times> server_state" where
  "respond env data peer recursion st =
     (case handle_query env data peer recursion st of
        (Ready (Some resp), st) \<Rightarrow> (Ready (maybe_sign_response env data resp st), st)
      | other \<Rightarrow> other)"

definition handle_query_public :: "env \<Rightarrow> u8 list \<Rightarrow> ip_addr \<Rightarrow> server_state \<Rightarrow> u8 list option \<times> server_state" where
  "handle_query_public env data peer st =
     (case admit env peer st of
        (False, st) \<Rightarrow> (None, st)
      | (True, st) \<Rightarrow>
          (case respond env data peer InlineRecursion st of
             (Ready resp, st) \<Rightarrow> (resp, st) | (Recursive, st) \<Rightarrow> (None, st)))"

definition udp_limit :: "u8 list \<Rightarrow> nat" where
  "udp_limit query =
     (case parse query of Inr pkt \<Rightarrow> min 4096 (max 512 (unat (edns_udp_size pkt))) | Inl _ \<Rightarrow> 512)"

definition send_udp :: "u8 list \<Rightarrow> u8 list \<Rightarrow> u8 list" where
  "send_udp query resp = (if udp_limit query < length resp then build_truncated query else resp)"

datatype udp_outcome = Dropped | Silent | Sent "u8 list" | Queued

text \<open>One datagram of at most 4096 bytes; \<open>room\<close> is whether the recursion pool accepts the job.\<close>

definition udp_receive_step :: "env \<Rightarrow> bool \<Rightarrow> u8 list \<Rightarrow> ip_addr \<Rightarrow> server_state \<Rightarrow> udp_outcome \<times> server_state" where
  "udp_receive_step env room data peer st =
     (case admit env peer st of
        (False, st) \<Rightarrow> (Dropped, st)
      | (True, st) \<Rightarrow>
          (case respond env data peer Defer (count record_udp_query st) of
             (Ready (Some resp), st) \<Rightarrow> (Sent (send_udp data resp), st)
           | (Ready None, st) \<Rightarrow> (Silent, st)
           | (Recursive, st) \<Rightarrow>
               if room then (Queued, st) else (Dropped, count record_dropped_recursion_limit st)))"

text \<open>The queued job, run later.\<close>

definition udp_job :: "env \<Rightarrow> u8 list \<Rightarrow> ip_addr \<Rightarrow> server_state \<Rightarrow> udp_outcome \<times> server_state" where
  "udp_job env data peer st =
     (case respond env data peer Resume st of
        (Ready (Some resp), st) \<Rightarrow> (Sent (send_udp data resp), st)
      | (_, st) \<Rightarrow> (Silent, st))"

definition requester_serial :: "packet \<Rightarrow> u32" where
  "requester_serial pkt =
     (case find (\<lambda>r. r_type r = SOA) (p_authority pkt) of
        None \<Rightarrow> 0
      | Some r \<Rightarrow> (case soa_serial (r_rdata r) of Some n \<Rightarrow> n | None \<Rightarrow> 0))"

fun sign_all :: "env \<Rightarrow> tsig_key \<Rightarrow> u8 list list \<Rightarrow> u8 list list option" where
  "sign_all env key [] = Some []"
| "sign_all env key (m # ms) =
     (case sign_message (e_mac env) (e_unix env) m key of None \<Rightarrow> None
      | Some m \<Rightarrow> map_option ((#) m) (sign_all env key ms))"

text \<open>\<open>Inl\<close> is a panic while signing, \<open>Inr None\<close> a message that is no transfer of a zone here.\<close>

definition maybe_zone_transfer :: "env \<Rightarrow> u8 list \<Rightarrow> server_state \<Rightarrow> unit + u8 list list option" where
  "maybe_zone_transfer env data st =
     (case parse data of Inl _ \<Rightarrow> Inr None | Inr pkt \<Rightarrow>
      (case p_questions pkt of [] \<Rightarrow> Inr None | q # _ \<Rightarrow>
        if q_type q \<noteq> AXFR \<and> q_type q \<noteq> IXFR then Inr None
        else if \<not> keyring_is_empty (s_keys st) \<and>
                (case verify_message (e_mac env) (e_unix env) data (s_keys st) of Inl _ \<Rightarrow> True | Inr _ \<Rightarrow> False)
        then Inr (Some [error_response pkt RCODE_REFUSED])
        else case find (\<lambda>z. is_authoritative_for z (q_name q)) (s_zones st) of None \<Rightarrow> Inr None | Some z \<Rightarrow>
          (let packets =
             (if q_type q = AXFR then axfr_stream pkt z
              else ixfr_stream pkt z (requester_serial pkt)
                     (ixfr_chain (s_manager st) (q_name q) (requester_serial pkt)))
           in if keyring_is_empty (s_keys st) then Inr (Some packets)
              else case keyring_get (s_keys st) ''transfer-key.'' of
                None \<Rightarrow> Inr (Some packets)
              | Some key \<Rightarrow>
                  (case sign_all env key packets of None \<Rightarrow> Inl () | Some ps \<Rightarrow> Inr (Some ps)))))"

text \<open>\<open>(len as u16).to_be_bytes()\<close> and the message.\<close>

definition frame :: "u8 list \<Rightarrow> u8 list" where
  "frame m = be16 (of_nat (length m)) @ m"

text \<open>One message of a TCP session: what is written.\<close>

definition tcp_message :: "env \<Rightarrow> u8 list \<Rightarrow> ip_addr \<Rightarrow> server_state \<Rightarrow> u8 list \<times> server_state" where
  "tcp_message env data peer st =
     (let st = count record_tcp_query st in
      case maybe_zone_transfer env data st of
        Inl _ \<Rightarrow> ([], st)
      | Inr (Some packets) \<Rightarrow> (concat (map frame packets), st)
      | Inr None \<Rightarrow>
          (case handle_query_public env data peer st of
             (Some resp, st) \<Rightarrow> (frame resp, st) | (None, st) \<Rightarrow> ([], st)))"

text \<open>A session over the bytes a client sends: it ends at a zero length or an incomplete message.\<close>

function tcp_session :: "env \<Rightarrow> u8 list \<Rightarrow> ip_addr \<Rightarrow> server_state \<Rightarrow> u8 list \<times> server_state" where
  "tcp_session env stream peer st =
     (if length stream < 2 then ([], st)
      else let qlen = unat (of_be16 (stream ! 0) (stream ! 1)) in
        if qlen = 0 \<or> length stream < 2 + qlen then ([], st)
        else let (out, st) = tcp_message env (take qlen (drop 2 stream)) peer st;
                 (rest, st) = tcp_session env (drop (2 + qlen) stream) peer st
             in (out @ rest, st))"
  by pat_completeness auto
termination
  by (relation "measure (\<lambda>(env, stream, peer, st). length stream)") auto

declare tcp_session.simps [simp del]

section \<open>Background work\<close>

text \<open>The sweep every minute, and a reload on SIGHUP or once a day, given what the zone files say.\<close>

definition evict_step :: "env \<Rightarrow> server_state \<Rightarrow> server_state" where
  "evict_step env st = st\<lparr>s_cache := evict_expired (s_cache st) (e_now env)\<rparr>"

definition reload_step :: "(string \<Rightarrow> string \<Rightarrow> 'e + zone) \<Rightarrow> server_state \<Rightarrow> server_state" where
  "reload_step read_zone st =
     (let mgr = snd (reload_all read_zone (s_manager st));
          reloaded = get_zones mgr
      in st\<lparr>s_manager := mgr, s_zones := (if reloaded \<noteq> [] then reloaded else s_zones st)\<rparr>)"

section \<open>The supervisor\<close>

text \<open>The delay in seconds before the next start, after a run of \<open>up\<close> nanoseconds.\<close>

definition sleep_secs :: "nat \<Rightarrow> nat \<Rightarrow> nat" where
  "sleep_secs delay up = (if 60 * 1000000000 < up then 1 else delay)"

fun supervise :: "nat \<Rightarrow> nat list \<Rightarrow> nat list" where
  "supervise delay [] = []"
| "supervise delay (up # ups) =
     (let d = sleep_secs delay up in d # supervise (min (d * 2) 30) ups)"

end
