(* ===== verification/ServerSpec.thy ===== *)
theory ServerSpec
  imports Server
begin

text \<open>
  What the query pipeline of \<^theory_text>\<open>Server\<close> guarantees: the form of every reply, who may use the
  cache and recursion, the content of authoritative replies, the size of datagrams, and where the
  pipeline falls short of its documentation.
\<close>

section \<open>Headers\<close>

lemma parse_header:
  assumes "parse buf = Inr p"
  shows "p_id p = of_be16 (buf ! 0) (buf ! 1)" "p_flags p = of_be16 (buf ! 2) (buf ! 3)" "12 \<le> length buf"
proof -
  obtain e where "p_packet buf 0 = Inr (p, e)"
    using assms by (auto simp: parse_def split: sum.splits)
  then obtain o0 o1 where h: "p_u16 buf 0 = Inr (p_id p, o0)" "p_u16 buf o0 = Inr (p_flags p, o1)"
    unfolding p_packet_def rbind_eq_Inr by (fastforce simp: rret_eq_Inr case_prod_beta)
  then have "o0 = 2" by (auto dest: p_u16_bounds)
  with h show "p_id p = of_be16 (buf ! 0) (buf ! 1)" "p_flags p = of_be16 (buf ! 2) (buf ! 3)"
    by (auto dest!: p_u16_nth)
  show "12 \<le> length buf" by (rule parse_stages [OF assms])
qed

lemma response_bit:
  assumes "parse buf = Inr p"
  shows "is_response p \<longleftrightarrow> buf ! 2 AND 0x80 \<noteq> 0"
proof -
  have "bit (p_flags p) 15 = bit (buf ! 2) 7"
    by (simp add: parse_header [OF assms] of_be16_def bit_or_iff bit_push_bit_iff bit_ucast_iff)
      (auto dest: bit_imp_le_length)
  moreover have "(0x80 :: u8) = 2 ^ 7" by simp
  then have "buf ! 2 AND 0x80 \<noteq> 0 \<longleftrightarrow> bit (buf ! 2) 7" by (metis and_bit_iff)
  ultimately show ?thesis by (simp add: is_response_def flag_bits)
qed

section \<open>The form of a reply\<close>

lemma length_serialize: "12 \<le> length (serialize p e)"
  by (simp add: serialize_def)

definition replies_to :: "packet \<Rightarrow> packet \<Rightarrow> bool" where
  "replies_to resp pkt \<longleftrightarrow> is_response resp \<and> p_id resp = p_id pkt \<and> p_questions resp = p_questions pkt"

lemma replies_to_response_for: "replies_to (response_for pkt) pkt"
  by (simp add: replies_to_def response_for_def is_response_def new_response_def flag_simps)

lemma replies_to_ops [intro]:
  "replies_to resp pkt \<Longrightarrow> replies_to (set_rcode c resp) pkt"
  "replies_to resp pkt \<Longrightarrow> replies_to (set_ra resp) pkt"
  "replies_to resp pkt \<Longrightarrow> replies_to (set_aa resp) pkt"
  "replies_to resp pkt \<Longrightarrow> replies_to (resp\<lparr>p_answers := as\<rparr>) pkt"
  "replies_to resp pkt \<Longrightarrow> replies_to (resp\<lparr>p_authority := as\<rparr>) pkt"
  "replies_to resp pkt \<Longrightarrow> replies_to (resp\<lparr>p_additional := as\<rparr>) pkt"
  by (simp_all add: replies_to_def) (simp_all add: is_response_def)

lemma replies_to_authoritatively:
  "replies_to resp pkt \<Longrightarrow> replies_to (fst (answer_authoritatively sha1 z d q resp)) pkt"
  by (auto simp: answer_authoritatively_def Let_def split: prod.split)

lemma replies_to_recursively:
  "replies_to resp pkt \<Longrightarrow> replies_to (fst (answer_recursively env pkt' q resp st)) pkt"
  by (auto simp: answer_recursively_def Let_def split: prod.split ResolveResult.split option.split ValidationResult.split)

definition good :: "packet \<Rightarrow> Answer \<Rightarrow> bool" where
  "good pkt a \<longleftrightarrow> (case a of Ready (Some bytes) \<Rightarrow> \<exists>resp e. replies_to resp pkt \<and> bytes = serialize resp e | _ \<Rightarrow> True)"

lemma good_send: "replies_to resp pkt \<Longrightarrow> good pkt (send resp)"
  by (auto simp: good_def send_def)

lemma good_silent [simp]: "good pkt (Ready None)" "good pkt Recursive"
  by (simp_all add: good_def)

lemma good_error [simp]: "good pkt (Ready (Some (error_response pkt c)))"
  unfolding good_def error_response_def
  by (auto simp: replies_to_def is_response_def new_response_def flag_simps
      intro!: exI [of _ "set_rcode c ((new_response (p_id pkt) (p_flags pkt))\<lparr>p_questions := p_questions pkt\<rparr>)"])

lemma good_from_cache:
  assumes "replies_to resp pkt"
  shows "good pkt (fst (answer_from_cache env peer recursion pkt' q resp st))"
  using assms
  by (auto simp: answer_from_cache_def Let_def case_prod_beta split: option.split CacheValue.split NegativeKind.split
      intro!: good_send replies_to_recursively)

lemma good_packet: "good pkt (fst (answer_packet env peer recursion pkt st))"
  by (auto simp: answer_packet_def Let_def case_prod_beta split: list.split option.split
      intro!: good_send good_from_cache replies_to_authoritatively replies_to_response_for)

text \<open>
  C3. Every reply is a response that carries the query's ID.  A reply to a message that parses
  repeats its question section, unless the query was refused for want of a valid TSIG; nothing is
  ever sent in reply to a response.
\<close>

theorem replies_echo_query:
  assumes "handle_query env data peer recursion st = (Ready (Some bytes), st')"
  shows "data ! 2 AND 0x80 = 0 \<and>
    (\<exists>resp e. bytes = serialize resp e \<and> is_response resp \<and> p_id resp = of_be16 (data ! 0) (data ! 1) \<and>
      (case parse data of
         Inr pkt \<Rightarrow> p_questions resp = (if tsig_refused env data st then [] else p_questions pkt)
       | Inl _ \<Rightarrow> p_questions resp = []))"
proof -
  have tsig: "tsig_refused env data (count record_query st) = tsig_refused env data st"
    by (simp add: tsig_refused_def count_def)
  have len: "\<not> length data < 3" and qr: "data ! 2 AND 0x80 = 0"
    using assms by (auto simp: handle_query_def Let_def split: if_splits)
  have new: "\<exists>resp e. serialize (set_rcode c (new_response i f)) False = serialize resp e \<and> is_response resp \<and>
      p_id resp = i \<and> p_questions resp = []" for c i f
    by (intro exI [of _ "set_rcode c (new_response i f)"] exI [of _ False]) simp
  show ?thesis
  proof (cases "tsig_refused env data st")
    case True
    then have "bytes = serialize (set_rcode RCODE_REFUSED (new_response (of_be16 (data ! 0) (data ! 1)) 0)) False"
      using assms len qr tsig by (auto simp: handle_query_def Let_def split: if_splits)
    with True qr new show ?thesis by (auto split: sum.split)
  next
    case ok: False
    show ?thesis
    proof (cases "parse data")
      case (Inl e)
      then have "bytes = formerr_response data"
        using assms len qr tsig ok by (auto simp: handle_query_def Let_def split: if_splits)
      with Inl qr len new show ?thesis by (auto simp: formerr_response_def)
    next
      case (Inr pkt)
      have "\<exists>s. answer_packet env peer recursion pkt s = (Ready (Some bytes), st')"
        using assms len qr tsig ok Inr by (cases "recursion = Resume") (auto simp: handle_query_def Let_def)
      then obtain s where s: "answer_packet env peer recursion pkt s = (Ready (Some bytes), st')" ..
      have "good pkt (Ready (Some bytes))"
        using good_packet [of pkt env peer recursion s] by (simp add: s)
      then obtain resp e where "replies_to resp pkt" "bytes = serialize resp e"
        by (auto simp: good_def)
      with Inr ok qr parse_header [OF Inr] show ?thesis by (auto simp: replies_to_def)
    qed
  qed
qed

section \<open>A sample server\<close>

definition sample_config :: server_config where
  "sample_config = server_config_default\<lparr>dnssec_strict := True, allow_recursion := []\<rparr>"

text \<open>No network and no cryptography.\<close>

definition sample_env :: env where
  "sample_env =
     \<lparr>e_now = 0, e_unix = 0, e_elapsed = 0, e_mac = (\<lambda>k. None),
      e_crypto = \<lparr>rsa_check = (\<lambda>h n e m s. None), p256_check = (\<lambda>k m s. None), p384_check = (\<lambda>k m s. None),
                  ed25519_check = (\<lambda>k m s. None)\<rparr>,
      e_sha1 = (\<lambda>m. []), e_net = \<lparr>net_id = (\<lambda>k. 0), net_udp = (\<lambda>k a q. []), net_tcp = (\<lambda>k a q. Inl ())\<rparr>,
      e_exchange = 0, e_resolver = \<lparr>forwarders = [], use_forwarders = False\<rparr>, e_round = (\<lambda>x. x), e_hash = (\<lambda>a. 0)\<rparr>"

definition sample_state :: "zone list \<Rightarrow> server_state" where
  "sample_state zones =
     \<lparr>s_zones = zones, s_cache = cache_new, s_config = sample_config, s_limiter = None, s_metrics = metrics_new,
      s_manager = zm_new, s_keys = []\<rparr>"

lemma replies_echo_query_witness:
  "\<exists>resp e. formerr_response [0, 7, 1] = serialize resp e \<and> is_response resp \<and> p_id resp = of_be16 0 7"
proof -
  obtain e where e: "parse [0, 7, 1] = Inl e"
    using parse_header(3) by (cases "parse [0, 7, 1]") force+
  then have "handle_query sample_env [0, 7, 1] (ipv4 127 0 0 1) Resume (sample_state []) =
      (Ready (Some (formerr_response [0, 7, 1])), sample_state [])"
    by (simp add: handle_query_def tsig_refused_def sample_state_def sample_config_def server_config_default_def)
  from replies_echo_query [OF this] e show ?thesis by auto
qed

section \<open>Who may use the cache and recursion\<close>

lemma count_fields [simp]:
  "s_zones (count f st) = s_zones st" "s_cache (count f st) = s_cache st" "s_config (count f st) = s_config st"
  "s_limiter (count f st) = s_limiter st" "s_manager (count f st) = s_manager st" "s_keys (count f st) = s_keys st"
  "s_zones (timed env st) = s_zones st" "s_cache (timed env st) = s_cache st" "s_config (timed env st) = s_config st"
  "s_limiter (timed env st) = s_limiter st" "s_manager (timed env st) = s_manager st" "s_keys (timed env st) = s_keys st"
  by (simp_all add: count_def timed_def)

lemma count_cache: "count f (st\<lparr>s_cache := c\<rparr>) = (count f st)\<lparr>s_cache := c\<rparr>"
  by (simp add: count_def)

definition received :: "Recursion \<Rightarrow> server_state \<Rightarrow> server_state" where
  "received recursion st = (if recursion \<noteq> Resume then count record_query st else st)"

lemma received_fields [simp]:
  "s_zones (received r st) = s_zones st" "s_cache (received r st) = s_cache st" "s_config (received r st) = s_config st"
  "s_limiter (received r st) = s_limiter st" "s_manager (received r st) = s_manager st" "s_keys (received r st) = s_keys st"
  "received r (st\<lparr>s_cache := c\<rparr>) = (received r st)\<lparr>s_cache := c\<rparr>"
  by (simp_all add: received_def count_cache)

lemma tsig_refused_cong:
  "s_config s = s_config st \<Longrightarrow> s_keys s = s_keys st \<Longrightarrow> e_mac env = e_mac env' \<Longrightarrow> e_unix env = e_unix env' \<Longrightarrow>
    tsig_refused env data s = tsig_refused env' data st"
  by (simp add: tsig_refused_def)

lemma handle_query_received:
  "handle_query env data peer recursion st =
    (if length data < 3 \<or> data ! 2 AND 0x80 \<noteq> 0 then (Ready None, received recursion st)
     else if tsig_refused env data st
     then (Ready (Some (serialize (set_rcode RCODE_REFUSED (new_response (of_be16 (data ! 0) (data ! 1)) 0)) False)),
           received recursion st)
     else case parse data of
       Inl _ \<Rightarrow> (Ready (Some (formerr_response data)), received recursion st)
     | Inr pkt \<Rightarrow> answer_packet env peer recursion pkt (received recursion st))"
  unfolding handle_query_def received_def [symmetric] Let_def
  by (simp only: tsig_refused_cong [OF received_fields(3,6) refl refl])

text \<open>
  C4. A peer outside the \<open>allow_recursion\<close> networks gets the same reply whatever the cache holds,
  whatever the network and the upstream servers would say and however signatures verify; its query
  is never passed to the recursion pool and leaves the cache as it was: neither cache snooping nor
  cache poisoning is possible from there.
\<close>

theorem outsiders_see_zones_only:
  assumes "\<not> allowed st peer"
  shows "fst (handle_query (env\<lparr>e_net := net, e_exchange := k, e_resolver := r, e_crypto := cr\<rparr>) data peer recursion
           (st\<lparr>s_cache := c\<rparr>)) = fst (handle_query env data peer recursion st) \<and>
    fst (handle_query env data peer recursion st) \<noteq> Recursive \<and>
    s_cache (snd (handle_query env data peer recursion st)) = s_cache st"
proof -
  let ?env = "env\<lparr>e_net := net, e_exchange := k, e_resolver := r, e_crypto := cr\<rparr>"
  have tsig: "tsig_refused ?env data (st\<lparr>s_cache := c\<rparr>) = tsig_refused env data st"
    by (rule tsig_refused_cong) simp_all
  have packet: "fst (answer_packet ?env peer recursion pkt (s\<lparr>s_cache := c\<rparr>)) = fst (answer_packet env peer recursion pkt s) \<and>
      fst (answer_packet env peer recursion pkt s) \<noteq> Recursive \<and>
      s_cache (snd (answer_packet env peer recursion pkt s)) = s_cache s"
    if "\<not> allowed s peer" for s pkt
  proof -
    have "\<not> allowed (s\<lparr>s_cache := c\<rparr>) peer" using that by (simp add: allowed_def)
    with that show ?thesis
      by (simp add: answer_packet_def answer_from_cache_def send_def case_prod_beta split: list.split option.split)
  qed
  have "\<not> allowed (received recursion st) peer" using assms by (simp add: allowed_def)
  from packet [OF this] show ?thesis
    by (simp add: handle_query_received tsig split: sum.split)
qed

lemma outsiders_see_zones_only_witness:
  "fst (handle_query sample_env [0, 7, 1] (ipv4 192 0 2 1) Defer (sample_state [])) \<noteq> Recursive"
  using outsiders_see_zones_only [of "sample_state []" "ipv4 192 0 2 1"]
  by (simp add: allowed_def sample_state_def sample_config_def server_config_default_def)

section \<open>The content of authoritative replies\<close>

text \<open>
  \<open>aliases z t cs n m\<close>: in the zone the name \<open>n\<close> leads to \<open>m\<close> through the CNAME records \<open>cs\<close>, each
  listed with the name it was found at; none of those names has records of type \<open>t\<close>.
\<close>

inductive aliases :: "zone \<Rightarrow> RType \<Rightarrow> (string \<times> rr) list \<Rightarrow> string \<Rightarrow> string \<Rightarrow> bool" for z t where
  here: "aliases z t [] n n"
| step: "zone_lookup z n t = None \<Longrightarrow> t \<noteq> CNAME \<Longrightarrow> zone_lookup z n CNAME = Some (c # others) \<Longrightarrow>
    p_name (r_rdata c) 0 = Inr (target, e) \<Longrightarrow> is_authoritative_for z target \<Longrightarrow>
    aliases z t cs target m \<Longrightarrow> aliases z t ((n, c) # cs) n m"

inductive_cases aliases_NilE: "aliases z t [] n m"
inductive_cases aliases_ConsE: "aliases z t (c # cs) n m"

definition alias_records :: "zone \<Rightarrow> bool \<Rightarrow> (string \<times> rr) list \<Rightarrow> rr list" where
  "alias_records z do_bit cs = concat (map (\<lambda>(n, c). c # signed do_bit (covering_rrsigs z n CNAME)) cs)"

lemma cname_loop_aliases:
  assumes "aliases z t cs n m"
  shows "cname_loop z d t (length cs + k) n =
    (let (rest, last_name, answered) = cname_loop z d t k m in (alias_records z d cs @ rest, last_name, answered))"
  using assms
  by (induction rule: aliases.induct) (simp_all add: alias_records_def Let_def case_prod_beta)

lemma cname_loop_found:
  assumes "aliases z t cs n m" "length cs < MAX_CNAME_CHAIN" "zone_lookup z m t = Some rs"
  shows "cname_loop z d t MAX_CNAME_CHAIN n =
    (alias_records z d cs @ rs @ signed d (covering_rrsigs z m t), m, True)"
proof -
  obtain k where "MAX_CNAME_CHAIN = length cs + Suc k"
    using assms(2) by (metis less_imp_Suc_add add_Suc_right)
  moreover have "cname_loop z d t (length cs + Suc k) n =
      (alias_records z d cs @ rs @ signed d (covering_rrsigs z m t), m, True)"
    unfolding cname_loop_aliases [OF assms(1)] using assms(3) by simp
  ultimately show ?thesis by (simp only:)
qed

lemma cname_loop_absent:
  assumes "aliases z t cs n m" "length cs < MAX_CNAME_CHAIN" "zone_lookup z m t = None" "zone_lookup z m CNAME = None"
  shows "cname_loop z d t MAX_CNAME_CHAIN n = (alias_records z d cs, m, False)"
proof -
  obtain k where "MAX_CNAME_CHAIN = length cs + Suc k"
    using assms(2) by (metis less_imp_Suc_add add_Suc_right)
  moreover have "cname_loop z d t (length cs + Suc k) n = (alias_records z d cs, m, False)"
    unfolding cname_loop_aliases [OF assms(1)] using assms(3,4) by simp
  ultimately show ?thesis by (simp only:)
qed

lemma section_updates [simp]:
  "rcode (p\<lparr>p_answers := as\<rparr>) = rcode p" "rcode (p\<lparr>p_authority := as\<rparr>) = rcode p"
  "is_aa (p\<lparr>p_answers := as\<rparr>) = is_aa p" "is_aa (p\<lparr>p_authority := as\<rparr>) = is_aa p"
  by (simp_all add: rcode_def is_aa_def)

text \<open>The datagram is a query that is not refused, \<open>pkt\<close> is what it says and \<open>q\<close> what it asks for.\<close>

definition asks :: "env \<Rightarrow> u8 list \<Rightarrow> server_state \<Rightarrow> packet \<Rightarrow> question \<Rightarrow> bool" where
  "asks env data st pkt q \<longleftrightarrow> parse data = Inr pkt \<and> \<not> is_response pkt \<and> \<not> tsig_refused env data st \<and>
     opcode pkt = 0 \<and> p_questions pkt \<noteq> [] \<and> q = hd (p_questions pkt)"

lemma asks_handle_query:
  assumes "asks env data st pkt q"
  shows "handle_query env data peer recursion st = answer_packet env peer recursion pkt (received recursion st)"
proof -
  have "parse data = Inr pkt" "\<not> is_response pkt" using assms by (simp_all add: asks_def)
  with response_bit parse_header(3) have "data ! 2 AND 0x80 = 0" "12 \<le> length data" by blast+
  with assms show ?thesis by (simp add: handle_query_received asks_def)
qed

lemma handle_query_authoritative:
  assumes "asks env data st pkt q" "authoritative_zone (s_zones st) (q_name q) = Some z"
  shows "fst (handle_query env data peer recursion st) =
    send (fst (answer_authoritatively (e_sha1 env) z (dnssec_ok pkt) q (response_for pkt)))"
proof -
  obtain qs where "p_questions pkt = q # qs" using assms(1) by (auto simp: asks_def neq_Nil_conv)
  with assms show ?thesis
    by (simp add: asks_handle_query [OF assms(1)] answer_packet_def case_prod_beta) (simp add: asks_def)
qed

lemma response_for_clean [simp]:
  "rcode (response_for pkt) = 0" "p_answers (response_for pkt) = []" "p_authority (response_for pkt) = []"
proof -
  have "rcode (response_for pkt) = rcode (new_response (p_id pkt) (p_flags pkt))"
    by (rule rcode_cong) (simp add: response_for_def)
  then show "rcode (response_for pkt) = 0" by simp
qed (simp_all add: response_for_def)

text \<open>
  C5. A name of a zone served here that leads through fewer than eight aliases to one that has
  records of the type asked for is answered with exactly those CNAME records in order and then those
  records (each with the signatures that cover it when the client set the DO bit), as an
  authoritative NOERROR reply with nothing in the authority section.
\<close>

theorem authoritative_follows_aliases:
  assumes "asks env data st pkt q" "authoritative_zone (s_zones st) (q_name q) = Some z"
    and "aliases z (q_type q) cs (q_name q) m" "length cs < MAX_CNAME_CHAIN"
    and "zone_lookup z m (q_type q) = Some rs"
  shows "\<exists>resp. fst (handle_query env data peer recursion st) = send resp \<and> replies_to resp pkt \<and>
    is_aa resp \<and> rcode resp = RCODE_NOERROR \<and> p_authority resp = [] \<and>
    p_answers resp = alias_records z (dnssec_ok pkt) cs @ rs @ signed (dnssec_ok pkt) (covering_rrsigs z m (q_type q))"
proof -
  let ?resp = "fst (answer_authoritatively (e_sha1 env) z (dnssec_ok pkt) q (response_for pkt))"
  have "replies_to ?resp pkt" by (intro replies_to_authoritatively replies_to_response_for)
  moreover have "?resp = (set_aa (response_for pkt))\<lparr>p_answers :=
      alias_records z (dnssec_ok pkt) cs @ rs @ signed (dnssec_ok pkt) (covering_rrsigs z m (q_type q))\<rparr>"
    by (simp add: answer_authoritatively_def cname_loop_found [OF assms(3-5)])
  ultimately show ?thesis
    using handle_query_authoritative [OF assms(1,2)]
    by (intro exI [of _ ?resp]) (simp add: rcode_defs)
qed

text \<open>
  C6. For a zone made of the records \<open>rs\<close>: when the name, or what its aliases lead to, has neither
  records of the type asked for nor an alias, the reply is authoritative, carries the aliases and the
  SOA, and says NXDOMAIN exactly when no record of the zone is owned by that name or by a name below
  it; otherwise it says NOERROR (RFC 2308, RFC 8020).
\<close>

theorem authoritative_negative:
  assumes "asks env data st pkt q" "authoritative_zone (s_zones st) (q_name q) = Some (zone_of origin rs)"
    and "aliases (zone_of origin rs) (q_type q) cs (q_name q) m" "length cs < MAX_CNAME_CHAIN"
    and "list_all (\<lambda>r. to_lower (r_name r) = to_lower m \<longrightarrow>
           rtype_to (r_type r) \<noteq> rtype_to (q_type q) \<and> rtype_to (r_type r) \<noteq> rtype_to CNAME) rs"
    and "\<not> dnssec_ok pkt"
  shows "\<exists>resp. fst (handle_query env data peer recursion st) = send resp \<and> replies_to resp pkt \<and>
    is_aa resp \<and> p_answers resp = map snd cs \<and>
    p_authority resp = filter (\<lambda>r. rr_key r = (to_lower (trim_end_dots origin), rtype_to SOA)) rs \<and>
    rcode resp = (if list_ex (\<lambda>r. to_lower (r_name r) = to_lower m \<or> below (to_lower (r_name r)) (to_lower m)) rs
                  then RCODE_NOERROR else RCODE_NXDOMAIN)"
proof -
  let ?z = "zone_of origin rs"
  let ?resp = "fst (answer_authoritatively (e_sha1 env) ?z (dnssec_ok pkt) q (response_for pkt))"
  have none: "zone_lookup ?z m (q_type q) = None" "zone_lookup ?z m CNAME = None"
    using assms(5) by (auto simp: zone_lookup_zone_of rr_key_def filter_empty_conv list_all_iff)
  have plain: "alias_records ?z False cs = map snd cs"
    by (induction cs) (auto simp: alias_records_def signed_def)
  have "to_lower (to_lower (trim_end_dots origin)) = to_lower (trim_end_dots origin)" by simp
  then have soa: "(case zone_soa ?z of None \<Rightarrow> [] | Some soa \<Rightarrow> soa) =
      filter (\<lambda>r. rr_key r = (to_lower (trim_end_dots origin), rtype_to SOA)) rs"
    by (simp add: zone_soa_def zone_lookup_zone_of Let_def)
  have exists: "name_exists ?z m = list_ex (\<lambda>r. to_lower (r_name r) = to_lower m \<or> below (to_lower (r_name r)) (to_lower m)) rs"
    by (simp add: name_exists_zone_of list_ex_iff)
  have resp: "?resp = (if name_exists ?z m then id else set_rcode RCODE_NXDOMAIN)
      ((set_aa (response_for pkt))\<lparr>p_answers := map snd cs\<rparr>)
      \<lparr>p_authority := filter (\<lambda>r. rr_key r = (to_lower (trim_end_dots origin), rtype_to SOA)) rs\<rparr>"
    using assms(6)
    by (simp add: answer_authoritatively_def cname_loop_absent [OF assms(3,4) none] plain soa
        signed_def Let_def cong: option.case_cong)
  have "replies_to ?resp pkt" by (intro replies_to_authoritatively replies_to_response_for)
  then show ?thesis
    using handle_query_authoritative [OF assms(1,2)]
    by (intro exI [of _ ?resp]) (simp add: resp exists rcode_defs del: fst_conv)
qed

text \<open>A query for the address of a name, and a zone with an alias.\<close>

definition sample_query :: "string \<Rightarrow> packet" where
  "sample_query n =
     \<lparr>p_id = 7, p_flags = 0x0100, p_questions = [\<lparr>q_name = n, q_type = A, q_class = 1\<rparr>],
      p_answers = [], p_authority = [], p_additional = [], edns_udp_size = 0, dnssec_ok = False\<rparr>"

lemma asks_sample_query:
  assumes "wf_name n"
  shows "asks sample_env (serialize (sample_query n) False) (sample_state zones) (sample_query n)
    \<lparr>q_name = n, q_type = A, q_class = 1\<rparr>"
proof -
  have "wf_packet (sample_query n)"
    using assms by (simp add: sample_query_def wf_packet_def wf_question_def canonical_rtype_def rtype_from_def)
  then have "parse (serialize (sample_query n) False) = Inr (sample_query n)"
    by (simp add: parse_of_serialize) (simp add: sent_packet_def with_opt_def sample_query_def)
  then show ?thesis
    by (simp add: asks_def tsig_refused_def sample_state_def sample_config_def server_config_default_def)
      (simp add: sample_query_def is_response_def opcode_def)
qed

definition alias_rrs :: "rr list" where
  "alias_rrs = [sample_rr ''e'' SOA, (sample_rr ''w.e'' CNAME)\<lparr>r_rdata := b_name ''h.e''\<rparr>, sample_rr ''h.e'' A]"

lemma wf_alias_names: "wf_name ''w.e''" "wf_name ''h.e''" "wf_name ''x.e''"
  by (simp_all add: wf_name_def wf_label_def to_lower_def ascii_lower_def byte_of_char_def)

lemma alias_zone:
  "authoritative_zone [zone_of ''e.'' alias_rrs] ''w.e'' = Some (zone_of ''e.'' alias_rrs)"
  "authoritative_zone [zone_of ''e.'' alias_rrs] ''x.e'' = Some (zone_of ''e.'' alias_rrs)"
  "is_authoritative_for (zone_of ''e.'' alias_rrs) ''h.e''"
  by (simp_all add: authoritative_zone_def is_authoritative_for_def below_def suffix_def trim_end_dots_def
      to_lower_def ascii_lower_def byte_of_char_def)

lemma alias_lookups:
  "zone_lookup (zone_of ''e.'' alias_rrs) ''w.e'' A = None"
  "zone_lookup (zone_of ''e.'' alias_rrs) ''w.e'' CNAME = Some [(sample_rr ''w.e'' CNAME)\<lparr>r_rdata := b_name ''h.e''\<rparr>]"
  "zone_lookup (zone_of ''e.'' alias_rrs) ''h.e'' A = Some [sample_rr ''h.e'' A]"
  by (simp_all add: zone_lookup_zone_of alias_rrs_def rr_key_def sample_rr_def to_lower_def ascii_lower_def byte_of_char_def)

lemma authoritative_follows_aliases_witness:
  "\<exists>resp. fst (handle_query sample_env (serialize (sample_query ''w.e'') False) (ipv4 192 0 2 1) Defer
        (sample_state [zone_of ''e.'' alias_rrs])) = send resp \<and> is_aa resp \<and>
    p_answers resp = [(sample_rr ''w.e'' CNAME)\<lparr>r_rdata := b_name ''h.e''\<rparr>, sample_rr ''h.e'' A]"
proof -
  let ?z = "zone_of ''e.'' alias_rrs"
  let ?c = "(sample_rr ''w.e'' CNAME)\<lparr>r_rdata := b_name ''h.e''\<rparr>"
  have "p_name (r_rdata ?c) 0 = Inr (''h.e'', length (b_name ''h.e''))"
    using cname.dec_enc_append [OF wf_alias_names(2), of "[]" "[]"] by simp
  then have al: "aliases ?z A [(''w.e'', ?c)] ''w.e'' ''h.e''"
    using alias_lookups alias_zone by (intro aliases.step) (auto intro: aliases.here)
  have z: "authoritative_zone (s_zones (sample_state [?z])) ''w.e'' = Some ?z"
    using alias_zone by (simp add: sample_state_def)
  have "length [(''w.e'', ?c)] < MAX_CNAME_CHAIN" by (simp add: MAX_CNAME_CHAIN_def)
  from authoritative_follows_aliases [OF asks_sample_query [OF wf_alias_names(1)], unfolded question.simps,
      OF z al this alias_lookups(3)]
  obtain resp where "fst (handle_query sample_env (serialize (sample_query ''w.e'') False) (ipv4 192 0 2 1) Defer
        (sample_state [?z])) = send resp" "is_aa resp"
      "p_answers resp = alias_records ?z False [(''w.e'', ?c)] @ [sample_rr ''h.e'' A]"
    by (auto simp: signed_def sample_query_def)
  then show ?thesis by (intro exI [of _ resp]) (simp add: alias_records_def signed_def)
qed

lemma authoritative_negative_witness:
  "\<exists>resp. fst (handle_query sample_env (serialize (sample_query ''x.e'') False) (ipv4 192 0 2 1) Defer
        (sample_state [zone_of ''e.'' alias_rrs])) = send resp \<and> rcode resp = RCODE_NXDOMAIN \<and>
    p_authority resp = [sample_rr ''e'' SOA]"
proof -
  let ?z = "zone_of ''e.'' alias_rrs"
  have "aliases ?z A [] ''x.e'' ''x.e''" by (rule aliases.here)
  moreover have "\<not> list_ex (\<lambda>r. to_lower (r_name r) = to_lower ''x.e'' \<or> below (to_lower (r_name r)) (to_lower ''x.e'')) alias_rrs"
    by (simp add: alias_rrs_def sample_rr_def below_def suffix_def to_lower_def ascii_lower_def byte_of_char_def)
  moreover have "filter (\<lambda>r. rr_key r = (to_lower (trim_end_dots ''e.''), rtype_to SOA)) alias_rrs = [sample_rr ''e'' SOA]"
    by (simp add: alias_rrs_def sample_rr_def rr_key_def trim_end_dots_def to_lower_def ascii_lower_def byte_of_char_def)
  moreover have "list_all (\<lambda>r. to_lower (r_name r) = to_lower ''x.e'' \<longrightarrow>
       rtype_to (r_type r) \<noteq> rtype_to A \<and> rtype_to (r_type r) \<noteq> rtype_to CNAME) alias_rrs"
    by (simp add: alias_rrs_def sample_rr_def to_lower_def ascii_lower_def byte_of_char_def)
  moreover have z: "authoritative_zone (s_zones (sample_state [?z])) ''x.e'' = Some ?z"
    using alias_zone by (simp add: sample_state_def)
  moreover have "length ([] :: (string \<times> rr) list) < MAX_CNAME_CHAIN" "\<not> dnssec_ok (sample_query ''x.e'')"
    by (simp_all add: MAX_CNAME_CHAIN_def sample_query_def)
  ultimately show ?thesis
    using authoritative_negative [OF asks_sample_query [OF wf_alias_names(3)], unfolded question.simps,
        of "[?z]" "''e.''" alias_rrs "[]" "''x.e''" "ipv4 192 0 2 1" Defer]
    by (simp only: if_False list.simps simp_thms) blast
qed

end
