(* ===== verification/ServerRuns.thy ===== *)
theory ServerRuns
  imports ServerSpec
begin

text \<open>
  Runs of the server of \<^theory_text>\<open>Server\<close>: the invariant of every reachable state, the sessions over
  TCP, zone transfers, datagram sizes, the validation of upstream answers and the supervisor.
\<close>

section \<open>The invariant\<close>

text \<open>What a cache entry may hold.\<close>

definition entry_ok :: "entry \<Rightarrow> bool" where
  "entry_ok e \<longleftrightarrow> 1 \<le> e_ttl e \<and>
     (case e_value e of
        Records rs \<Rightarrow> e_ttl e \<le> 86400 \<and> list_all (\<lambda>r. r_type r \<noteq> RRSIG) rs
      | Negative kind \<Rightarrow> e_ttl e \<le> 10800 \<and> kind = NxDomain)"

definition server_inv :: "server_state \<Rightarrow> bool" where
  "server_inv st \<longleftrightarrow> (\<forall>k e. Mapping.lookup (s_cache st) k = Some e \<longrightarrow> entry_ok e) \<and>
     (case s_limiter st of None \<Rightarrow> True | Some rl \<Rightarrow> limiter_inv rl)"

lemma server_inv_cong:
  "s_cache st = s_cache st' \<Longrightarrow> s_limiter st = s_limiter st' \<Longrightarrow> server_inv st = server_inv st'"
  by (simp add: server_inv_def)

lemma server_inv_count [simp]:
  "server_inv (count f st) = server_inv st" "server_inv (timed env st) = server_inv st"
  "server_inv (received r st) = server_inv st"
  by (rule server_inv_cong; simp)+

text \<open>A query changes only the cache, the limiter and the counters, and keeps the invariant.\<close>

definition keeps :: "server_state \<Rightarrow> server_state \<Rightarrow> bool" where
  "keeps st st' \<longleftrightarrow> s_config st' = s_config st \<and> s_keys st' = s_keys st \<and> s_zones st' = s_zones st \<and>
     s_manager st' = s_manager st \<and> (server_inv st \<longrightarrow> server_inv st')"

lemma keeps_refl [simp]: "keeps st st"
  by (simp add: keeps_def)

lemma keeps_trans [trans]: "keeps a b \<Longrightarrow> keeps b c \<Longrightarrow> keeps a c"
  by (simp add: keeps_def)

lemma keeps_count [simp]:
  "keeps st (count f st') = keeps st st'" "keeps st (timed env st') = keeps st st'"
  "keeps st (received r st') = keeps st st'"
  "keeps (count f st) st' = keeps st st'" "keeps (received r st) st' = keeps st st'"
  by (simp_all add: keeps_def)

lemma entry_ok_cache_answer:
  assumes "\<And>k e. Mapping.lookup c k = Some e \<Longrightarrow> entry_ok e"
  shows "Mapping.lookup (cache_answer now q up c) k = Some e \<Longrightarrow> entry_ok e"
  using assms positive_ttl_bounds
  by (auto simp: cache_answer_def insert_positive_def lookup_update' entry_ok_def Let_def list_all_iff
      split: option.splits if_splits)

lemma keeps_recursively: "keeps st (snd (answer_recursively env pkt q resp st))"
proof -
  have pos: "server_inv (st\<lparr>s_cache := cache_answer now q up c\<rparr>)" if "server_inv st" "c = s_cache st" for st c now up
    using that entry_ok_cache_answer [of c] by (simp add: server_inv_def)
  have neg: "server_inv (st\<lparr>s_cache := insert_negative (s_cache st) now n t NxDomain ttl\<rparr>)"
    if "server_inv st" for st now n t ttl
    using that negative_ttl_bounds
    by (auto simp: server_inv_def insert_negative_def lookup_update' entry_ok_def Let_def)
  show ?thesis
    by (auto simp: answer_recursively_def keeps_def Let_def case_prod_beta
        intro!: pos neg split: ResolveResult.split option.split ValidationResult.split prod.split)
qed

lemma keeps_answer_packet: "keeps st (snd (answer_packet env peer recursion pkt st))"
  using keeps_recursively
  by (auto simp: answer_packet_def answer_from_cache_def Let_def case_prod_beta
      split: list.split option.split CacheValue.split NegativeKind.split)
    (metis keeps_count keeps_trans)+

lemma keeps_handle_query: "keeps st (snd (handle_query env data peer recursion st))"
  using keeps_trans [OF _ keeps_answer_packet, of st "received recursion st"]
  by (simp add: handle_query_received split: sum.split)

lemma keeps_respond: "keeps st (snd (respond env data peer recursion st))"
  using keeps_handle_query [of st env data peer recursion]
  by (auto simp: respond_def split: prod.split Answer.split option.split)

lemma keeps_admit:
  assumes "f64_rounding (e_round env)"
  shows "keeps st (snd (admit env peer st))"
proof (cases "s_limiter st")
  case (Some rl)
  have "server_inv st \<longrightarrow> server_inv (st\<lparr>s_limiter := Some (snd (rl_check (e_round env) (e_hash env) (e_now env) peer rl))\<rparr>)"
    using rl_check_inv [OF assms] Some by (simp add: server_inv_def)
  with Some show ?thesis by (simp add: admit_def case_prod_beta Let_def) (simp add: keeps_def)
qed (simp add: admit_def)

lemma keeps_public: "f64_rounding (e_round env) \<Longrightarrow> keeps st (snd (handle_query_public env data peer st))"
  using keeps_admit [of env st peer] keeps_respond [of "snd (admit env peer st)" env data peer InlineRecursion]
  by (auto simp: handle_query_public_def split: prod.splits Answer.splits bool.splits intro: keeps_trans)

lemma keeps_tcp_message: "f64_rounding (e_round env) \<Longrightarrow> keeps st (snd (tcp_message env data peer st))"
  using keeps_public [of env "count record_tcp_query st" data peer]
  by (auto simp: tcp_message_def Let_def split: prod.splits option.splits sum.splits)

lemma keeps_secure: "f64_rounding (e_round env) \<Longrightarrow> keeps st (snd (handle_query_public env data peer (count record_tcp_query st)))"
  using keeps_public [of env "count record_tcp_query st" data peer] by simp

lemma keeps_udp_receive_step: "f64_rounding (e_round env) \<Longrightarrow> keeps st (snd (udp_receive_step env room data peer st))"
  using keeps_admit [of env st peer]
    keeps_respond [of "count record_udp_query (snd (admit env peer st))" env data peer Defer]
  by (auto simp: udp_receive_step_def split: prod.splits Answer.splits bool.splits option.splits intro: keeps_trans)

lemma keeps_udp_job: "keeps st (snd (udp_job env data peer st))"
  using keeps_respond [of st env data peer Resume]
  by (auto simp: udp_job_def split: prod.splits Answer.splits option.splits)

text \<open>
  One atomic step of the running server: a datagram, a queued lookup, a message of a TCP session or
  over TLS or HTTPS, the sweep of the cache or a reload, each in whatever environment it happens.
\<close>

inductive server_step :: "server_state \<Rightarrow> server_state \<Rightarrow> bool" where
  datagram: "f64_rounding (e_round env) \<Longrightarrow> server_step st (snd (udp_receive_step env room data peer st))"
| job: "server_step st (snd (udp_job env data peer st))"
| message: "f64_rounding (e_round env) \<Longrightarrow> server_step st (snd (tcp_message env data peer st))"
| secure: "f64_rounding (e_round env) \<Longrightarrow>
    server_step st (snd (handle_query_public env data peer (count record_tcp_query st)))"
| evict: "server_step st (evict_step env st)"
| reload: "server_step st (reload_step (read_zone :: string \<Rightarrow> string \<Rightarrow> string + zone) st)"

lemma server_step_inv:
  assumes "server_step st st'" "server_inv st"
  shows "server_inv st' \<and> s_config st' = s_config st \<and> s_keys st' = s_keys st"
  using assms
proof (cases rule: server_step.cases)
  case (evict env)
  then show ?thesis using assms(2)
    by (auto simp: evict_step_def server_inv_def evict_expired_def Mapping.lookup_filter split: option.splits if_splits)
next
  case (reload read_zone)
  then show ?thesis using assms(2) by (simp add: reload_step_def Let_def) (simp add: server_inv_def)
qed (use keeps_udp_receive_step keeps_udp_job keeps_tcp_message keeps_secure in \<open>auto simp: keeps_def\<close>)

interpretation srv: transition_invariant server_step
  "\<lambda>st. server_inv st \<and> s_config st = cfg \<and> s_keys st = keys" for cfg keys
  by unfold_locales (use server_step_inv in auto)

text \<open>
  In every reachable state the cache holds only positive answers without signatures, of a TTL
  between one second and a day, and name errors of at most three hours; it never holds a NODATA
  answer, so that branch of the pipeline is dead.  The limiter keeps its invariant, and neither the
  configuration nor the keys ever change.
\<close>

theorem reachable_states:
  assumes "server_step\<^sup>*\<^sup>* st st'" "s_cache st = cache_new"
    and "s_limiter st = None \<or> s_limiter st = Some (rl_new qps gqps max_tracked start)"
  shows "server_inv st' \<and> s_config st' = s_config st \<and> s_keys st' = s_keys st \<and>
    cache_get (s_cache st') now name qtype \<noteq> Some (Negative NoData)"
proof -
  have "server_inv st"
    using assms(2,3) rl_new_inv by (auto simp: server_inv_def cache_new_def)
  with srv.reachable [OF assms(1)] have inv: "server_inv st'" "s_config st' = s_config st" "s_keys st' = s_keys st"
    by simp_all
  moreover have "\<not> (entry_ok e \<and> e_value e = Negative NoData)" for e by (auto simp: entry_ok_def)
  ultimately have "\<And>k e. Mapping.lookup (s_cache st') k = Some e \<Longrightarrow> e_value e \<noteq> Negative NoData"
    unfolding server_inv_def by blast
  with inv show ?thesis by (auto simp: cache_get_def split: option.splits if_splits)
qed

lemma reachable_states_witness:
  "server_inv (snd (udp_job sample_env [0, 7, 1] (ipv4 192 0 2 1) (sample_state [])))"
proof -
  have "server_step\<^sup>*\<^sup>* (sample_state []) (snd (udp_job sample_env [0, 7, 1] (ipv4 192 0 2 1) (sample_state [])))"
    by (rule r_into_rtranclp, rule server_step.job)
  from reachable_states [OF this] show ?thesis by (simp add: sample_state_def)
qed

section \<open>Signing never fails\<close>

lemma sign_message_long: "12 \<le> length m \<Longrightarrow> sign_message mac now m key \<noteq> None"
  by (auto simp: sign_message_def Let_def split: option.splits)

lemma sign_all_long: "list_all (\<lambda>m. 12 \<le> length m) ms \<Longrightarrow> sign_all env key ms \<noteq> None"
  by (induction ms) (use sign_message_long in \<open>auto split: option.split\<close>)

lemma transfer_messages_long:
  "list_all (\<lambda>m. 12 \<le> length m) (axfr_stream pkt z)" "list_all (\<lambda>m. 12 \<le> length m) (ixfr_stream pkt z n hist)"
proof -
  show *: "list_all (\<lambda>m. 12 \<le> length m) (axfr_stream pkt z)"
    by (auto simp: axfr_stream_def build_axfr_msg_def length_serialize list_all_iff split: option.split)
  have "list_all (\<lambda>m. 12 \<le> length m) (map (build_axfr_msg pkt) gs)" for gs
    by (auto simp: build_axfr_msg_def length_serialize list_all_iff)
  with * show "list_all (\<lambda>m. 12 \<le> length m) (ixfr_stream pkt z n hist)"
    by (auto simp: ixfr_stream_def Let_def build_axfr_msg_def length_serialize split: option.split)
qed

lemma sign_transfer [simp]:
  "sign_all env key (axfr_stream pkt z) = None \<longleftrightarrow> False" "sign_all env key (ixfr_stream pkt z n hist) = None \<longleftrightarrow> False"
  using sign_all_long transfer_messages_long by blast+

lemma handle_query_reply_long:
  assumes "handle_query env data peer recursion st = (Ready (Some reply), st')"
  shows "12 \<le> length reply"
proof -
  have "good pkt (Ready (Some reply)) \<Longrightarrow> ?thesis" for pkt
    using length_serialize by (auto simp: good_def)
  then show ?thesis
    using assms good_packet [of _ env peer recursion "received recursion st"] length_serialize
    by (auto simp: handle_query_received formerr_response_def Let_def split: if_splits sum.splits)
      (metis fst_conv)+
qed

text \<open>
  Signing never panics: the reply of the pipeline and every message of a transfer are long enough
  for it, so each reply that is computed is also sent.
\<close>

theorem every_reply_is_sent:
  "(case handle_query env data peer recursion st of
      (Ready (Some reply), st') \<Rightarrow> \<exists>out. respond env data peer recursion st = (Ready (Some out), st')
    | other \<Rightarrow> respond env data peer recursion st = other) \<and>
   maybe_zone_transfer env data st \<noteq> Inl ()"
proof
  have "maybe_sign_response env data reply st' \<noteq> None"
    if "handle_query env data peer recursion st = (Ready (Some reply), st')" for reply st'
    using sign_message_long [OF handle_query_reply_long [OF that]]
    by (auto simp: maybe_sign_response_def split: sum.split option.split)
  then show "case handle_query env data peer recursion st of
      (Ready (Some reply), st') \<Rightarrow> \<exists>out. respond env data peer recursion st = (Ready (Some out), st')
    | other \<Rightarrow> respond env data peer recursion st = other"
    by (auto simp: respond_def split: prod.split Answer.split option.split)
next
  show "maybe_zone_transfer env data st \<noteq> Inl ()"
    by (simp add: maybe_zone_transfer_def Let_def split: sum.split list.split option.split)
qed

text \<open>
  C24. When keys are configured, a message that does not verify never obtains a transfer: it is either
  no transfer request, or answered by a single REFUSED reply that carries no record.
\<close>

theorem transfer_requires_tsig:
  assumes "s_keys st \<noteq> []" "verify_message (e_mac env) (e_unix env) data (s_keys st) = Inl err"
    and "maybe_zone_transfer env data st = Inr (Some packets)"
  shows "\<exists>pkt resp. parse data = Inr pkt \<and> packets = [serialize resp False] \<and> replies_to resp pkt \<and>
    rcode resp = RCODE_REFUSED \<and> p_answers resp = [] \<and> p_authority resp = [] \<and> p_additional resp = []"
proof -
  obtain pkt where pkt: "parse data = Inr pkt" "packets = [error_response pkt RCODE_REFUSED]"
    using assms by (auto simp: maybe_zone_transfer_def keyring_is_empty_def split: sum.splits list.splits if_splits)
  let ?resp = "set_rcode RCODE_REFUSED ((new_response (p_id pkt) (p_flags pkt))\<lparr>p_questions := p_questions pkt\<rparr>)"
  have "replies_to ?resp pkt" by (simp add: replies_to_def) (simp add: is_response_def new_response_def flag_simps)?
  with pkt show ?thesis
    by (intro exI [of _ pkt] exI [of _ ?resp]) (simp add: error_response_def rcode_defs)
qed

definition xfr_query :: packet where
  "xfr_query = (sample_query ''e'')\<lparr>p_questions := [\<lparr>q_name = ''e'', q_type = AXFR, q_class = 1\<rparr>]\<rparr>"

lemma parse_xfr_query: "parse (serialize xfr_query False) = Inr xfr_query"
proof -
  have "wf_packet xfr_query"
    using wf_e by (simp add: xfr_query_def sample_query_def wf_packet_def wf_question_def canonical_rtype_def rtype_from_def)
  then show ?thesis
    by (simp add: parse_of_serialize) (simp add: sent_packet_def with_opt_def xfr_query_def sample_query_def)
qed

lemma transfer_requires_tsig_witness:
  "\<exists>packets resp. maybe_zone_transfer sample_env (serialize xfr_query False)
      ((sample_state [])\<lparr>s_keys := [(''k.'', \<lparr>tk_name = ''k.'', tk_algorithm = ''hmac-sha256.'', tk_secret = []\<rparr>)]\<rparr>) =
    Inr (Some packets) \<and> packets = [serialize resp False] \<and> rcode resp = RCODE_REFUSED"
proof -
  let ?st = "(sample_state [])\<lparr>s_keys := [(''k.'', \<lparr>tk_name = ''k.'', tk_algorithm = ''hmac-sha256.'', tk_secret = []\<rparr>)]\<rparr>"
  have "12 \<le> length (serialize xfr_query False)" by (rule length_serialize)
  moreover have "get16 (serialize xfr_query False) 10 = 0"
    by (simp add: serialize_def get16_def be16_def xfr_query_def sample_query_def with_opt_def of_be16_def)
  ultimately have v: "verify_message (e_mac sample_env) (e_unix sample_env) (serialize xfr_query False) (s_keys ?st) = Inl NoAdditional"
    by (simp add: verify_message_def extract_tsig_def)
  have q: "p_questions xfr_query = [\<lparr>q_name = ''e'', q_type = AXFR, q_class = 1\<rparr>]" by (simp add: xfr_query_def)
  have k: "\<not> keyring_is_empty (s_keys ?st)" by (simp add: keyring_is_empty_def)
  have m: "maybe_zone_transfer sample_env (serialize xfr_query False) ?st =
      Inr (Some [error_response xfr_query RCODE_REFUSED])"
    unfolding maybe_zone_transfer_def parse_xfr_query v sum.case q list.case using k by simp
  show ?thesis
    using transfer_requires_tsig [OF _ v m] m by auto
qed

section \<open>Pipelined sessions\<close>

text \<open>Messages answered one after the other.\<close>

fun run_messages :: "(u8 list \<Rightarrow> 's \<Rightarrow> u8 list \<times> 's) \<Rightarrow> u8 list list \<Rightarrow> 's \<Rightarrow> u8 list \<times> 's" where
  "run_messages answer [] st = ([], st)"
| "run_messages answer (m # ms) st =
     (let (out, st) = answer m st; (rest, st) = run_messages answer ms st in (out @ rest, st))"

lemma frame_head:
  assumes "length m < 65536"
  shows "unat (of_be16 (frame m ! 0) (frame m ! 1)) = length m" "length (frame m) = 2 + length m" "drop 2 (frame m) = m"
  using unat_of_nat_u16 [OF assms] by (simp_all add: frame_def be16_def of_be16_be16 [unfolded be16_def] numeral_2_eq_2)

text \<open>
  The contract of a session over a byte stream, for whatever answers one message: it reads a length of
  two bytes and that many more, and ends at a zero length or an incomplete message.
\<close>

locale framed_session =
  fixes answer :: "u8 list \<Rightarrow> 's \<Rightarrow> u8 list \<times> 's" and session :: "u8 list \<Rightarrow> 's \<Rightarrow> u8 list \<times> 's"
  assumes session_eq: "session stream st =
    (if length stream < 2 then ([], st)
     else let qlen = unat (of_be16 (stream ! 0) (stream ! 1)) in
       if qlen = 0 \<or> length stream < 2 + qlen then ([], st)
       else let (out, st) = answer (take qlen (drop 2 stream)) st; (rest, st) = session (drop (2 + qlen) stream) st
            in (out @ rest, st))"
begin

lemma pipelined:
  assumes "list_all (\<lambda>m. m \<noteq> [] \<and> length m < 65536) ms" "length rest < 2"
  shows "session (concat (map frame ms) @ rest) st = run_messages answer ms st"
  using assms(1)
proof (induction ms arbitrary: st)
  case Nil
  with assms(2) show ?case by (simp add: session_eq)
next
  case (Cons m ms)
  define s where "s = frame m @ concat (map frame ms) @ rest"
  have m: "m \<noteq> []" "length m < 65536" using Cons.prems by simp_all
  note h = frame_head [OF m(2)]
  have "s ! 0 = frame m ! 0" "s ! 1 = frame m ! 1" using h(2) by (simp_all add: s_def nth_append)
  then have u: "unat (of_be16 (s ! 0) (s ! 1)) = length m" using h(1) by simp
  have "take (length m) (drop 2 s) = m" "drop (2 + length m) s = concat (map frame ms) @ rest"
    using h(2,3) by (simp_all add: s_def)
  moreover have "\<not> length s < 2" "\<not> length s < 2 + length m" "length m \<noteq> 0" using h(2) m by (simp_all add: s_def)
  ultimately have "session s st =
      (let (out, st) = answer m st; (rest, st) = session (concat (map frame ms) @ rest) st in (out @ rest, st))"
    by (subst session_eq) (simp only: u Let_def if_False simp_thms)
  with Cons show ?case by (simp add: s_def [symmetric] case_prod_beta Let_def)
qed

end

interpretation tcp: framed_session "\<lambda>m st. tcp_message env m peer st" "\<lambda>s st. tcp_session env s peer st" for env peer
  by unfold_locales (rule tcp_session.simps)

section \<open>Datagram sizes\<close>

definition question_bytes :: "u8 list \<Rightarrow> nat" where
  "question_bytes query =
     (case parse query of Inr pkt \<Rightarrow> length (concat (map b_question (p_questions pkt))) | Inl _ \<Rightarrow> 0)"

lemma length_build_truncated: "length (build_truncated query) = 12 + question_bytes query"
  by (simp add: build_truncated_def question_bytes_def formerr_response_def serialize_def with_opt_def split: sum.split)

text \<open>
  A reply is sent whole exactly when it fits the client's EDNS payload size, read as at least 512
  and at most 4096 bytes; otherwise it is replaced by a header and the question section, which is
  repeated without compression: it fits whenever the questions leave room for the header.
\<close>

theorem udp_truncation:
  "512 \<le> udp_limit query \<and> udp_limit query \<le> 4096 \<and>
   (if length resp \<le> udp_limit query then send_udp query resp = resp
    else length (send_udp query resp) = 12 + question_bytes query)"
  by (simp add: send_udp_def length_build_truncated udp_limit_def split: sum.split)

definition crowded_query :: packet where
  "crowded_query = (sample_query ''e'')\<lparr>p_questions := replicate 100 \<lparr>q_name = ''e'', q_type = A, q_class = 1\<rparr>\<rparr>"

lemma udp_truncation_witness: "\<exists>query resp. udp_limit query < length (send_udp query resp)"
proof -
  have "wf_packet crowded_query"
    using wf_e by (simp add: crowded_query_def sample_query_def wf_packet_def wf_question_def canonical_rtype_def
        rtype_from_def list_all_iff)
  then have p: "parse (serialize crowded_query False) = Inr crowded_query"
    by (simp add: parse_of_serialize) (simp add: sent_packet_def with_opt_def crowded_query_def sample_query_def)
  have "length (b_question \<lparr>q_name = ''e'', q_type = A, q_class = 1\<rparr>) = 7"
    by (simp add: b_question_def b_name_def b_label_def trim_end_dots_def be16_def)
  then have q: "question_bytes (serialize crowded_query False) = 700"
    by (simp add: question_bytes_def p) (simp add: crowded_query_def length_concat sum_list_replicate map_replicate_const)
  have l: "udp_limit (serialize crowded_query False) = 512"
    by (simp add: udp_limit_def p) (simp add: crowded_query_def sample_query_def)
  then have "length (send_udp (serialize crowded_query False) (replicate 513 0)) = 712"
    using udp_truncation [of "serialize crowded_query False" "replicate 513 0"] q by simp
  with l show ?thesis by (intro exI [of _ "serialize crowded_query False"] exI [of _ "replicate 513 0"]) simp
qed

section \<open>Upstream answers\<close>

text \<open>A question that the pipeline takes to the resolver.\<close>

definition goes_upstream :: "env \<Rightarrow> ip_addr \<Rightarrow> server_state \<Rightarrow> packet \<Rightarrow> question \<Rightarrow> bool" where
  "goes_upstream env peer st pkt q \<longleftrightarrow> authoritative_zone (s_zones st) (q_name q) = None \<and> allowed st peer \<and>
     cache_get (s_cache st) (e_now env) (q_name q) (q_type q) = None \<and> rd pkt"

lemma handle_query_upstream:
  assumes "asks env data st pkt q" "goes_upstream env peer st pkt q"
  shows "handle_query env data peer InlineRecursion st =
    (let (resp, st) = answer_recursively env pkt q (set_ra (response_for pkt)) (count record_cache_miss (count record_query st))
     in (send resp, timed env st))"
proof -
  obtain qs where q: "p_questions pkt = q # qs" using assms(1) by (auto simp: asks_def neq_Nil_conv)
  have "allowed (received InlineRecursion st) peer" using assms(2) by (simp add: goes_upstream_def allowed_def)
  with assms q show ?thesis
    by (simp add: asks_handle_query [OF assms(1)] answer_packet_def answer_from_cache_def goes_upstream_def asks_def)
      (simp add: received_def)
qed

lemma no_keys_no_validation: "dnskeys_of up = [] \<Longrightarrow> validate_upstream env k cfg pkt q up = None"
  by (simp add: validate_upstream_def)

text \<open>The reply to an answer that needs no or passes validation.\<close>

definition relayed :: "packet \<Rightarrow> packet \<Rightarrow> packet" where
  "relayed pkt up = set_rcode (rcode up) ((set_ra (response_for pkt))\<lparr>p_answers := p_answers up,
     p_authority := p_authority up, p_additional := p_additional up\<rparr>)"

lemma low4: "(0xF :: u8) = mask 4"
  by (simp add: mask_eq_exp_minus_1)

lemma relayed_fields: "p_answers (relayed pkt up) = p_answers up" "rcode (relayed pkt up) = rcode up"
proof -
  have "rcode up AND 0xF = rcode up"
    by (intro bit_word_eqI) (auto simp: bit_rcode bit_and_iff low4 bit_mask_iff)
  then show "rcode (relayed pkt up) = rcode up" by (simp add: relayed_def)
qed (simp add: relayed_def)

lemma upstream_reply:
  assumes "asks env data st pkt q" "goes_upstream env peer st pkt q"
    and "resolve (e_net env) (e_resolver env) (q_name q) (q_type q) (e_exchange env) = (ResAnswer up, k)"
    and "validate_upstream env k (s_config st) pkt q up = None"
  shows "fst (handle_query env data peer InlineRecursion st) = send (relayed pkt up) \<and>
    s_cache (snd (handle_query env data peer InlineRecursion st)) = cache_answer (e_now env) q up (s_cache st) \<and>
    keeps st (snd (handle_query env data peer InlineRecursion st))"
proof -
  obtain s where "answer_recursively env pkt q (set_ra (response_for pkt)) (count record_cache_miss (count record_query st)) =
      (relayed pkt up, s)" "s_cache s = cache_answer (e_now env) q up (s_cache st)"
    using assms(4) by (simp add: answer_recursively_def assms(3) Let_def relayed_def)
  then show ?thesis
    using handle_query_upstream [OF assms(1,2)] keeps_handle_query [of st env data peer InlineRecursion] by simp
qed

text \<open>
  Validation is at the mercy of upstream: an answer that comes without DNSKEY records is passed
  on as it is, with validation and strict mode switched on just as with them switched off.
\<close>

theorem missing_keys_disable_validation:
  assumes "asks env data st pkt q" "goes_upstream env peer st pkt q"
    and "fst (resolve (e_net env) (e_resolver env) (q_name q) (q_type q) (e_exchange env)) = ResAnswer up"
    and "dnskeys_of up = []"
  shows "\<exists>resp. p_answers resp = p_answers up \<and> rcode resp = rcode up \<and>
    fst (handle_query env data peer InlineRecursion st) = send resp \<and>
    fst (handle_query env data peer InlineRecursion
           (st\<lparr>s_config := (s_config st)\<lparr>dnssec_validate := False, dnssec_strict := False\<rparr>\<rparr>)) = send resp"
proof -
  let ?st' = "st\<lparr>s_config := (s_config st)\<lparr>dnssec_validate := False, dnssec_strict := False\<rparr>\<rparr>"
  obtain k where res: "resolve (e_net env) (e_resolver env) (q_name q) (q_type q) (e_exchange env) = (ResAnswer up, k)"
    using assms(3) by (cases "resolve (e_net env) (e_resolver env) (q_name q) (q_type q) (e_exchange env)") auto
  have "asks env data ?st' pkt q" "goes_upstream env peer ?st' pkt q"
    using assms(1,2) by (simp_all add: asks_def goes_upstream_def allowed_def tsig_refused_def)
  from upstream_reply [OF this res no_keys_no_validation] upstream_reply [OF assms(1,2) res no_keys_no_validation]
  show ?thesis using assms(4) relayed_fields by blast
qed

text \<open>A server that resolves for everyone, over a network where every server has one answer.\<close>

definition open_state :: server_state where
  "open_state = (sample_state [])\<lparr>s_config := sample_config\<lparr>allow_recursion := [\<lparr>n_address = ipv4 0 0 0 0, n_prefix = 0\<rparr>]\<rparr>\<rparr>"

definition upstream_env :: env where
  "upstream_env = sample_env\<lparr>e_net := reply_net answer_reply\<rparr>"

lemma wf_name_e: "wf_name ''e''"
  by (rule wf_e)

lemma asks_upstream: "asks upstream_env (serialize (sample_query ''e'') False) open_state (sample_query ''e'')
    \<lparr>q_name = ''e'', q_type = A, q_class = 1\<rparr>"
  using asks_sample_query [OF wf_name_e, of "[]"]
  by (simp add: asks_def tsig_refused_def open_state_def upstream_env_def sample_config_def server_config_default_def)

lemma resolve_upstream: "resolve (e_net upstream_env) (e_resolver upstream_env) ''e'' A (e_exchange upstream_env) = (ResAnswer answer_reply, 1)"
  using answer_run [of MAX_NS_LOOKUP_DEPTH 0]
  by (simp add: resolve_def upstream_env_def sample_env_def del: iterative_resolve.simps)

lemma goes_upstream_sample:
  "goes_upstream upstream_env (ipv4 192 0 2 1) open_state (sample_query ''e'') \<lparr>q_name = ''e'', q_type = A, q_class = 1\<rparr>"
  by (simp add: goes_upstream_def open_state_def sample_state_def authoritative_zone_def allowed_def sample_config_def server_config_default_def
      cache_get_def cache_new_def sample_query_def rd_def net_contains_def ipv4_def net_mask_def)

lemma dnskeys_answer_reply: "dnskeys_of answer_reply = []"
  by (simp add: dnskeys_of_def answer_reply_def nodata_reply_def)

lemma missing_keys_disable_validation_witness:
  "\<exists>resp. p_answers resp = p_answers answer_reply \<and>
    fst (handle_query upstream_env (serialize (sample_query ''e'') False) (ipv4 192 0 2 1) InlineRecursion open_state) = send resp"
proof -
  have "fst (resolve (e_net upstream_env) (e_resolver upstream_env) ''e'' A (e_exchange upstream_env)) = ResAnswer answer_reply"
    by (simp add: resolve_upstream)
  from missing_keys_disable_validation [OF asks_upstream goes_upstream_sample, unfolded question.simps,
      OF this dnskeys_answer_reply]
  show ?thesis by blast
qed

text \<open>
  What was resolved once is answered from the cache for as long as its smallest TTL, at most a
  day, lasts: to every peer that may recurse, whatever it asks besides the name and the type, with
  the records of the answer as they were, so their TTLs do not count down, without signatures and
  with the response code NOERROR, whatever code came with the answer.
\<close>

theorem cached_reply_repeats:
  assumes "asks env data st pkt q" "goes_upstream env peer st pkt q"
    and "fst (resolve (e_net env) (e_resolver env) (q_name q) (q_type q) (e_exchange env)) = ResAnswer up"
    and "dnskeys_of up = []" "min_ttl up = Some ttl" "0 < ttl"
    and "st' = snd (handle_query env data peer InlineRecursion st)"
    and "e_now env' < e_now env + from_secs (min (unat ttl) 86400)"
    and "asks env' data' st' pkt' q'" "to_lower (q_name q') = to_lower (q_name q)" "q_type q' = q_type q"
    and "allowed st' peer'"
  shows "\<exists>resp. fst (handle_query env' data' peer' recursion st') = send resp \<and> replies_to resp pkt' \<and>
    p_answers resp = filter (\<lambda>r. r_type r \<noteq> RRSIG) (p_answers up) \<and> rcode resp = RCODE_NOERROR"
proof -
  obtain k where res: "resolve (e_net env) (e_resolver env) (q_name q) (q_type q) (e_exchange env) = (ResAnswer up, k)"
    using assms(3) by (cases "resolve (e_net env) (e_resolver env) (q_name q) (q_type q) (e_exchange env)") auto
  have st': "s_cache st' = cache_answer (e_now env) q up (s_cache st)" "s_zones st' = s_zones st"
    using upstream_reply [OF assms(1,2) res no_keys_no_validation] assms(4,7) by (simp_all add: keeps_def)
  have "unat (positive_ttl ttl) = min (unat ttl) 86400"
    using assms(6) by (auto simp: positive_ttl_def word_less_nat_alt min_def unat_gt_0)
  then have hit: "cache_get (s_cache st') (e_now env') (q_name q') (q_type q') =
      Some (Records (filter (\<lambda>r. r_type r \<noteq> RRSIG) (p_answers up)))"
    using assms(5,6,8,10,11)
    by (simp add: st' cache_answer_def insert_positive_def cache_get_def cache_key_def Let_def lookup_update')
  have none: "authoritative_zone (s_zones st') (q_name q') = None"
    using assms(2,10) by (simp add: st' goes_upstream_def authoritative_zone_def is_authoritative_for_def)
  obtain qs where q: "p_questions pkt' = q' # qs" using assms(9) by (auto simp: asks_def neq_Nil_conv)
  let ?resp = "(response_for pkt')\<lparr>p_answers := filter (\<lambda>r. r_type r \<noteq> RRSIG) (p_answers up)\<rparr>"
  have "\<not> is_response pkt'" "opcode pkt' = 0" "allowed (received recursion st') peer'"
    using assms(9,12) by (simp_all add: asks_def allowed_def)
  then have "fst (handle_query env' data' peer' recursion st') = send ?resp"
    by (simp add: asks_handle_query [OF assms(9)] answer_packet_def q none answer_from_cache_def hit)
  moreover have "replies_to ?resp pkt'" by (intro replies_to_ops replies_to_response_for)
  ultimately show ?thesis by (intro exI [of _ ?resp]) (simp add: rcode_defs)
qed

lemma asks_cong:
  "s_config st' = s_config st \<Longrightarrow> s_keys st' = s_keys st \<Longrightarrow> asks env data st pkt q \<Longrightarrow> asks env data st' pkt q"
  by (simp add: asks_def tsig_refused_def)

lemma cached_reply_repeats_witness:
  "\<exists>resp. fst (handle_query upstream_env (serialize (sample_query ''e'') False) (ipv4 192 0 2 1) Defer
      (snd (handle_query upstream_env (serialize (sample_query ''e'') False) (ipv4 192 0 2 1) InlineRecursion open_state))) =
    send resp \<and> p_answers resp = p_answers answer_reply"
proof -
  let ?data = "serialize (sample_query ''e'') False"
  let ?st = "snd (handle_query upstream_env ?data (ipv4 192 0 2 1) InlineRecursion open_state)"
  have same: "s_config ?st = s_config open_state" "s_keys ?st = s_keys open_state"
    using keeps_handle_query [of open_state upstream_env ?data "ipv4 192 0 2 1" InlineRecursion] by (simp_all add: keeps_def)
  have may: "allowed ?st (ipv4 192 0 2 1)"
    using goes_upstream_sample by (simp add: goes_upstream_def allowed_def same)
  have res: "fst (resolve (e_net upstream_env) (e_resolver upstream_env) ''e'' A (e_exchange upstream_env)) = ResAnswer answer_reply"
    by (simp add: resolve_upstream)
  have ttl: "min_ttl answer_reply = Some 60" by (simp add: min_ttl_def answer_reply_def nodata_reply_def)
  have time: "e_now upstream_env < e_now upstream_env + from_secs (min (unat (60 :: u32)) 86400)"
    by (simp add: from_secs_def)
  have "filter (\<lambda>r. r_type r \<noteq> RRSIG) (p_answers answer_reply) = p_answers answer_reply"
    by (simp add: answer_reply_def nodata_reply_def)
  then show ?thesis
    using cached_reply_repeats [OF asks_upstream goes_upstream_sample, unfolded question.simps, OF res dnskeys_answer_reply
        ttl _ refl time asks_cong [OF same asks_upstream], unfolded question.simps, OF _ refl refl may, of Defer]
    by auto
qed

section \<open>Transfers and zones below a zone\<close>

text \<open>
  A transfer picks the first zone that holds the name, a query the most specific one: with a parent
  listed before its child, a transfer of the child delivers the parent.
\<close>

lemma transfer_first_match:
  assumes "parse data = Inr pkt" "p_questions pkt = q # qs" "q_type q = AXFR" "s_keys st = []"
    and "s_zones st = parent # zones" "is_authoritative_for parent (q_name q)"
  shows "maybe_zone_transfer env data st = Inr (Some (axfr_stream pkt parent))"
  using assms by (simp add: maybe_zone_transfer_def keyring_is_empty_def)

text \<open>
  A query is answered from the most specific zone: the one chosen holds the name and every other
  zone that holds it has its origin at or above the origin of the chosen one.
\<close>

theorem authoritative_zone_deepest:
  "(case authoritative_zone zones name of
      None \<Rightarrow> \<not> list_ex (\<lambda>z. is_authoritative_for z name) zones
    | Some best \<Rightarrow> best \<in> set zones \<and> is_authoritative_for best name \<and>
        list_all (\<lambda>z. if is_authoritative_for z name then z_origin z = z_origin best \<or> below (z_origin best) (z_origin z)
                      else True) zones)"
proof -
  have max: "case max_by_origin zs of None \<Rightarrow> zs = []
    | Some b \<Rightarrow> b \<in> set zs \<and> (\<forall>z\<in>set zs. length (z_origin z) \<le> length (z_origin b))" for zs
    by (induction zs rule: max_by_origin.induct) (auto split: option.splits)
  have nested: "z_origin z = z_origin b \<or> below (z_origin b) (z_origin z)"
    if "is_authoritative_for z name" "is_authoritative_for b name" "length (z_origin z) \<le> length (z_origin b)" for z b
  proof -
    let ?n = "to_lower name"
    have zn: "suffix (z_origin z) ?n" "suffix (z_origin b) ?n"
      using that(1,2) by (auto simp: is_authoritative_for_def below_def dest: suffix_ConsD)
    show ?thesis
    proof (cases "length (z_origin z) = length (z_origin b)")
      case True
      with zn show ?thesis by (metis suffix_length_suffix suffix_order.antisym order_refl)
    next
      case False
      with that(3) suffix_length_le [OF zn(2)] have "?n \<noteq> z_origin z" by (metis le_antisym)
      with that(1) have "suffix (CHR ''.'' # z_origin z) ?n" by (simp add: is_authoritative_for_def below_def)
      then have "suffix (CHR ''.'' # z_origin z) (z_origin b)"
        by (rule suffix_length_suffix) (use zn(2) False that(3) in simp_all)
      then show ?thesis by (simp add: below_def)
    qed
  qed
  show ?thesis
  proof (cases "authoritative_zone zones name")
    case None
    then show ?thesis
      using max [of "filter (\<lambda>z. is_authoritative_for z name) zones"]
      by (simp add: authoritative_zone_def filter_empty_conv list_ex_iff)
  next
    case (Some b)
    then have b: "b \<in> set zones" "is_authoritative_for b name"
      "\<And>z. z \<in> set zones \<Longrightarrow> is_authoritative_for z name \<Longrightarrow> length (z_origin z) \<le> length (z_origin b)"
      using max [of "filter (\<lambda>z. is_authoritative_for z name) zones"] by (simp_all add: authoritative_zone_def)
    with nested Some show ?thesis by (simp add: list_all_iff)
  qed
qed

section \<open>The supervisor\<close>

lemma sleep_bounds: "1 \<le> d \<Longrightarrow> d \<le> 30 \<Longrightarrow> 1 \<le> sleep_secs d up \<and> sleep_secs d up \<le> 30"
  by (simp add: sleep_secs_def)

lemma supervise_bounds: "1 \<le> d \<Longrightarrow> d \<le> 30 \<Longrightarrow> list_all (\<lambda>s. 1 \<le> s \<and> s \<le> 30) (supervise d ups)"
proof (induction d ups rule: supervise.induct)
  case (2 d up ups)
  then show ?case using sleep_bounds [of d up] by (simp add: Let_def)
qed simp

lemma supervise_quick:
  "list_all (\<lambda>up. up \<le> 60 * 1000000000) ups \<Longrightarrow> supervise (min (2 ^ k) 30) ups = map (\<lambda>i. min (2 ^ (k + i)) 30) [0..<length ups]"
proof (induction ups arbitrary: k)
  case (Cons up ups)
  have "min (min (2 ^ k) 30 * 2) 30 = min (2 ^ Suc k) (30 :: nat)" by simp
  with Cons.prems Cons.IH [of "Suc k"] show ?case by (simp add: Let_def sleep_secs_def map_upt_Suc del: upt_Suc)
qed simp

text \<open>
  A loop that stops is always started again after one to thirty seconds; in a row of runs of at
  most a minute each the delays are 1, 2, 4, 8, 16 and then 30 seconds.
\<close>

theorem supervised_backoff:
  "list_all (\<lambda>s. 1 \<le> s \<and> s \<le> 30) (supervise 1 ups) \<and>
   (if list_all (\<lambda>up. up \<le> 60 * 1000000000) ups then supervise 1 ups = map (\<lambda>i. min (2 ^ i) 30) [0..<length ups] else True)"
  using supervise_bounds [of 1 ups] supervise_quick [of ups 0] by simp

end
