(* ===== verification/ZoneSigning.thy ===== *)
theory ZoneSigning
  imports Dnssec ZoneManager
begin

text \<open>
  Signing of a zone when it is loaded: \<open>src/src/zone_signing.rs\<close> and \<open>ZoneManager::sign_zone\<close>.  The
  \<open>rsa\<close> crate is the record \<open>rsa\<close> over DER bytes, the key files a function from paths to DER bytes;
  \<open>None\<close> is an error.  The \<open>sha2\<close> crate computes the functions that \<^theory_text>\<open>Sha2\<close> shows the program's own
  to be.
\<close>

section \<open>Keys\<close>

record rsa =
  rsa_public :: "u8 list \<Rightarrow> (u8 list \<times> u8 list) option"
  rsa_sign :: "RsaHash \<Rightarrow> u8 list \<Rightarrow> u8 list \<Rightarrow> u8 list option"

type_synonym key_files = "string \<Rightarrow> u8 list option"

record dns_key =
  k_flags :: u16
  k_protocol :: u8
  k_algorithm :: u8
  k_private :: "u8 list"
  k_name :: string

definition is_ksk :: "dns_key \<Rightarrow> bool" where
  "is_ksk key \<longleftrightarrow> k_flags key AND 0x0001 \<noteq> 0"

definition is_zsk :: "dns_key \<Rightarrow> bool" where
  "is_zsk key \<longleftrightarrow> \<not> is_ksk key"

definition from_pem_file :: "key_files \<Rightarrow> string \<Rightarrow> dns_key option" where
  "from_pem_file files path =
     map_option (\<lambda>der. \<lparr>k_flags = 256, k_protocol = 3, k_algorithm = 8, k_private = der, k_name = path\<rparr>) (files path)"

text \<open>RFC 3110: exponent length in one or three bytes, exponent, modulus.\<close>

definition dnskey_rdata :: "rsa \<Rightarrow> dns_key \<Rightarrow> u8 list option" where
  "dnskey_rdata crate key =
     (case rsa_public crate (k_private key) of None \<Rightarrow> None
      | Some (ex, modulus) \<Rightarrow>
          Some (be16 (k_flags key) @ [k_protocol key, k_algorithm key] @
            (if length ex \<le> 255 then [of_nat (length ex)] else 0 # be16 (of_nat (length ex))) @ ex @ modulus))"

definition dnskey_record :: "rsa \<Rightarrow> dns_key \<Rightarrow> u32 \<Rightarrow> rr option" where
  "dnskey_record crate key ttl =
     map_option (\<lambda>rdat. \<lparr>r_name = k_name key, r_type = DNSKEY, r_class = CLASS_IN, r_ttl = ttl, r_rdata = rdat\<rparr>)
       (dnskey_rdata crate key)"

definition compute_key_tag :: "u8 list \<Rightarrow> u16" where
  "compute_key_tag rdat =
     (let ac = key_tag_sum 0 rdat 0; ac = ac + drop_bit 16 ac in ucast (ac AND 0xFFFF))"

definition signing_key_tag :: "rsa \<Rightarrow> dns_key \<Rightarrow> u16 option" where
  "signing_key_tag crate key = map_option compute_key_tag (dnskey_rdata crate key)"

section \<open>The signer\<close>

record zone_signer =
  s_zsk :: dns_key
  s_ksk :: "dns_key option"
  s_inception :: u32
  s_expiration :: u32

text \<open>\<open>now.saturating_sub(3600)\<close> and \<open>now + 30 * 24 * 3600\<close>, which overflows in the year 2106.\<close>

definition signer_new :: "u64 \<Rightarrow> dns_key \<Rightarrow> dns_key option \<Rightarrow> zone_signer" where
  "signer_new unix zsk ksk =
     (let now = ucast unix in
      \<lparr>s_zsk = zsk, s_ksk = ksk, s_inception = (if now < 3600 then 0 else now - 3600),
       s_expiration = now + 30 * 24 * 3600\<rparr>)"

definition sign_data :: "rsa \<Rightarrow> dns_key \<Rightarrow> u8 list \<Rightarrow> u8 list option" where
  "sign_data crate key data =
     (if rsa_public crate (k_private key) = None then None
      else if k_algorithm key = 8 then rsa_sign crate Sha256 (k_private key) (sha256 data)
      else rsa_sign crate Sha512 (k_private key) (sha512 data))"

definition owner_labels :: "string \<Rightarrow> u8" where
  "owner_labels name =
     (let owner = trim_end_dots name
      in of_nat (length (filter (\<lambda>l. l \<noteq> []) (split_dots owner)) - (if prefix ''*.'' owner then 1 else 0)))"

definition unsigned_rrsig :: "zone_signer \<Rightarrow> dns_key \<Rightarrow> rr \<Rightarrow> string \<Rightarrow> u16 \<Rightarrow> rrsig_fields" where
  "unsigned_rrsig signer key r zone_name tag =
     \<lparr>type_covered = rtype_to (r_type r), sig_algorithm = k_algorithm key, sig_labels = owner_labels (r_name r),
      orig_ttl = r_ttl r, sig_expiry = s_expiration signer, sig_inception = s_inception signer, sig_key_tag = tag,
      signer_name = to_lower zone_name, signature = []\<rparr>"

definition rrsig_rdata :: "rrsig_fields \<Rightarrow> u8 list \<Rightarrow> u8 list" where
  "rrsig_rdata f sg =
     be16 (type_covered f) @ [sig_algorithm f, sig_labels f] @ be32 (orig_ttl f) @ be32 (sig_expiry f) @
     be32 (sig_inception f) @ be16 (sig_key_tag f) @ b_name (signer_name f) @ sg"

definition sign_rrset_with_key :: "rsa \<Rightarrow> zone_signer \<Rightarrow> dns_key \<Rightarrow> rr list \<Rightarrow> string \<Rightarrow> u16 \<Rightarrow> rr option" where
  "sign_rrset_with_key crate signer key rrset zone_name tag =
     (case rrset of [] \<Rightarrow> None | r # _ \<Rightarrow>
        let f = unsigned_rrsig signer key r zone_name tag in
        (case sign_data crate key (build_signed_data f rrset) of None \<Rightarrow> None
         | Some sg \<Rightarrow>
             Some \<lparr>r_name = r_name r, r_type = RRSIG, r_class = r_class r, r_ttl = r_ttl r, r_rdata = rrsig_rdata f sg\<rparr>))"

definition sign_rrset :: "rsa \<Rightarrow> zone_signer \<Rightarrow> rr list \<Rightarrow> string \<Rightarrow> u16 \<Rightarrow> rr option" where
  "sign_rrset crate signer rrset zone_name tag = sign_rrset_with_key crate signer (s_zsk signer) rrset zone_name tag"

section \<open>sign_zone\<close>

definition key_path :: "string \<Rightarrow> string \<Rightarrow> string \<Rightarrow> string" where
  "key_path key_dir origin role = key_dir @ ''/K'' @ origin @ ''+008+'' @ role @ ''.private''"

text \<open>The loop over the RRsets; \<open>None\<close> is the early return on a failure of the key signing key.\<close>

fun sign_rrsets :: "rsa \<Rightarrow> zone_signer \<Rightarrow> string \<Rightarrow> u16 \<Rightarrow> u16 option \<Rightarrow> rr list list \<Rightarrow> rr list option" where
  "sign_rrsets crate signer origin zsk_tag ksk_tag [] = Some []"
| "sign_rrsets crate signer origin zsk_tag ksk_tag (rrset # rrsets) =
     (let own = (case sign_rrset crate signer rrset origin zsk_tag of Some s \<Rightarrow> [s] | None \<Rightarrow> []);
          extra = (if r_type (hd rrset) = DNSKEY
                   then (case (s_ksk signer, ksk_tag) of
                           (Some key, Some tag) \<Rightarrow>
                             map_option (\<lambda>s. [s]) (sign_rrset_with_key crate signer key rrset origin tag)
                         | _ \<Rightarrow> Some [])
                   else Some [])
      in case extra of None \<Rightarrow> None
         | Some second \<Rightarrow> map_option (\<lambda>rest. own @ second @ rest) (sign_rrsets crate signer origin zsk_tag ksk_tag rrsets))"

definition first_soa_rr :: "zone \<Rightarrow> rr option" where
  "first_soa_rr z = (case zone_soa z of Some (soa # _) \<Rightarrow> Some soa | _ \<Rightarrow> None)"

definition dnskey_ttl_of :: "zone \<Rightarrow> u32" where
  "dnskey_ttl_of z = (case first_soa_rr z of Some soa \<Rightarrow> r_ttl soa | None \<Rightarrow> 3600)"

definition nsec_ttl_of :: "zone \<Rightarrow> u32" where
  "nsec_ttl_of z =
     (case first_soa_rr z of Some soa \<Rightarrow> min (r_ttl soa) (soa_minimum_ttl (r_rdata soa)) | None \<Rightarrow> 3600)"

definition load_zsk :: "key_files \<Rightarrow> string \<Rightarrow> string \<Rightarrow> dns_key option" where
  "load_zsk files key_dir origin =
     map_option (\<lambda>key. key\<lparr>k_name := origin\<rparr>) (from_pem_file files (key_path key_dir origin ''zsk''))"

definition load_ksk :: "key_files \<Rightarrow> string \<Rightarrow> string \<Rightarrow> dns_key option" where
  "load_ksk files key_dir origin =
     map_option (\<lambda>key. key\<lparr>k_name := origin, k_flags := 257\<rparr>) (from_pem_file files (key_path key_dir origin ''ksk''))"

text \<open>The number of signatures, \<open>None\<close> on an error, and the zone, which an error leaves half done.\<close>

definition sign_zone :: "rsa \<Rightarrow> key_files \<Rightarrow> u64 \<Rightarrow> string \<Rightarrow> zone \<Rightarrow> nat option \<times> zone" where
  "sign_zone crate files unix key_dir z =
     (let origin = z_origin z in
      if zone_lookup z origin DNSKEY \<noteq> None then (Some 0, z)
      else case load_zsk files key_dir origin of None \<Rightarrow> (None, z) | Some zsk \<Rightarrow>
       (let ksk = load_ksk files key_dir origin; ttl = dnskey_ttl_of z in
        case (signing_key_tag crate zsk, dnskey_record crate zsk ttl) of
          (Some zsk_tag, Some zsk_rr) \<Rightarrow>
            (let z = zone_add zsk_rr z;
                 ksk_rr = (case ksk of None \<Rightarrow> None | Some key \<Rightarrow> dnskey_record crate key ttl);
                 ksk_tag = (case ksk of None \<Rightarrow> None | Some key \<Rightarrow> signing_key_tag crate key)
             in if ksk \<noteq> None \<and> ksk_rr = None then (None, z)
                else let z = (case ksk_rr of None \<Rightarrow> z | Some r \<Rightarrow> zone_add r z);
                         z = build_nsec_chain (nsec_ttl_of z) z;
                         signer = signer_new unix zsk ksk
                     in case sign_rrsets crate signer origin zsk_tag ksk_tag (iter_rrsets z) of
                          None \<Rightarrow> (None, z)
                        | Some rrsigs \<Rightarrow> (Some (length rrsigs), fold zone_add rrsigs z))
        | _ \<Rightarrow> (None, z)))"

text \<open>What \<open>load_zone\<close> does with a zone read from a file before it publishes it.\<close>

definition signed_if_keyed :: "rsa \<Rightarrow> key_files \<Rightarrow> (string \<Rightarrow> bool) \<Rightarrow> u64 \<Rightarrow> zone \<Rightarrow> zone" where
  "signed_if_keyed crate files exists unix z =
     (if exists (key_path ''keys'' (z_origin z) ''zsk'') then snd (sign_zone crate files unix ''keys'' z) else z)"

definition load_zone_file :: "rsa \<Rightarrow> key_files \<Rightarrow> (string \<Rightarrow> bool) \<Rightarrow> u64 \<Rightarrow> (string \<Rightarrow> string \<Rightarrow> 'e + zone) \<Rightarrow>
    string \<Rightarrow> string \<Rightarrow> zone_manager \<Rightarrow> ('e + unit) \<times> zone_manager" where
  "load_zone_file crate files exists unix read_zone =
     load_zone (\<lambda>origin path. map_sum id (signed_if_keyed crate files exists unix) (read_zone origin path))"

section \<open>A signed RRset validates\<close>

text \<open>
  The crate as documented: a key signs every digest, PKCS#1 v1.5 signatures made with a private key
  verify under its public key, and public exponents are not empty and fit the wire format.
\<close>

definition rsa_sound :: "rsa \<Rightarrow> crypto \<Rightarrow> bool" where
  "rsa_sound crate cr \<longleftrightarrow>
     (\<forall>der ex modulus. rsa_public crate der = Some (ex, modulus) \<longrightarrow> ex \<noteq> [] \<and> length ex < 65536 \<and>
        (\<forall>h d. \<exists>sg. rsa_sign crate h der d = Some sg \<and> rsa_check cr h modulus ex d sg = Some True))"

lemma rsa_soundD:
  assumes "rsa_sound crate cr" "rsa_public crate der = Some (ex, modulus)"
  shows "ex \<noteq> []" "length ex < 65536" "\<exists>sg. rsa_sign crate h der d = Some sg"
    "rsa_sign crate h der d = Some sg \<Longrightarrow> rsa_check cr h modulus ex d sg = Some True"
proof -
  have all: "ex \<noteq> [] \<and> length ex < 65536 \<and>
      (\<forall>h d. \<exists>sg. rsa_sign crate h der d = Some sg \<and> rsa_check cr h modulus ex d sg = Some True)"
    using assms unfolding rsa_sound_def by blast
  then show "ex \<noteq> []" "length ex < 65536" by simp_all
  obtain sg' where sg': "rsa_sign crate h der d = Some sg'" "rsa_check cr h modulus ex d sg' = Some True"
    using all by blast
  then show "\<exists>sg. rsa_sign crate h der d = Some sg" by blast
  show "rsa_sign crate h der d = Some sg \<Longrightarrow> rsa_check cr h modulus ex d sg = Some True" using sg' by simp
qed

lemma compute_key_tag_eq: "compute_key_tag = key_tag"
  by (rule ext) (simp add: compute_key_tag_def key_tag_def Let_def)

definition pubkey_bytes :: "u8 list \<times> u8 list \<Rightarrow> u8 list" where
  "pubkey_bytes p = (case p of (ex, modulus) \<Rightarrow>
     (if length ex \<le> 255 then [of_nat (length ex)] else 0 # be16 (of_nat (length ex))) @ ex @ modulus)"

lemma parse_pubkey_bytes:
  assumes "ex \<noteq> []" "length ex < 65536"
  shows "parse_rsa_pubkey (pubkey_bytes (ex, modulus)) = Inr (ex, modulus)"
proof (cases "length ex \<le> 255")
  case True
  then have u: "unat (of_nat (length ex) :: u8) = length ex" by (simp add: unat_of_nat)
  with assms(1) have "(of_nat (length ex) :: u8) \<noteq> 0" by (metis length_0_conv unat_0)
  with True u show ?thesis by (simp add: parse_rsa_pubkey_def pubkey_bytes_def Let_def)
next
  case False
  have "unat (of_nat (length ex) :: u16) = length ex" using assms(2) by (simp add: unat_of_nat_u16)
  moreover have "256 * unat (ucast (drop_bit 8 w) :: u8) + unat (ucast w :: u8) = unat w" for w :: u16
  proof -
    have "unat w div 256 < 256"
      using unsigned_less [of w, where ?'a = nat] by (simp add: div_less_iff_less_mult)
    then show ?thesis
      by (simp add: unsigned_ucast_eq unsigned_drop_bit_eq take_bit_eq_mod drop_bit_eq_div unat_div)
  qed
  ultimately show ?thesis
    using False by (simp add: parse_rsa_pubkey_def pubkey_bytes_def Let_def be16_def)
qed

lemma dnskey_rdata_pubkey:
  "dnskey_rdata crate key = map_option (\<lambda>p. be16 (k_flags key) @ [k_protocol key, k_algorithm key] @ pubkey_bytes p)
    (rsa_public crate (k_private key))"
  by (simp add: dnskey_rdata_def pubkey_bytes_def split: option.split prod.split)

lemma build_signed_data_unsigned: "build_signed_data (f\<lparr>signature := sg\<rparr>) rrset = build_signed_data f rrset"
proof -
  have "signed_rr (f\<lparr>signature := sg\<rparr>) = signed_rr f" by (simp add: signed_rr_def fun_eq_iff)
  then show ?thesis by (simp add: build_signed_data_def)
qed

definition same_records :: "rr list \<Rightarrow> rr list \<Rightarrow> bool" where
  "same_records rrset rrset' \<longleftrightarrow>
     mset (map (\<lambda>r. (to_lower (r_name r), r_type r, r_class r, r_rdata r)) rrset) =
     mset (map (\<lambda>r. (to_lower (r_name r), r_type r, r_class r, r_rdata r)) rrset')"

text \<open>The published keys: the signing key is among them and no other key has its tag.\<close>

definition publishes :: "rsa \<Rightarrow> rr list \<Rightarrow> dns_key \<Rightarrow> u16 \<Rightarrow> bool" where
  "publishes crate dnskeys key tag \<longleftrightarrow> signing_key_tag crate key = Some tag \<and>
     list_ex (\<lambda>d. dnskey_rdata crate key = Some (r_rdata d)) dnskeys \<and>
     list_all (\<lambda>d. key_tag (r_rdata d) \<noteq> tag \<or> dnskey_rdata crate key = Some (r_rdata d)) dnskeys"

lemma signed_rrset_secure:
  assumes crypto: "rsa_sound crate cr" "k_algorithm key = 8 \<or> k_algorithm key = 10"
    and sig: "sign_rrset_with_key crate signer key rrset zone_name tag = Some sig" "wf_name (to_lower zone_name)"
    and keys: "publishes crate dnskeys key tag"
    and time: "ucast (s_inception signer) \<le> now" "now \<le> ucast (s_expiration signer)"
    and same: "same_records rrset rrset'"
  shows "validate_rrset cr now rrset' [sig] dnskeys = Secure"
proof -
  obtain r rs where r: "rrset = r # rs" using sig(1) by (auto simp: sign_rrset_with_key_def split: list.splits)
  define f where "f = unsigned_rrsig signer key r zone_name tag"
  obtain sg where sg: "sign_data crate key (build_signed_data f rrset) = Some sg" "r_rdata sig = rrsig_rdata f sg"
    using sig(1) by (auto simp: sign_rrset_with_key_def r f_def Let_def split: option.splits)
  have f: "sig_algorithm f = k_algorithm key" "sig_key_tag f = tag" "sig_inception f = s_inception signer"
    "sig_expiry f = s_expiration signer" "signer_name f = to_lower zone_name"
    by (simp_all add: f_def unsigned_rrsig_def)
  have rrsig: "parse_rrsig (r_rdata sig) = Inr (f\<lparr>signature := sg\<rparr>)"
    using parse_rrsig_bytes [OF sig(2)] by (cases f) (simp add: sg(2) rrsig_rdata_def f(5) [symmetric] flip: f(5))
  obtain ex modulus where pub: "rsa_public crate (k_private key) = Some (ex, modulus)" "ex \<noteq> []" "length ex < 65536"
    using sg(1) rsa_soundD(1,2) [OF crypto(1)] by (fastforce simp: sign_data_def split: if_splits)
  have ok: "rsa_check cr h modulus ex d s = Some True" if "rsa_sign crate h (k_private key) d = Some s" for h d s
    using rsa_soundD(4) [OF crypto(1) pub(1)] that by blast
  let ?pk = "pubkey_bytes (ex, modulus)"
  let ?rdata = "be16 (k_flags key) @ [k_protocol key, k_algorithm key] @ ?pk"
  have rdat: "dnskey_rdata crate key = Some ?rdata" by (simp add: dnskey_rdata_pubkey pub)
  have tag: "tag = key_tag ?rdata"
    using keys by (simp add: publishes_def signing_key_tag_def rdat compute_key_tag_eq)
  have dk: "parse_dnskey ?rdata = Inr \<lparr>dk_flags = k_flags key, dk_protocol = k_protocol key,
      dk_algorithm = k_algorithm key, public_key = ?pk\<rparr>"
    by (rule parse_dnskey_bytes)
  have m: "key_matches (f\<lparr>signature := sg\<rparr>) d \<longleftrightarrow> r_rdata d = ?rdata" if "d \<in> set dnskeys" for d
  proof (cases "r_rdata d = ?rdata")
    case True
    with dk tag show ?thesis by (simp only: key_matches_def f True) (simp add: f)
  next
    case False
    with keys that rdat have "key_tag (r_rdata d) \<noteq> tag" by (auto simp: publishes_def list_all_iff)
    with False show ?thesis by (simp add: key_matches_def f split: sum.split)
  qed
  obtain d0 where d0: "d0 \<in> set dnskeys" "r_rdata d0 = ?rdata"
    using keys by (auto simp: publishes_def rdat list_ex_iff)
  with m have "find (key_matches (f\<lparr>signature := sg\<rparr>)) dnskeys \<noteq> None" unfolding find_None_iff by blast
  then obtain d where d: "find (key_matches (f\<lparr>signature := sg\<rparr>)) dnskeys = Some d" by blast
  then have "r_rdata d = ?rdata"
    using m by (metis find_Some_iff nth_mem)
  with dk have pk: "parse_dnskey (r_rdata d) = Inr \<lparr>dk_flags = k_flags key, dk_protocol = k_protocol key,
      dk_algorithm = k_algorithm key, public_key = ?pk\<rparr>" by simp
  have data: "build_signed_data (f\<lparr>signature := sg\<rparr>) rrset' = build_signed_data f rrset"
    using build_signed_data_mset [of rrset rrset' f] same by (simp add: build_signed_data_unsigned same_records_def)
  have "verify_signature cr (k_algorithm key) ?pk (build_signed_data f rrset) sg = Inr True"
    using crypto(2) pub(1) sg(1) parse_pubkey_bytes [OF pub(2,3), of modulus] ok
    by (auto simp: verify_signature_def verify_rsa_def alg_defs sign_data_def checked_def)
  then have "check_rrsig cr now rrset' dnskeys sig = Some Secure"
    using time d pk by (simp add: check_rrsig_def rrsig f data not_less [THEN iffD2])
  moreover have "rrset' \<noteq> []" using same by (auto simp: same_records_def r)
  moreover have "dnskeys \<noteq> []" using d by auto
  ultimately show ?thesis by (simp add: validate_rrset_def)
qed

end
