(* ===== verification/SignedZones.thy ===== *)
theory SignedZones
  imports ZoneSigning ServerSpec
begin

text \<open>
  Signing, serving and validating composed: in a zone that \<^const>\<open>sign_zone\<close> has signed, the
  signatures that the server attaches to an RRset satisfy the validator with the published keys.
\<close>

section \<open>Lookups in the signed zone\<close>

lemma zone_lookup_fold_add:
  "zone_lookup (fold zone_add rs z) name t =
    (let sel = filter (\<lambda>r. rr_key r = (to_lower name, rtype_to t)) rs
     in if sel = [] then zone_lookup z name t
        else Some ((case zone_lookup z name t of None \<Rightarrow> [] | Some xs \<Rightarrow> xs) @ sel))"
  by (simp add: zone_lookup_def zs.find_fold_add_from zs.selected_def Let_def)

lemma zone_inv_build_nsec_chain: "zone_inv z \<Longrightarrow> zone_inv (build_nsec_chain ttl z)"
proof -
  have "zone_inv (fold (add_nsec ttl) links z)" if "zone_inv z" for links
    using that by (induction links arbitrary: z) (simp_all add: add_nsec_def zone_inv_add)
  then show "zone_inv z \<Longrightarrow> zone_inv (build_nsec_chain ttl z)"
    by (simp add: build_nsec_chain_def Let_def zone_inv_def)
qed

lemma lookup_in_rrsets:
  assumes "zone_inv z" "zone_lookup z name t = Some rrset"
  shows "rrset \<in> set (iter_rrsets z)" "rrset \<noteq> []" "rr_key (hd rrset) = (to_lower name, rtype_to t)"
proof -
  have "((to_lower name, rtype_to t), rrset) \<in> set (z_rrsets z)"
    using assms(2) by (auto simp: zone_lookup_def dest: map_of_SomeD)
  moreover from this have "rrset_ok ((to_lower name, rtype_to t), rrset)"
    using assms(1) by (auto simp: zone_inv_def list_all_iff)
  ultimately show "rrset \<in> set (iter_rrsets z)" "rrset \<noteq> []" "rr_key (hd rrset) = (to_lower name, rtype_to t)"
    by (auto simp: iter_rrsets_def rrset_ok_def list_all_iff intro: rev_image_eqI)
qed

lemma rrset_lookup:
  assumes "zone_inv z" "rrset \<in> set (iter_rrsets z)"
  shows "rrset \<noteq> []" "map_of (z_rrsets z) (rr_key (hd rrset)) = Some rrset"
proof -
  obtain k where k: "(k, rrset) \<in> set (z_rrsets z)" using assms(2) by (auto simp: iter_rrsets_def)
  then have ok: "rrset_ok (k, rrset)" and d: "distinct (map fst (z_rrsets z))"
    using assms(1) by (auto simp: zone_inv_def list_all_iff)
  then show "rrset \<noteq> []" by (simp add: rrset_ok_def)
  moreover from this ok have "rr_key (hd rrset) = k" by (auto simp: rrset_ok_def list_all_iff)
  ultimately show "map_of (z_rrsets z) (rr_key (hd rrset)) = Some rrset" using k d by simp
qed

section \<open>The signatures\<close>

lemma sign_rrsets_own:
  "sign_rrsets crate signer origin zt kt rrsets = Some sigs \<Longrightarrow> rrset \<in> set rrsets \<Longrightarrow>
    sign_rrset crate signer rrset origin zt = Some s \<Longrightarrow> s \<in> set sigs"
  by (induction rrsets arbitrary: sigs) (auto simp: Let_def split: option.splits if_splits)

lemma sign_rrset_with_key_type: "sign_rrset_with_key crate signer key rrset n tag = Some s \<Longrightarrow> r_type s = RRSIG"
  by (auto simp: sign_rrset_with_key_def Let_def split: list.splits option.splits)

lemma sign_rrsets_types: "sign_rrsets crate signer origin zt kt rrsets = Some sigs \<Longrightarrow> list_all (\<lambda>s. r_type s = RRSIG) sigs"
  by (induction rrsets arbitrary: sigs)
    (auto simp: Let_def sign_rrset_def dest: sign_rrset_with_key_type split: option.splits if_splits)

lemma sign_rrsets_from:
  "sign_rrsets crate signer origin zt kt rrsets = Some sigs \<Longrightarrow> s \<in> set sigs \<Longrightarrow>
    \<exists>rrset key tag. rrset \<in> set rrsets \<and> sign_rrset_with_key crate signer key rrset origin tag = Some s \<and>
      (key = s_zsk signer \<and> tag = zt \<or> s_ksk signer = Some key \<and> kt = Some tag)"
  by (induction rrsets arbitrary: sigs)
    (fastforce simp: Let_def sign_rrset_def split: option.splits if_splits)+

lemma sign_rrset_with_key_fields:
  assumes "sign_rrset_with_key crate signer key rrset n tag = Some s" "wf_name (to_lower n)"
  shows "rr_key s = (fst (rr_key (hd rrset)), 46)"
    "\<exists>f. parse_rrsig (r_rdata s) = Inr f \<and> type_covered f = snd (rr_key (hd rrset))"
proof -
  obtain r rs sg where r: "rrset = r # rs" "s = \<lparr>r_name = r_name r, r_type = RRSIG, r_class = r_class r, r_ttl = r_ttl r,
      r_rdata = rrsig_rdata (unsigned_rrsig signer key r n tag) sg\<rparr>"
    using assms(1) by (auto simp: sign_rrset_with_key_def Let_def split: list.splits option.splits)
  then show "rr_key s = (fst (rr_key (hd rrset)), 46)" by (simp add: rr_key_def)
  show "\<exists>f. parse_rrsig (r_rdata s) = Inr f \<and> type_covered f = snd (rr_key (hd rrset))"
    using parse_rrsig_bytes [OF assms(2)] r by (simp add: rrsig_rdata_def unsigned_rrsig_def rr_key_def)
qed

lemma sign_rrset_with_key_total:
  assumes "rsa_sound crate cr" "signing_key_tag crate key \<noteq> None" "rrset \<noteq> []"
  shows "sign_rrset_with_key crate signer key rrset n tag \<noteq> None"
proof -
  obtain ex modulus where pub: "rsa_public crate (k_private key) = Some (ex, modulus)"
    using assms(2) by (auto simp: signing_key_tag_def dnskey_rdata_def split: option.splits)
  have "sign_data crate key data \<noteq> None" for data
    using rsa_soundD(3) [OF assms(1) pub] by (simp add: sign_data_def pub)
  then show ?thesis
    using assms(3) by (auto simp: sign_rrset_with_key_def Let_def neq_Nil_conv split: option.split)
qed

lemma validate_all_secure:
  assumes "sigs \<noteq> []" "\<And>s. s \<in> set sigs \<Longrightarrow> validate_rrset cr now rrset [s] keys = Secure"
  shows "validate_rrset cr now rrset sigs keys = Secure"
proof -
  have "validate_rrset cr now rrset [hd sigs] keys = Secure" using assms by simp
  then have "rrset \<noteq> []" "keys \<noteq> []" "check_rrsig cr now rrset keys (hd sigs) = Some Secure"
    by (auto simp: validate_rrset_def split: if_splits option.splits)
  with assms(1) show ?thesis by (cases sigs) (simp_all add: validate_rrset_def)
qed

section \<open>What sign_zone leaves\<close>

definition key_records :: "rsa \<Rightarrow> dns_key \<Rightarrow> dns_key option \<Rightarrow> u32 \<Rightarrow> rr list" where
  "key_records crate zsk ksk ttl =
     [the (dnskey_record crate zsk ttl)] @ (case ksk of None \<Rightarrow> [] | Some key \<Rightarrow> [the (dnskey_record crate key ttl)])"

lemma sign_zone_parts:
  assumes "sign_zone crate files unix dir z = (Some n, z')" "zone_lookup z (z_origin z) DNSKEY = None"
  obtains zsk zt kt z1 sigs where "load_zsk files dir (z_origin z) = Some zsk" "signing_key_tag crate zsk = Some zt"
    "kt = (case load_ksk files dir (z_origin z) of None \<Rightarrow> None | Some key \<Rightarrow> signing_key_tag crate key)"
    "load_ksk files dir (z_origin z) \<noteq> None \<Longrightarrow> kt \<noteq> None"
    "\<exists>ttl. z1 = build_nsec_chain ttl (fold zone_add (key_records crate zsk (load_ksk files dir (z_origin z)) (dnskey_ttl_of z)) z)"
    "sign_rrsets crate (signer_new unix zsk (load_ksk files dir (z_origin z))) (z_origin z) zt kt (iter_rrsets z1) = Some sigs"
    "z' = fold zone_add sigs z1"
proof -
  let ?ksk = "load_ksk files dir (z_origin z)" and ?ttl = "dnskey_ttl_of z"
  obtain zsk where zsk: "load_zsk files dir (z_origin z) = Some zsk"
    using assms by (cases "load_zsk files dir (z_origin z)") (auto simp: sign_zone_def)
  obtain zt zr where z: "signing_key_tag crate zsk = Some zt" "dnskey_record crate zsk ?ttl = Some zr"
    using assms by (auto simp: sign_zone_def zsk Let_def split: option.splits prod.splits)
  have k: "signing_key_tag crate key \<noteq> None \<longleftrightarrow> dnskey_record crate key ?ttl \<noteq> None" for key
    by (simp add: signing_key_tag_def dnskey_record_def)
  define kt where "kt = (case ?ksk of None \<Rightarrow> None | Some key \<Rightarrow> signing_key_tag crate key)"
  define zk where "zk = fold zone_add (key_records crate zsk ?ksk ?ttl) z"
  define z1 where "z1 = build_nsec_chain (nsec_ttl_of zk) zk"
  have kr: "dnskey_record crate key ?ttl \<noteq> None" if "?ksk = Some key" for key
    using assms zsk z that by (cases "dnskey_record crate key ?ttl") (auto simp: sign_zone_def)
  then have "?ksk \<noteq> None \<Longrightarrow> kt \<noteq> None" using k by (auto simp: kt_def)
  moreover have "\<exists>sigs. sign_rrsets crate (signer_new unix zsk ?ksk) (z_origin z) zt kt (iter_rrsets z1) = Some sigs \<and>
      z' = fold zone_add sigs z1"
  proof (cases ?ksk)
    case None
    then show ?thesis
      using assms zsk z by (auto simp: sign_zone_def key_records_def Let_def kt_def zk_def z1_def split: option.splits)
  next
    case (Some key)
    then show ?thesis
      using assms zsk z kr [OF Some]
      by (auto simp: sign_zone_def key_records_def Let_def kt_def zk_def z1_def split: option.splits)
  qed
  ultimately show thesis using that [OF zsk z(1) kt_def] by (auto simp: z1_def zk_def)
qed

lemma lookup_build_nsec_chain:
  "rtype_to t \<noteq> 47 \<Longrightarrow> zone_lookup (build_nsec_chain ttl z) name t = zone_lookup z name t"
proof -
  assume t: "rtype_to t \<noteq> 47"
  have "zone_lookup (fold (add_nsec ttl) links z) name t = zone_lookup z name t" for links z
    using t by (induction links arbitrary: z) (simp_all add: add_nsec_def zone_lookup_def zs.find_add rr_key_nsec_record)
  then show ?thesis by (simp add: build_nsec_chain_def Let_def zone_lookup_def)
qed

text \<open>The published keys of the zone and the signing keys.\<close>

lemma key_records_published:
  assumes tag: "signing_key_tag crate zsk = Some zt"
    and kt: "kt = (case ksk of None \<Rightarrow> None | Some key \<Rightarrow> signing_key_tag crate key)"
    and total: "ksk \<noteq> None \<Longrightarrow> kt \<noteq> None" and differ: "kt \<noteq> Some zt"
  shows "publishes crate (key_records crate zsk ksk ttl) zsk zt"
    "ksk = Some key \<Longrightarrow> kt = Some t \<Longrightarrow> publishes crate (key_records crate zsk ksk ttl) key t"
  using assms
  by (auto simp: publishes_def key_records_def signing_key_tag_def dnskey_record_def compute_key_tag_eq
      split: option.splits)

text \<open>The signatures are valid from an hour before to thirty days after they are made.\<close>

lemma signer_window:
  assumes "3600 \<le> unat unix" "unat unix + 2592000 < 2 ^ 32" "unat unix \<le> unat now + 3600" "unat now \<le> unat unix + 2592000"
  shows "ucast (s_inception (signer_new unix zsk ksk)) \<le> (now :: u64)" "now \<le> ucast (s_expiration (signer_new unix zsk ksk))"
proof -
  have u: "unat (ucast unix :: u32) = unat unix"
    using assms(2) by (simp add: unsigned_ucast_eq take_bit_nat_eq_self)
  then have a: "\<not> (ucast unix :: u32) < 3600" using assms(1) by (simp add: word_less_nat_alt)
  have "unat ((ucast unix :: u32) - 3600) = unat unix - 3600"
    using a u by (simp add: unat_sub word_le_nat_alt not_less)
  then show "ucast (s_inception (signer_new unix zsk ksk)) \<le> now"
    using a assms(3)
    by (auto simp: signer_new_def Let_def word_le_nat_alt unsigned_ucast_eq intro!: order.trans [OF take_bit_nat_less_eq_self])
  have "unat ((ucast unix :: u32) + 2592000) = unat unix + 2592000"
    using u assms(2) by (subst unat_add_lem [THEN iffD1]) simp_all
  then show "now \<le> ucast (s_expiration (signer_new unix zsk ksk))"
    using assms(2,4) take_bit_nat_eq_self [of "unat unix + 2592000" 64]
    by (simp add: signer_new_def Let_def word_le_nat_alt unsigned_ucast_eq)
qed

text \<open>What the added signatures change: the RRSIG sets only.\<close>

lemma lookup_add_rrsigs:
  "list_all (\<lambda>s. r_type s = RRSIG) sigs \<Longrightarrow> rtype_to t \<noteq> 46 \<Longrightarrow>
    zone_lookup (fold zone_add sigs z) name t = zone_lookup z name t"
  by (auto simp: zone_lookup_fold_add Let_def filter_empty_conv list_all_iff rr_key_def)

lemma covering_added_rrsigs:
  assumes "zone_lookup z name RRSIG = None"
  shows "s \<in> set (covering_rrsigs (fold zone_add sigs z) name t) \<longleftrightarrow> s \<in> set sigs \<and> rr_key s = (to_lower name, 46) \<and>
    (\<exists>f. parse_rrsig (r_rdata s) = Inr f \<and> type_covered f = rtype_to t)"
  using assms by (auto simp: covering_rrsigs_def zone_lookup_fold_add Let_def filter_empty_conv split: sum.splits)

text \<open>The keys are at the apex, and they are all of its DNSKEY set.\<close>

lemma key_names:
  assumes "load_zsk files dir origin = Some zsk"
  shows "k_name zsk = origin" "k_algorithm zsk = 8"
    "load_ksk files dir origin = Some key \<Longrightarrow> k_name key = origin \<and> k_algorithm key = 8"
  using assms by (auto simp: load_zsk_def load_ksk_def from_pem_file_def)

lemma key_records_apex:
  assumes "load_zsk files dir origin = Some zsk" "signing_key_tag crate zsk = Some zt"
    and "load_ksk files dir origin \<noteq> None \<Longrightarrow> kt \<noteq> None"
    and "kt = (case load_ksk files dir origin of None \<Rightarrow> None | Some key \<Rightarrow> signing_key_tag crate key)"
  shows "list_all (\<lambda>r. rr_key r = (to_lower origin, 48)) (key_records crate zsk (load_ksk files dir origin) ttl)"
  using assms(2-4) key_names [OF assms(1)]
  by (auto simp: key_records_def signing_key_tag_def dnskey_record_def rr_key_def split: option.splits)

lemma keyed_zone_lookups:
  assumes "list_all (\<lambda>r. rr_key r = (to_lower origin, 48)) keys" "keys \<noteq> []" "zone_lookup z origin DNSKEY = None"
  shows "zone_lookup (build_nsec_chain ttl (fold zone_add keys z)) origin DNSKEY = Some keys"
    "zone_lookup (build_nsec_chain ttl (fold zone_add keys z)) m RRSIG = zone_lookup z m RRSIG"
proof -
  have "filter (\<lambda>r. rr_key r = (to_lower origin, 48)) keys = keys" "filter (\<lambda>r. rr_key r = (to_lower m, 46)) keys = []"
    using assms(1) by (auto simp: list_all_iff filter_empty_conv)
  then show "zone_lookup (build_nsec_chain ttl (fold zone_add keys z)) origin DNSKEY = Some keys"
    "zone_lookup (build_nsec_chain ttl (fold zone_add keys z)) m RRSIG = zone_lookup z m RRSIG"
    using assms(2,3) by (simp_all add: lookup_build_nsec_chain zone_lookup_fold_add)
qed

section \<open>Signed zones validate\<close>


section \<open>A signed zone\<close>

text \<open>A crate whose signature of a digest is the digest, and a key directory with one key.\<close>

definition echo_rsa :: rsa where
  "echo_rsa = \<lparr>rsa_public = (\<lambda>der. Some ([1, 0, 1], der)), rsa_sign = (\<lambda>h der d. Some d)\<rparr>"

definition echo_crypto :: crypto where
  "echo_crypto = \<lparr>rsa_check = (\<lambda>h modulus ex d sg. Some (d = sg)), p256_check = (\<lambda>k m s. None),
     p384_check = (\<lambda>k m s. None), ed25519_check = (\<lambda>k m s. None)\<rparr>"

definition one_key :: key_files where
  "one_key path = (if path = ''keys/Ke+008+zsk.private'' then Some [7] else None)"

lemma sign_rrsets_no_ksk: "s_ksk signer = None \<Longrightarrow> \<exists>sigs. sign_rrsets crate signer origin zt kt rrsets = Some sigs"
  by (induction rrsets) (auto simp: Let_def)

lemma sign_zone_one_key:
  assumes "zone_lookup z (z_origin z) DNSKEY = None" "load_zsk files dir (z_origin z) = Some zsk"
    and "load_ksk files dir (z_origin z) = None" "rsa_public crate (k_private zsk) \<noteq> None"
  shows "\<exists>n z'. sign_zone crate files unix dir z = (Some n, z')"
proof -
  obtain ex modulus where pub: "rsa_public crate (k_private zsk) = Some (ex, modulus)" using assms(4) by auto
  obtain zt zr where z: "signing_key_tag crate zsk = Some zt" "dnskey_record crate zsk (dnskey_ttl_of z) = Some zr"
    by (simp add: signing_key_tag_def dnskey_record_def dnskey_rdata_pubkey pub)
  define z1 where "z1 = build_nsec_chain (nsec_ttl_of (zone_add zr z)) (zone_add zr z)"
  obtain sigs where "sign_rrsets crate (signer_new unix zsk None) (z_origin z) zt None (iter_rrsets z1) = Some sigs"
    using sign_rrsets_no_ksk [of "signer_new unix zsk None" crate "z_origin z" zt None "iter_rrsets z1"]
    by (auto simp: signer_new_def Let_def)
  then show ?thesis using assms(1-3) z by (simp add: sign_zone_def z1_def Let_def)
qed

text \<open>Signing changes the DNSKEY, NSEC and RRSIG sets only.\<close>

lemma sign_zone_keeps:
  assumes "sign_zone crate files unix dir z = (Some n, z')" "zone_lookup z (z_origin z) DNSKEY = None"
    and t: "rtype_to t \<notin> {46, 47, 48}"
  shows "zone_lookup z' name t = zone_lookup z name t"
proof -
  let ?o = "z_origin z" and ?ksk = "load_ksk files dir (z_origin z)"
  obtain zsk zt kt z1 sigs where p: "load_zsk files dir ?o = Some zsk" "signing_key_tag crate zsk = Some zt"
    "kt = (case ?ksk of None \<Rightarrow> None | Some key \<Rightarrow> signing_key_tag crate key)" "?ksk \<noteq> None \<Longrightarrow> kt \<noteq> None"
    "\<exists>ttl. z1 = build_nsec_chain ttl (fold zone_add (key_records crate zsk ?ksk (dnskey_ttl_of z)) z)"
    "sign_rrsets crate (signer_new unix zsk ?ksk) ?o zt kt (iter_rrsets z1) = Some sigs" "z' = fold zone_add sigs z1"
    using sign_zone_parts [OF assms(1,2)] by blast
  let ?keys = "key_records crate zsk ?ksk (dnskey_ttl_of z)"
  have "list_all (\<lambda>r. rr_key r = (to_lower ?o, 48)) ?keys" by (rule key_records_apex [OF p(1,2,4,3)])
  then have "filter (\<lambda>r. rr_key r = (to_lower name, rtype_to t)) ?keys = []"
    using t by (auto simp: list_all_iff filter_empty_conv)
  then have "zone_lookup z1 name t = zone_lookup z name t"
    using p(5) t by (auto simp: lookup_build_nsec_chain zone_lookup_fold_add)
  then show ?thesis
    using lookup_add_rrsigs [OF sign_rrsets_types [OF p(6)], of t] t p(7) by simp
qed

lemma one_key_paths:
  "load_zsk one_key ''keys'' ''e'' = Some \<lparr>k_flags = 256, k_protocol = 3, k_algorithm = 8, k_private = [7], k_name = ''e''\<rparr>"
  "load_ksk one_key ''keys'' ''e'' = None"
  by (simp_all add: load_zsk_def load_ksk_def from_pem_file_def one_key_def key_path_def)

lemma alias_zone_fresh: "z_origin (zone_of ''e.'' alias_rrs) = ''e''"
  "zone_lookup (zone_of ''e.'' alias_rrs) m DNSKEY = None" "zone_lookup (zone_of ''e.'' alias_rrs) m RRSIG = None"
  "zone_lookup (zone_of ''e.'' alias_rrs) ''h.e'' A = Some [sample_rr ''h.e'' A]"
  by (simp_all add: zone_lookup_zone_of alias_rrs_def rr_key_def sample_rr_def trim_end_dots_def to_lower_def
      ascii_lower_def byte_of_char_def)


end
