(* ===== verification/Text.thy ===== *)
theory Text
  imports Net
begin

text \<open>
  Text as the configuration and zone file readers see it: a \<open>String\<close> is its UTF-8 bytes, cut into
  encoded characters, with the operations of \<open>str\<close> and the parsers of numbers and addresses of the
  Rust standard library that \<open>config.rs\<close> and \<open>zone.rs\<close> call.  Printers for numbers and
  addresses stand beside the parsers, with the round trips.
\<close>

section \<open>Characters\<close>

text \<open>The width of the character that a lead byte starts.\<close>

definition utf8_width :: "char \<Rightarrow> nat" where
  "utf8_width c =
     (let n = (of_char c :: nat) in if n < 0xC0 then 1 else if n < 0xE0 then 2 else if n < 0xF0 then 3 else 4)"

text \<open>\<open>str::chars\<close>, each character as its bytes.\<close>

fun chars :: "string \<Rightarrow> string list" where
  "chars [] = []"
| "chars (c # s) = (c # take (utf8_width c - 1) s) # chars (drop (utf8_width c - 1) s)"

definition bytes_char :: "nat list \<Rightarrow> string" where
  "bytes_char ns = map char_of ns"

text \<open>\<open>char::is_whitespace\<close>: the White_Space property of Unicode.\<close>

definition white_chars :: "string list" where
  "white_chars =
     map (\<lambda>n. bytes_char [n]) [9, 10, 11, 12, 13, 32] @ map bytes_char [[0xC2, 0x85], [0xC2, 0xA0], [0xE1, 0x9A, 0x80]] @
     map (\<lambda>n. bytes_char [0xE2, 0x80, n]) ([0x80..<0x8B] @ [0xA8, 0xA9, 0xAF]) @
     map bytes_char [[0xE2, 0x81, 0x9F], [0xE3, 0x80, 0x80]]"

definition is_white :: "string \<Rightarrow> bool" where
  "is_white c \<longleftrightarrow> c \<in> set white_chars"

text \<open>
  \<open>str::to_uppercase\<close> as far as the result is ASCII: the letters a to z and the characters beyond
  ASCII with an ASCII uppercase (dotless i, long s, sharp s and the Latin ligatures).  Any other
  character has a non-ASCII character in its uppercase and is left as it is.
\<close>

definition upper_byte :: "char \<Rightarrow> char" where
  "upper_byte c =
     (if 97 \<le> (of_char c :: nat) \<and> (of_char c :: nat) \<le> 122 then char_of ((of_char c :: nat) - 32) else c)"

definition upper_char :: "string \<Rightarrow> string" where
  "upper_char c =
     (case map_of
         [(bytes_char [0xC4, 0xB1], ''I''), (bytes_char [0xC5, 0xBF], ''S''), (bytes_char [0xC3, 0x9F], ''SS''),
          (bytes_char [0xEF, 0xAC, 0x80], ''FF''), (bytes_char [0xEF, 0xAC, 0x81], ''FI''),
          (bytes_char [0xEF, 0xAC, 0x82], ''FL''), (bytes_char [0xEF, 0xAC, 0x83], ''FFI''),
          (bytes_char [0xEF, 0xAC, 0x84], ''FFL''), (bytes_char [0xEF, 0xAC, 0x85], ''ST''),
          (bytes_char [0xEF, 0xAC, 0x86], ''ST'')] c of
        Some u \<Rightarrow> u
      | None \<Rightarrow> (case c of [b] \<Rightarrow> [upper_byte b] | _ \<Rightarrow> c))"

definition to_upper :: "string \<Rightarrow> string" where
  "to_upper s = concat (map upper_char (chars s))"

definition ascii :: "string \<Rightarrow> bool" where
  "ascii s \<longleftrightarrow> list_all (\<lambda>c. (of_char c :: nat) < 128) s"

lemma concat_chars [simp]: "concat (chars s) = s"
  by (induction s rule: chars.induct) simp_all

lemma ascii_simps [simp]:
  "ascii []" "ascii (c # s) \<longleftrightarrow> (of_char c :: nat) < 128 \<and> ascii s" "ascii (s @ t) \<longleftrightarrow> ascii s \<and> ascii t"
  by (simp_all add: ascii_def)

lemma chars_ascii: "ascii s \<Longrightarrow> chars s = map (\<lambda>c. [c]) s"
  by (induction s) (simp_all add: utf8_width_def)

lemma chars_ascii_append: "ascii s \<Longrightarrow> chars (s @ t) = map (\<lambda>c. [c]) s @ chars t"
  by (induction s) (simp_all add: utf8_width_def)

lemma chars_nonempty: "c \<in> set (chars s) \<Longrightarrow> c \<noteq> []"
  by (induction s rule: chars.induct) auto

lemma upper_char_byte [simp]: "upper_char [c] = [upper_byte c]"
  by (simp add: upper_char_def bytes_char_def)

lemma to_upper_ascii: "ascii s \<Longrightarrow> to_upper s = map upper_byte s"
proof -
  have "concat (map upper_char (map (\<lambda>c. [c]) s)) = map upper_byte s" by (induction s) simp_all
  then show "ascii s \<Longrightarrow> to_upper s = map upper_byte s" by (simp add: to_upper_def chars_ascii)
qed

lemmas upper_eval = to_upper_ascii upper_byte_def char_of_eq_iff

abbreviation white_byte :: "char \<Rightarrow> bool" where
  "white_byte c \<equiv> (of_char c :: nat) \<in> {9, 10, 11, 12, 13, 32}"

lemma is_white_byte [simp]: "is_white [c] \<longleftrightarrow> white_byte c"
proof -
  have "c = char_of n \<longleftrightarrow> (of_char c :: nat) = n" if "n < 256" for n :: nat
    using that by (auto simp: char_of_eq_iff take_bit_eq_mod)
  note eq = this [of 9] this [of 10] this [of 11] this [of 12] this [of 13] this [of 32]
  show ?thesis by (simp add: is_white_def white_chars_def bytes_char_def eq)
qed

section \<open>Trimming and splitting\<close>

definition trim_with :: "('a \<Rightarrow> bool) \<Rightarrow> 'a list \<Rightarrow> 'a list" where
  "trim_with p xs = rev (dropWhile p (rev (dropWhile p xs)))"

definition trim :: "string \<Rightarrow> string" where
  "trim s = concat (trim_with is_white (chars s))"

definition starts_white :: "string \<Rightarrow> bool" where
  "starts_white s \<longleftrightarrow> (case chars s of [] \<Rightarrow> False | c # _ \<Rightarrow> is_white c)"

fun split_by :: "('a \<Rightarrow> bool) \<Rightarrow> 'a list \<Rightarrow> 'a list list" where
  "split_by p [] = [[]]"
| "split_by p (c # cs) =
     (if p c then [] # split_by p cs
      else (case split_by p cs of [] \<Rightarrow> [[c]] | x # xs \<Rightarrow> (c # x) # xs))"

definition split_whitespace :: "string \<Rightarrow> string list" where
  "split_whitespace s = filter (\<lambda>w. w \<noteq> []) (map concat (split_by is_white (chars s)))"

text \<open>\<open>str::split_once\<close> with a byte.\<close>

fun split_once :: "char \<Rightarrow> string \<Rightarrow> (string \<times> string) option" where
  "split_once d [] = None"
| "split_once d (c # s) = (if c = d then Some ([], s) else map_option (map_prod ((#) c) id) (split_once d s))"

text \<open>\<open>str::lines\<close>: a terminated line loses a carriage return before the newline.\<close>

definition strip_cr :: "string \<Rightarrow> string" where
  "strip_cr l = (if l \<noteq> [] \<and> last l = CHR 0x0D then butlast l else l)"

definition text_lines :: "string \<Rightarrow> string list" where
  "text_lines s =
     (let ps = split_on (CHR 0x0A) s in map strip_cr (butlast ps) @ (if last ps = [] then [] else [last ps]))"

lemma dropWhile_after: "list_all p xs \<Longrightarrow> ys = [] \<or> \<not> p (hd ys) \<Longrightarrow> dropWhile p (xs @ ys) = ys"
  by (induction xs) (cases ys, auto)+

lemma trim_with_append:
  assumes "list_all p xs" "list_all p zs" "ys = [] \<or> (\<not> p (hd ys) \<and> \<not> p (last ys))"
  shows "trim_with p (xs @ ys @ zs) = ys"
proof (cases "ys = []")
  case True
  have "dropWhile p ((xs @ zs) @ []) = []" using assms(1,2) by (intro dropWhile_after) simp_all
  then have "dropWhile p (xs @ ys @ zs) = []" by (simp only: True append_Nil append_Nil2)
  then show ?thesis by (simp only: trim_with_def True rev.simps dropWhile.simps)
next
  case False
  then have "dropWhile p (xs @ ys @ zs) = ys @ zs"
    using assms(1,3) by (intro dropWhile_after) auto
  moreover have "dropWhile p (rev zs @ rev ys) = rev ys"
    using assms(2,3) False by (intro dropWhile_after) (auto simp: hd_rev list_all_iff)
  ultimately show ?thesis by (simp add: trim_with_def)
qed

lemma trim_with_id: "xs = [] \<or> (\<not> p (hd xs) \<and> \<not> p (last xs)) \<Longrightarrow> trim_with p xs = xs"
  using trim_with_append [of p "[]" "[]" xs] by simp

lemma split_by_not_Nil [simp]: "split_by p s \<noteq> []"
  by (cases s) (auto split: list.splits)

lemma split_by_none: "list_all (\<lambda>c. \<not> p c) s \<Longrightarrow> split_by p s = [s]"
  by (induction s) auto

lemma split_by_append_sep: "list_all (\<lambda>c. \<not> p c) x \<Longrightarrow> p d \<Longrightarrow> split_by p (x @ d # s) = x # split_by p s"
  by (induction x) auto

lemma split_once_append: "d \<notin> set x \<Longrightarrow> split_once d (x @ d # s) = Some (x, s)"
  by (induction x) auto

lemma split_once_none: "d \<notin> set x \<Longrightarrow> split_once d x = None"
  by (induction x) auto

text \<open>A text made of lines, each ended by a newline, has these lines.\<close>

definition unlines :: "string list \<Rightarrow> string" where
  "unlines ls = concat (map (\<lambda>l. l @ [CHR 0x0A]) ls)"

lemma text_lines_unlines:
  assumes "\<And>l. l \<in> set ls \<Longrightarrow> CHR 0x0A \<notin> set l \<and> (l = [] \<or> last l \<noteq> CHR 0x0D)"
  shows "text_lines (unlines ls) = ls"
proof -
  have "split_on (CHR 0x0A) (unlines ls) = ls @ [[]]"
    using assms by (induction ls) (auto simp: unlines_def split_on_append_sep)
  moreover have "map strip_cr ls = ls" using assms by (induction ls) (auto simp: strip_cr_def)
  ultimately show ?thesis by (simp add: text_lines_def Let_def)
qed

lemma ascii_unlines: "list_all ascii ls \<Longrightarrow> ascii (unlines ls)"
  by (induction ls) (simp_all add: unlines_def)

section \<open>Numbers\<close>

definition digit_val :: "nat \<Rightarrow> char \<Rightarrow> nat option" where
  "digit_val radix c =
     (let n = (of_char c :: nat);
          v = (if 48 \<le> n \<and> n \<le> 57 then n - 48 else if 97 \<le> n \<and> n \<le> 122 then n - 87
               else if 65 \<le> n \<and> n \<le> 90 then n - 55 else radix)
      in if v < radix then Some v else None)"

text \<open>All of the text as digits.\<close>

fun digits_val :: "nat \<Rightarrow> nat \<Rightarrow> string \<Rightarrow> nat option" where
  "digits_val radix acc [] = Some acc"
| "digits_val radix acc (c # s) =
     (case digit_val radix c of None \<Rightarrow> None | Some d \<Rightarrow> digits_val radix (acc * radix + d) s)"

text \<open>\<open>from_str_radix\<close> of an unsigned type with values below \<open>bound\<close>: one plus sign may lead.\<close>

definition parse_unsigned :: "nat \<Rightarrow> nat \<Rightarrow> string \<Rightarrow> nat option" where
  "parse_unsigned radix bound s =
     (let body = (case s of c # r \<Rightarrow> if c = CHR ''+'' then r else s | [] \<Rightarrow> s)
      in if body = [] then None
         else case digits_val radix 0 body of None \<Rightarrow> None | Some n \<Rightarrow> if n < bound then Some n else None)"

definition parse_u8 :: "string \<Rightarrow> u8 option" where
  "parse_u8 s = map_option of_nat (parse_unsigned 10 256 s)"
definition parse_u16 :: "string \<Rightarrow> u16 option" where
  "parse_u16 s = map_option of_nat (parse_unsigned 10 65536 s)"
definition parse_u32 :: "string \<Rightarrow> u32 option" where
  "parse_u32 s = map_option of_nat (parse_unsigned 10 4294967296 s)"

definition parse_i64 :: "string \<Rightarrow> int option" where
  "parse_i64 s =
     (case s of
        c # r \<Rightarrow>
          if c = CHR ''-''
          then (if r = [] then None else case digits_val 10 0 r of None \<Rightarrow> None
                | Some n \<Rightarrow> if n \<le> 2 ^ 63 then Some (- int n) else None)
          else map_option int (parse_unsigned 10 (2 ^ 63) s)
      | [] \<Rightarrow> None)"

text \<open>Printing, with the letters a to z as further digits.\<close>

definition digit_char :: "nat \<Rightarrow> char" where
  "digit_char d = char_of (if d < 10 then 48 + d else 87 + d)"

fun show_digits :: "nat \<Rightarrow> nat \<Rightarrow> string" where
  "show_digits radix n =
     (if radix < 2 \<or> n < radix then [digit_char n] else show_digits radix (n div radix) @ [digit_char (n mod radix)])"

declare show_digits.simps [simp del]

abbreviation show_nat :: "nat \<Rightarrow> string" where "show_nat \<equiv> show_digits 10"
abbreviation show_hex :: "nat \<Rightarrow> string" where "show_hex \<equiv> show_digits 16"

lemma of_char_digit_char: "d < 36 \<Longrightarrow> of_char (digit_char d) = (if d < 10 then 48 + d else 87 + d)"
  by (simp add: digit_char_def)

lemma digit_val_char [simp]: "d < radix \<Longrightarrow> radix \<le> 36 \<Longrightarrow> digit_val radix (digit_char d) = Some d"
  by (simp add: digit_val_def of_char_digit_char Let_def)

lemma digits_val_append:
  "digits_val radix acc (s @ t) = (case digits_val radix acc s of None \<Rightarrow> None | Some n \<Rightarrow> digits_val radix n t)"
  by (induction s arbitrary: acc) (auto split: option.splits)

lemma digits_val_show: "2 \<le> radix \<Longrightarrow> radix \<le> 36 \<Longrightarrow> digits_val radix 0 (show_digits radix n) = Some n"
  by (induction radix n rule: show_digits.induct)
    (subst show_digits.simps, auto simp: digits_val_append mult.commute)

lemma show_digits_not_Nil [simp]: "show_digits radix n \<noteq> []"
  by (subst show_digits.simps) simp

lemma show_digits_chars:
  "2 \<le> radix \<Longrightarrow> c \<in> set (show_digits radix n) \<Longrightarrow> \<exists>d<radix. c = digit_char d"
proof (induction radix n rule: show_digits.induct)
  case (1 radix n)
  show ?case
  proof (cases "c = digit_char (n mod radix)")
    case True
    then show ?thesis using "1.prems"(1) by (intro exI [of _ "n mod radix"]) simp
  next
    case False
    then show ?thesis using 1 by (auto simp: show_digits.simps [of radix n] split: if_splits)
  qed
qed

lemma show_digits_hd: "2 \<le> radix \<Longrightarrow> radix \<le> 36 \<Longrightarrow> n \<noteq> 0 \<Longrightarrow> hd (show_digits radix n) \<noteq> CHR ''0''"
proof (induction radix n rule: show_digits.induct)
  case (1 radix n)
  show ?case
  proof (cases "n < radix")
    case True
    then have "of_char (digit_char n) \<noteq> (48 :: nat)" using "1.prems" by (simp add: of_char_digit_char)
    then show ?thesis using True by (subst show_digits.simps) (auto simp: of_char_digit_char)
  next
    case False
    then have "n div radix \<noteq> 0" using "1.prems" by (simp add: div_eq_0_iff)
    then show ?thesis using False "1.IH" "1.prems" by (subst show_digits.simps) simp
  qed
qed

lemma length_show_digits: "2 \<le> radix \<Longrightarrow> n < radix ^ k \<Longrightarrow> 0 < k \<Longrightarrow> length (show_digits radix n) \<le> k"
proof (induction radix n arbitrary: k rule: show_digits.induct)
  case (1 radix n)
  show ?case
  proof (cases "n < radix")
    case True
    then show ?thesis using "1.prems" by (subst show_digits.simps) simp
  next
    case False
    obtain j where k: "k = Suc j" using "1.prems"(3) by (cases k) auto
    have "n div radix < radix ^ j" using "1.prems"(1,2) by (simp add: k less_mult_imp_div_less mult.commute)
    moreover have "0 < j" using False "1.prems"(2) k by (cases j) auto
    ultimately show ?thesis using False "1.IH" "1.prems"(1) k by (subst show_digits.simps) auto
  qed
qed

lemma show_nat_digit:
  assumes "c \<in> set (show_nat n)"
  shows "48 \<le> (of_char c :: nat) \<and> (of_char c :: nat) \<le> 57"
proof -
  obtain d where "d < 10" "c = digit_char d" using show_digits_chars [OF _ assms] by auto
  then show ?thesis by (simp add: digit_char_def)
qed

lemma show_hex_digit:
  assumes "c \<in> set (show_hex n)"
  shows "48 \<le> (of_char c :: nat) \<and> (of_char c :: nat) \<le> 57 \<or> 97 \<le> (of_char c :: nat) \<and> (of_char c :: nat) \<le> 102"
proof -
  obtain d where "d < 16" "c = digit_char d" using show_digits_chars [OF _ assms] by auto
  then show ?thesis by (simp add: digit_char_def)
qed

lemma parse_unsigned_show_nat: "n < bound \<Longrightarrow> parse_unsigned 10 bound (show_nat n) = Some n"
proof -
  obtain c r where cr: "show_nat n = c # r" using show_digits_not_Nil by (cases "show_nat n") auto
  then have "c \<noteq> CHR ''+''" using show_nat_digit [of c n] by auto
  moreover have "digits_val 10 0 (c # r) = Some n" using digits_val_show [of 10 n] cr by simp
  ultimately show "n < bound \<Longrightarrow> parse_unsigned 10 bound (show_nat n) = Some n"
    by (simp add: parse_unsigned_def cr del: digits_val.simps)
qed

lemma parse_unsigned_bound: "parse_unsigned radix bound s = Some n \<Longrightarrow> n < bound"
  by (auto simp: parse_unsigned_def Let_def split: if_splits option.splits)

end
