(* ===== verification/Addresses.thy ===== *)
theory Addresses
  imports Text
begin

text \<open>
  Addresses as text: the parsers of \<open>Ipv4Addr\<close>, \<open>Ipv6Addr\<close> and \<open>IpAddr\<close> of the Rust standard library,
  which the zone and configuration readers call, and \<open>Network::parse\<close> of \<open>src/src/config.rs\<close>.
\<close>

section \<open>Reading\<close>

type_synonym 'a text_reader = "string \<Rightarrow> ('a \<times> string) option"

definition read_given :: "char \<Rightarrow> string \<Rightarrow> string option" where
  "read_given d s = (case s of [] \<Rightarrow> None | c # r \<Rightarrow> if c = d then Some r else None)"

text \<open>The digit loop of \<open>read_number\<close>: a digit too many is a failure.\<close>

fun read_digits :: "nat \<Rightarrow> nat \<Rightarrow> nat \<Rightarrow> nat \<Rightarrow> string \<Rightarrow> (nat \<times> nat \<times> string) option" where
  "read_digits radix most acc cnt [] = Some (acc, cnt, [])"
| "read_digits radix most acc cnt (c # s) =
     (case digit_val radix c of None \<Rightarrow> Some (acc, cnt, c # s)
      | Some d \<Rightarrow> if most < cnt + 1 then None else read_digits radix most (acc * radix + d) (cnt + 1) s)"

definition read_number :: "nat \<Rightarrow> nat \<Rightarrow> bool \<Rightarrow> nat \<Rightarrow> nat text_reader" where
  "read_number radix most zero_prefix bound s =
     (case read_digits radix most 0 0 s of None \<Rightarrow> None
      | Some (n, cnt, r) \<Rightarrow>
          if cnt = 0 \<or> \<not> zero_prefix \<and> s \<noteq> [] \<and> hd s = CHR ''0'' \<and> 1 < cnt \<or> bound \<le> n then None else Some (n, r))"

text \<open>\<open>read_separator\<close>: the separator precedes every element but the first.\<close>

definition read_separator :: "char \<Rightarrow> bool \<Rightarrow> 'a text_reader \<Rightarrow> 'a text_reader" where
  "read_separator d first inner s =
     (if first then inner s else case read_given d s of None \<Rightarrow> None | Some r \<Rightarrow> inner r)"

text \<open>\<open>n\<close> octets, and an IPv4 address as four of them.\<close>

fun read_octets :: "nat \<Rightarrow> bool \<Rightarrow> nat list text_reader" where
  "read_octets 0 first s = Some ([], s)"
| "read_octets (Suc n) first s =
     (case read_separator (CHR ''.'') first (read_number 10 3 False 256) s of None \<Rightarrow> None
      | Some (o1, r) \<Rightarrow> map_option (map_prod ((#) o1) id) (read_octets n False r))"

lemma read_octets_numeral [simp]:
  "read_octets (numeral k) first s =
     (case read_separator (CHR ''.'') first (read_number 10 3 False 256) s of None \<Rightarrow> None
      | Some (o1, r) \<Rightarrow> map_option (map_prod ((#) o1) id) (read_octets (pred_numeral k) False r))"
  by (simp add: numeral_eq_Suc)

definition read_ipv4 :: "nat list text_reader" where
  "read_ipv4 = read_octets 4 True"

text \<open>\<open>read_groups\<close> with room for \<open>n\<close> more groups; the flag says that an IPv4 address ended them.\<close>

fun read_groups :: "nat \<Rightarrow> bool \<Rightarrow> string \<Rightarrow> nat list \<times> bool \<times> string" where
  "read_groups 0 first s = ([], False, s)"
| "read_groups (Suc n) first s =
     (case (if 0 < n then read_separator (CHR '':'') first read_ipv4 s else None) of
        Some (os, r) \<Rightarrow> ([os ! 0 * 256 + os ! 1, os ! 2 * 256 + os ! 3], True, r)
      | None \<Rightarrow>
          (case read_separator (CHR '':'') first (read_number 16 4 True 65536) s of
             None \<Rightarrow> ([], False, s)
           | Some (g, r) \<Rightarrow> (let (gs, v4, r) = read_groups n False r in (g # gs, v4, r))))"

lemma read_groups_numeral:
  "read_groups (numeral k) first s =
     (case (if 0 < pred_numeral k then read_separator (CHR '':'') first read_ipv4 s else None) of
        Some (os, r) \<Rightarrow> ([os ! 0 * 256 + os ! 1, os ! 2 * 256 + os ! 3], True, r)
      | None \<Rightarrow>
          (case read_separator (CHR '':'') first (read_number 16 4 True 65536) s of
             None \<Rightarrow> ([], False, s)
           | Some (g, r) \<Rightarrow> (let (gs, v4, r) = read_groups (pred_numeral k) False r in (g # gs, v4, r))))"
  by (simp add: numeral_eq_Suc)

definition read_ipv6 :: "nat list text_reader" where
  "read_ipv6 s =
     (let (head, v4, r) = read_groups 8 True s in
      if length head = 8 then Some (head, r)
      else if v4 then None
      else case read_given (CHR '':'') r of None \<Rightarrow> None | Some r \<Rightarrow>
           (case read_given (CHR '':'') r of None \<Rightarrow> None | Some r \<Rightarrow>
              (let (tail, _, r) = read_groups (8 - (length head + 1)) True r
               in Some (head @ replicate (8 - length head - length tail) 0 @ tail, r))))"

definition digits_word :: "nat \<Rightarrow> nat list \<Rightarrow> 'a::len word" where
  "digits_word w ds = foldl (\<lambda>a d. push_bit w a OR of_nat d) 0 ds"

definition at_end :: "('a \<times> string) option \<Rightarrow> 'a option" where
  "at_end res = (case res of Some (x, r) \<Rightarrow> if r = [] then Some x else None | None \<Rightarrow> None)"

definition parse_ipv4 :: "string \<Rightarrow> u32 option" where
  "parse_ipv4 s = (if 15 < length s then None else map_option (digits_word 8) (at_end (read_ipv4 s)))"

definition parse_ipv6 :: "string \<Rightarrow> u128 option" where
  "parse_ipv6 s = map_option (digits_word 16) (at_end (read_ipv6 s))"

definition parse_ip :: "string \<Rightarrow> ip_addr option" where
  "parse_ip s =
     at_end (case read_ipv4 s of
        Some (ds, r) \<Rightarrow> Some (V4 (digits_word 8 ds), r)
      | None \<Rightarrow> map_option (map_prod (\<lambda>ds. V6 (digits_word 16 ds)) id) (read_ipv6 s))"

definition network_parse :: "string \<Rightarrow> network option" where
  "network_parse text =
     (let (address_text, prefix_text) =
        (case split_once (CHR ''/'') text of Some (a, p) \<Rightarrow> (a, Some p) | None \<Rightarrow> (text, None))
      in case parse_ip (trim address_text) of None \<Rightarrow> None | Some address \<Rightarrow>
        (let max_prefix = of_nat (ip_width address) in
         case prefix_text of None \<Rightarrow> Some \<lparr>n_address = address, n_prefix = max_prefix\<rparr>
         | Some p \<Rightarrow>
             (case parse_u8 (trim p) of None \<Rightarrow> None
              | Some n \<Rightarrow> if n \<le> max_prefix then Some \<lparr>n_address = address, n_prefix = n\<rparr> else None)))"

section \<open>Printing\<close>

definition octets :: "u32 \<Rightarrow> nat list" where
  "octets a = map unat [ucast (drop_bit 24 a) :: u8, ucast (drop_bit 16 a), ucast (drop_bit 8 a), ucast a]"

definition groups :: "u128 \<Rightarrow> nat list" where
  "groups a = map (\<lambda>i. unat (ucast (drop_bit (16 * i) a) :: u16)) [7, 6, 5, 4, 3, 2, 1, 0]"

definition show_ipv4 :: "u32 \<Rightarrow> string" where
  "show_ipv4 a = join_dots (map show_nat (octets a))"

definition show_ipv6 :: "u128 \<Rightarrow> string" where
  "show_ipv6 a = join_on (CHR '':'') (map show_hex (groups a))"

fun show_ip :: "ip_addr \<Rightarrow> string" where
  "show_ip (V4 a) = show_ipv4 a"
| "show_ip (V6 a) = show_ipv6 a"

definition show_network :: "network \<Rightarrow> string" where
  "show_network net = show_ip (n_address net) @ CHR ''/'' # show_nat (unat (n_prefix net))"


section \<open>Numbers in addresses\<close>

lemma read_digits_all:
  "list_all (\<lambda>c. digit_val radix c \<noteq> None) ds \<Longrightarrow> rest = [] \<or> digit_val radix (hd rest) = None \<Longrightarrow>
    cnt + length ds \<le> most \<Longrightarrow> digits_val radix acc ds = Some n \<Longrightarrow>
    read_digits radix most acc cnt (ds @ rest) = Some (n, cnt + length ds, rest)"
proof (induction ds arbitrary: acc cnt)
  case Nil
  then show ?case by (cases rest) auto
qed (auto split: option.splits)

lemma read_number_show:
  assumes radix: "2 \<le> radix" "radix \<le> 36" and n: "n < bound" "n < radix ^ most" "0 < most"
    and rest: "rest = [] \<or> digit_val radix (hd rest) = None"
  shows "read_number radix most zp bound (show_digits radix n @ rest) = Some (n, rest)"
proof -
  let ?ds = "show_digits radix n"
  have "list_all (\<lambda>c. digit_val radix c \<noteq> None) ?ds"
    using show_digits_chars [OF radix(1)] radix by (fastforce simp: list_all_iff)
  then have "read_digits radix most 0 0 (?ds @ rest) = Some (n, length ?ds, rest)"
    using read_digits_all [of radix ?ds rest 0 most 0 n] rest length_show_digits [OF radix(1) n(2,3)] digits_val_show radix
    by simp
  moreover have "hd ?ds \<noteq> CHR ''0'' \<or> length ?ds = 1"
    using show_digits_hd [OF radix, of n] radix by (cases "n = 0") (simp_all add: show_digits.simps)
  ultimately show ?thesis using n(1) by (auto simp: read_number_def)
qed

lemma digit_val_sep [simp]:
  "digit_val 10 (CHR ''.'') = None" "digit_val 16 (CHR '':'') = None" "digit_val 10 (CHR '':'') = None"
  by (simp_all add: digit_val_def)

lemma join_on_Cons: "join_on d (x # xs) = x @ concat (map ((#) d) xs)"
  by (induction xs arbitrary: x) simp_all

text \<open>A word is put together from its digits.\<close>

lemma foldl_digits:
  fixes a acc :: "'a::len word"
  shows "foldl (\<lambda>a d. push_bit w a OR of_nat d) acc (map (\<lambda>i. unat (take_bit w (drop_bit (w * i) a))) (rev [0..<k])) =
    push_bit (w * k) acc OR take_bit (w * k) a"
proof (induction k arbitrary: acc)
  case (Suc k)
  have "push_bit (w * k) (push_bit w acc OR take_bit w (drop_bit (w * k) a)) OR take_bit (w * k) a =
      push_bit (w * Suc k) acc OR take_bit (w * Suc k) a"
    by (rule bit_word_eqI) (auto simp: bit_or_iff bit_push_bit_iff bit_take_bit_iff bit_drop_bit_eq add.commute [of "w * k" w])
  then show ?case by (simp add: Suc)
qed simp

lemma digits_word_octets: "digits_word 8 (octets a) = a"
proof -
  have "octets a = map (\<lambda>i. unat (take_bit 8 (drop_bit (8 * i) a))) (rev [0..<4])"
    by (simp add: octets_def upt_conv_Cons unsigned_ucast_eq unsigned_take_bit_eq)
  then show ?thesis using foldl_digits [of 8 0 a 4] by (simp add: digits_word_def take_bit_word_eq_self)
qed

lemma digits_word_groups: "digits_word 16 (groups a) = a"
proof -
  have "groups a = map (\<lambda>i. unat (take_bit 16 (drop_bit (16 * i) a))) (rev [0..<8])"
    by (simp add: groups_def upt_conv_Cons unsigned_ucast_eq unsigned_take_bit_eq)
  then show ?thesis using foldl_digits [of 16 0 a 8] by (simp add: digits_word_def take_bit_word_eq_self)
qed

section \<open>What is printed is read back\<close>

lemma octets_bound: "n \<in> set (octets a) \<Longrightarrow> n < 256"
  by (auto simp: octets_def)

lemma groups_bound: "n \<in> set (groups a) \<Longrightarrow> n < 65536"
  by (auto simp: groups_def)

lemma read_octets_show:
  "list_all (\<lambda>n. n < 256) ds \<Longrightarrow> rest = [] \<or> digit_val 10 (hd rest) = None \<Longrightarrow>
    read_octets (length ds) False (concat (map (\<lambda>d. CHR ''.'' # show_nat d) ds) @ rest) = Some (ds, rest)"
proof (induction ds)
  case (Cons d ds)
  let ?rest = "concat (map (\<lambda>d. CHR ''.'' # show_nat d) ds) @ rest"
  have "?rest = [] \<or> digit_val 10 (hd ?rest) = None" using Cons.prems(2) by (cases ds) simp_all
  then have "read_number 10 3 False 256 (show_nat d @ ?rest) = Some (d, ?rest)"
    using Cons.prems(1) by (intro read_number_show) auto
  then show ?case using Cons by (simp add: read_separator_def read_given_def)
qed simp

lemma read_ipv4_show:
  assumes "rest = [] \<or> digit_val 10 (hd rest) = None"
  shows "read_ipv4 (show_ipv4 a @ rest) = Some (octets a, rest)"
proof -
  obtain d ds where d: "octets a = d # ds" "length ds = 3" by (simp add: octets_def)
  then have all: "d < 256" "list_all (\<lambda>n. n < 256) ds" using octets_bound [of _ a] by (auto simp: list_all_iff)
  let ?rest = "concat (map (\<lambda>d. CHR ''.'' # show_nat d) ds) @ rest"
  have "?rest = [] \<or> digit_val 10 (hd ?rest) = None" using assms by (cases ds) simp_all
  then have "read_number 10 3 False 256 (show_nat d @ ?rest) = Some (d, ?rest)"
    using all(1) by (intro read_number_show) auto
  then have "read_octets (Suc (length ds)) True (show_nat d @ ?rest) = Some (d # ds, rest)"
    using read_octets_show [OF all(2) assms] by (simp add: read_separator_def)
  then show ?thesis by (simp add: read_ipv4_def show_ipv4_def d join_on_Cons comp_def eval_nat_numeral)
qed

lemma parse_ip_show_ipv4: "parse_ip (show_ipv4 a) = Some (V4 a)"
  using read_ipv4_show [of "[]" a] by (simp add: parse_ip_def at_end_def digits_word_octets)

text \<open>Without a dot there is no IPv4 address.\<close>

lemma read_digits_rest:
  "read_digits radix most acc cnt s = Some (n, c, r) \<Longrightarrow> \<exists>ds. s = ds @ r"
  by (induction s arbitrary: acc cnt) (fastforce split: option.splits if_splits)+

lemma read_ipv4_no_dot: "CHR ''.'' \<notin> set s \<Longrightarrow> read_ipv4 s = None"
proof -
  assume s: "CHR ''.'' \<notin> set s"
  have "read_given (CHR ''.'') r = None" if num: "read_number 10 3 False 256 s = Some (n, r)" for n r
  proof -
    obtain c where "read_digits 10 3 0 0 s = Some (n, c, r)"
      using num by (auto simp: read_number_def split: option.splits if_splits)
    then obtain ds where "s = ds @ r" using read_digits_rest by blast
    with s show ?thesis by (auto simp: read_given_def split: list.split)
  qed
  then show ?thesis by (simp add: read_ipv4_def read_separator_def split: option.split)
qed

lemma dot_show_hex [simp]: "CHR ''.'' \<notin> set (show_hex n)"
  using show_hex_digit [of "CHR ''.''" n] by auto

lemma read_groups_show:
  "list_all (\<lambda>n. n < 65536) gs \<Longrightarrow>
    read_groups (length gs) False (concat (map (\<lambda>g. CHR '':'' # show_hex g) gs)) = (gs, False, [])"
proof (induction gs)
  case (Cons g gs)
  let ?rest = "concat (map (\<lambda>g. CHR '':'' # show_hex g) gs)"
  have "?rest = [] \<or> digit_val 16 (hd ?rest) = None" by (cases gs) simp_all
  then have "read_number 16 4 True 65536 (show_hex g @ ?rest) = Some (g, ?rest)"
    using Cons.prems by (intro read_number_show) auto
  moreover have "CHR ''.'' \<notin> set (show_hex g @ ?rest)"
    by auto
  ultimately show ?case
    using Cons by (auto simp: read_separator_def read_given_def read_ipv4_no_dot)
qed simp

lemma parse_ip_show_ipv6: "parse_ip (show_ipv6 a) = Some (V6 a)"
proof -
  obtain g gs where g: "groups a = g # gs" "length gs = 7" by (simp add: groups_def)
  then have all: "g < 65536" "list_all (\<lambda>n. n < 65536) gs" using groups_bound [of _ a] by (auto simp: list_all_iff)
  let ?rest = "concat (map (\<lambda>g. CHR '':'' # show_hex g) gs)"
  have ne: "gs \<noteq> []" using g(2) by auto
  then have "digit_val 16 (hd ?rest) = None" by (cases gs) simp_all
  then have "read_number 16 4 True 65536 (show_hex g @ ?rest) = Some (g, ?rest)"
    using all(1) by (intro read_number_show) auto
  moreover have nodot: "CHR ''.'' \<notin> set (show_hex g @ ?rest)"
    by auto
  ultimately have "read_groups (Suc (length gs)) True (show_hex g @ ?rest) = (g # gs, False, [])"
    using read_groups_show [OF all(2)] ne by (simp add: read_separator_def read_ipv4_no_dot)
  moreover have "show_ipv6 a = show_hex g @ ?rest" by (simp add: show_ipv6_def g join_on_Cons comp_def)
  ultimately show ?thesis
    using nodot digits_word_groups [of a] g
    by (simp add: parse_ip_def read_ipv4_no_dot read_ipv6_def at_end_def eval_nat_numeral)
qed

lemma show_ipv6_no_ipv4: "read_ipv4 (show_ipv6 a) = None"
proof -
  have "CHR ''.'' \<notin> set (join_on (CHR '':'') xs)" if "list_all (\<lambda>x. CHR ''.'' \<notin> set x) xs" for xs
    using that by (induction "CHR '':''" xs rule: join_on.induct) simp_all
  then show ?thesis by (intro read_ipv4_no_dot) (simp add: show_ipv6_def list_all_iff)
qed

lemma parse_ip_show: "parse_ip (show_ip a) = Some a"
  by (cases a) (simp_all add: parse_ip_show_ipv4 parse_ip_show_ipv6)

lemma parse_ipv4_show [simp]: "parse_ipv4 (show_ipv4 a) = Some a"
proof -
  have "length (show_nat n) \<le> 3" if "n \<in> set (octets a)" for n
    using octets_bound [OF that] by (intro length_show_digits) simp_all
  moreover obtain n1 n2 n3 n4 where "octets a = [n1, n2, n3, n4]" by (simp add: octets_def)
  ultimately have "length (show_nat n1) \<le> 3" "length (show_nat n2) \<le> 3" "length (show_nat n3) \<le> 3"
    "length (show_nat n4) \<le> 3" "show_ipv4 a = join_dots (map show_nat [n1, n2, n3, n4])"
    by (simp_all add: show_ipv4_def)
  then have "length (show_ipv4 a) \<le> 15" by simp
  then show ?thesis
    using read_ipv4_show [of "[]" a] by (simp add: parse_ipv4_def at_end_def digits_word_octets)
qed

lemma parse_ipv6_show [simp]: "parse_ipv6 (show_ipv6 a) = Some a"
  using parse_ip_show_ipv6 [of a] show_ipv6_no_ipv4 [of a]
  by (auto simp: parse_ip_def parse_ipv6_def at_end_def split: option.splits if_splits)

section \<open>Networks\<close>

lemma show_ip_chars:
  assumes "c \<in> set (show_ip a)"
  shows "\<not> white_byte c \<and> (of_char c :: nat) < 128 \<and> c \<noteq> CHR ''/''"
proof -
  have "c \<in> set (join_on d xs) \<Longrightarrow> c = d \<or> (\<exists>x\<in>set xs. c \<in> set x)" for d :: char and xs
    by (induction d xs rule: join_on.induct) auto
  with assms show ?thesis
    by (cases a) (fastforce simp: show_ipv4_def show_ipv6_def dest: show_nat_digit show_hex_digit)+
qed

text \<open>A text of graphic ASCII characters is not changed by \<open>trim\<close>.\<close>

lemma trim_graphic: "(\<And>c. c \<in> set s \<Longrightarrow> \<not> white_byte c \<and> (of_char c :: nat) < 128) \<Longrightarrow> trim s = s"
proof -
  assume s: "\<And>c. c \<in> set s \<Longrightarrow> \<not> white_byte c \<and> (of_char c :: nat) < 128"
  then have "chars s = map (\<lambda>c. [c]) s" by (intro chars_ascii) (simp add: ascii_def list_all_iff)
  moreover have "trim_with is_white (map (\<lambda>c. [c]) s) = map (\<lambda>c. [c]) s"
    using s by (intro trim_with_id) (cases "s = []", simp_all add: hd_map last_map)
  ultimately show ?thesis by (metis concat_chars trim_def)
qed

lemma trim_eval: "list_all (\<lambda>c. \<not> white_byte c \<and> (of_char c :: nat) < 128) s \<Longrightarrow> trim s = s"
  by (rule trim_graphic) (auto simp: list_all_iff)

lemma trim_show [simp]: "trim (show_ip a) = show_ip a" "trim (show_nat n) = show_nat n"
  by (rule trim_graphic, use show_ip_chars show_nat_digit in fastforce)+

text \<open>
  Every network can be written down: the address, a slash and the prefix length, read by
  \<open>Network::parse\<close>, give the network again.
\<close>

theorem network_parse_show: "wf_network net \<Longrightarrow> network_parse (show_network net) = Some net"
proof -
  assume wf: "wf_network net"
  have "CHR ''/'' \<notin> set (show_ip (n_address net))" using show_ip_chars by blast
  moreover have "parse_u8 (show_nat (unat (n_prefix net))) = Some (n_prefix net)"
    by (simp add: parse_u8_def parse_unsigned_show_nat)
  moreover have "n_prefix net \<le> of_nat (ip_width (n_address net))"
    using wf by (cases "n_address net") (simp_all add: wf_network_def word_le_nat_alt)
  ultimately show ?thesis
    by (simp add: network_parse_def show_network_def split_once_append parse_ip_show Let_def)
qed

lemma network_parse_wf: "network_parse s = Some net \<Longrightarrow> wf_network net"
proof -
  have "unat (of_nat (ip_width a) :: u8) = ip_width a" for a by (cases a) simp_all
  then show "network_parse s = Some net \<Longrightarrow> wf_network net"
    by (auto simp: network_parse_def wf_network_def Let_def word_le_nat_alt split: prod.splits option.splits if_splits)
qed

end
