(* ===== verification/ZoneFile.thy ===== *)
theory ZoneFile
  imports Addresses Zone
begin

text \<open>
  \<open>Zone::load_file\<close> of \<open>src/src/zone.rs\<close>: comments, parentheses over several lines, fields, directives
  and the rdata of each type.  A panic is \<open>None\<close> (\<open>Inl\<close> for a single rdata); an unreadable file
  and a panic are the two errors of \<open>load_file\<close>.  The arithmetic is that of a release build.
\<close>

abbreviation bslash :: char where "bslash \<equiv> CHR 0x5C"
abbreviation dquote :: char where "dquote \<equiv> CHR 0x22"

section \<open>Lines and fields\<close>

fun strip_comment_chars :: "bool \<Rightarrow> bool \<Rightarrow> string list \<Rightarrow> string list" where
  "strip_comment_chars quoted escaped [] = []"
| "strip_comment_chars quoted escaped (c # cs) =
     (if escaped then c # strip_comment_chars quoted False cs
      else if c = [bslash] then c # strip_comment_chars quoted True cs
      else if c = [dquote] then c # strip_comment_chars (\<not> quoted) False cs
      else if c = '';'' \<and> \<not> quoted then []
      else c # strip_comment_chars quoted False cs)"

definition strip_zone_comment :: "string \<Rightarrow> string" where
  "strip_zone_comment line = concat (strip_comment_chars False False (chars line))"

fun paren_balance :: "bool \<Rightarrow> bool \<Rightarrow> string list \<Rightarrow> int" where
  "paren_balance quoted escaped [] = 0"
| "paren_balance quoted escaped (c # cs) =
     (if escaped then paren_balance quoted False cs
      else if c = [bslash] then paren_balance quoted True cs
      else if c = [dquote] then paren_balance (\<not> quoted) False cs
      else if c = ''('' \<and> \<not> quoted then paren_balance quoted False cs + 1
      else if c = '')'' \<and> \<not> quoted then paren_balance quoted False cs - 1
      else paren_balance quoted False cs)"

definition parenthesis_balance :: "string \<Rightarrow> int" where
  "parenthesis_balance line = paren_balance False False (chars line)"

text \<open>The fields, with the one being collected.\<close>

definition flush_token :: "string \<Rightarrow> string list" where
  "flush_token current = (if current = [] then [] else [current])"

fun tokenize :: "bool \<Rightarrow> bool \<Rightarrow> string \<Rightarrow> string list \<Rightarrow> string list" where
  "tokenize quoted escaped current [] = flush_token current"
| "tokenize quoted escaped current (c # cs) =
     (if escaped then tokenize quoted False (current @ c) cs
      else if c = [bslash] then tokenize quoted True (current @ c) cs
      else if c = [dquote] then tokenize (\<not> quoted) False (current @ c) cs
      else if (c = ''('' \<or> c = '')'') \<and> \<not> quoted then flush_token current @ tokenize quoted False [] cs
      else if is_white c \<and> \<not> quoted then flush_token current @ tokenize quoted False [] cs
      else tokenize quoted False (current @ c) cs)"

definition tokenize_zone_line :: "string \<Rightarrow> string list" where
  "tokenize_zone_line line = tokenize False False [] (chars line)"

definition is_class :: "string \<Rightarrow> bool" where
  "is_class s \<longleftrightarrow> to_upper s \<in> set [''IN'', ''ANY'', ''CH'', ''HS'']"

definition is_type :: "string \<Rightarrow> bool" where
  "is_type s \<longleftrightarrow> to_upper s \<in> set [''A'', ''AAAA'', ''NS'', ''CNAME'', ''SOA'', ''PTR'', ''MX'', ''TXT'',
     ''SRV'', ''NAPTR'', ''DS'', ''DNSKEY'', ''RRSIG'', ''NSEC'', ''NSEC3'', ''CAA'']"

definition ttl_unit :: "char \<Rightarrow> u32 option" where
  "ttl_unit c =
     (if c \<in> set ''sS'' then Some 1 else if c \<in> set ''mM'' then Some 60 else if c \<in> set ''hH'' then Some 3600
      else if c \<in> set ''dD'' then Some 86400 else if c \<in> set ''wW'' then Some 604800 else None)"

definition parse_ttl :: "string \<Rightarrow> u32" where
  "parse_ttl s =
     (let (num, mult) = (if s = [] then (s, 1)
                         else case ttl_unit (last s) of Some m \<Rightarrow> (butlast s, m) | None \<Rightarrow> (s, 1))
      in (case parse_u32 num of Some n \<Rightarrow> n | None \<Rightarrow> 3600) * mult)"

definition str_to_rtype :: "string \<Rightarrow> RType" where
  "str_to_rtype s =
     (case map_of [(''A'', A), (''AAAA'', AAAA), (''NS'', NS), (''CNAME'', CNAME), (''SOA'', SOA), (''PTR'', PTR),
        (''MX'', MX), (''TXT'', TXT), (''SRV'', SRV), (''DS'', DS), (''DNSKEY'', DNSKEY), (''RRSIG'', RRSIG),
        (''NSEC'', NSEC)] s of Some t \<Rightarrow> t | None \<Rightarrow> Unknown 0)"

section \<open>Rdata\<close>

definition ends_dot :: "string \<Rightarrow> bool" where
  "ends_dot s \<longleftrightarrow> s \<noteq> [] \<and> last s = CHR ''.''"

definition fqdn :: "string \<Rightarrow> string \<Rightarrow> string" where
  "fqdn name origin =
     (let n = trim_end_dots name in
      if n = ''@'' then origin
      else if ends_dot name then to_lower n else to_lower n @ CHR ''.'' # origin)"

text \<open>A slice that does not start or end between characters panics; \<open>from_str_radix\<close> takes a plus sign.\<close>

definition utf8_continuation :: "char \<Rightarrow> bool" where
  "utf8_continuation c \<longleftrightarrow> 0x80 \<le> (of_char c :: nat) \<and> (of_char c :: nat) < 0xC0"

fun hex_pairs :: "string \<Rightarrow> unit + u8 list option" where
  "hex_pairs [] = Inr (Some [])"
| "hex_pairs [c] = Inr None"
| "hex_pairs (a # b # s) =
     (if utf8_continuation a \<or> (s \<noteq> [] \<and> utf8_continuation (hd s)) then Inl ()
      else case parse_unsigned 16 256 [a, b] of None \<Rightarrow> Inr None
      | Some n \<Rightarrow> map_sum id (map_option ((#) (of_nat n))) (hex_pairs s))"

definition hex_decode :: "string \<Rightarrow> unit + u8 list option" where
  "hex_decode s =
     (let s = filter (\<lambda>c. c \<noteq> CHR '' '') s in if odd (length s) then Inr None else hex_pairs s)"

definition base64_val :: "char \<Rightarrow> nat option" where
  "base64_val c =
     (let n = (of_char c :: nat) in
      if 65 \<le> n \<and> n \<le> 90 then Some (n - 65) else if 97 \<le> n \<and> n \<le> 122 then Some (n - 97 + 26)
      else if 48 \<le> n \<and> n \<le> 57 then Some (n - 48 + 52) else if c = CHR ''+'' then Some 62
      else if c = CHR ''/'' then Some 63 else if c = CHR ''='' then Some 0 else None)"

definition base64_word :: "nat \<Rightarrow> nat \<Rightarrow> nat \<Rightarrow> nat \<Rightarrow> u32" where
  "base64_word a b c d = push_bit 18 (of_nat a) OR push_bit 12 (of_nat b) OR push_bit 6 (of_nat c) OR of_nat d"

fun base64_chunks :: "string \<Rightarrow> u8 list option" where
  "base64_chunks (a # b # c # d # s) =
     (case (base64_val a, base64_val b, base64_val c, base64_val d) of
        (Some va, Some vb, Some vc, Some vd) \<Rightarrow>
          (let n = base64_word va vb vc vd;
               here = [ucast (drop_bit 16 n)] @ (if c \<noteq> CHR ''='' then [ucast (drop_bit 8 n)] else []) @
                 (if d \<noteq> CHR ''='' then [ucast n] else [])
           in map_option ((@) here) (base64_chunks s))
      | _ \<Rightarrow> None)"
| "base64_chunks _ = Some []"

definition base64_decode :: "string \<Rightarrow> u8 list option" where
  "base64_decode s =
     (let s = concat (filter (\<lambda>c. \<not> is_white c) (chars s))
      in if length s mod 4 \<noteq> 0 then None else base64_chunks s)"

fun chunks_of :: "nat \<Rightarrow> 'a list \<Rightarrow> 'a list list" where
  "chunks_of n xs = (if n = 0 \<or> xs = [] then [] else take n xs # chunks_of n (drop n xs))"

declare chunks_of.simps [simp del]

definition unquote :: "string \<Rightarrow> string" where
  "unquote t = (case t of c # r \<Rightarrow> if c = dquote \<and> r \<noteq> [] \<and> last r = dquote then butlast r else t | [] \<Rightarrow> t)"

definition character_strings :: "string \<Rightarrow> u8 list" where
  "character_strings t =
     (let bytes = str_bytes (unquote t)
      in (if bytes = [] then [0] else []) @ concat (map (\<lambda>ch. of_nat (length ch) # ch) (chunks_of 255 bytes)))"

definition rdata_soa :: "string list \<Rightarrow> string \<Rightarrow> u8 list option" where
  "rdata_soa ts origin =
     (if length ts < 7 then None
      else case parse_u32 (ts ! 2) of None \<Rightarrow> None | Some serial \<Rightarrow>
        Some (b_name (fqdn (ts ! 0) origin) @ b_name (fqdn (ts ! 1) origin) @ be32 serial @ be32 (parse_ttl (ts ! 3)) @
          be32 (parse_ttl (ts ! 4)) @ be32 (parse_ttl (ts ! 5)) @ be32 (parse_ttl (ts ! 6))))"

definition rdata_srv :: "string list \<Rightarrow> string \<Rightarrow> u8 list option" where
  "rdata_srv ts origin =
     (if length ts < 4 then None
      else case (parse_u16 (ts ! 0), parse_u16 (ts ! 1), parse_u16 (ts ! 2)) of
        (Some pri, Some weight, Some port) \<Rightarrow>
          Some (be16 pri @ be16 weight @ be16 port @ b_name (fqdn (ts ! 3) origin))
      | _ \<Rightarrow> None)"

definition key_header :: "string list \<Rightarrow> u8 list option" where
  "key_header ts =
     (case (parse_u16 (ts ! 0), parse_u8 (ts ! 1), parse_u8 (ts ! 2)) of
        (Some w, Some a, Some b) \<Rightarrow> Some (be16 w @ [a, b]) | _ \<Rightarrow> None)"

text \<open>\<open>Inl\<close> is a panic, \<open>Inr None\<close> rdata that is refused.  The fields are never empty.\<close>

definition build_rdata :: "string \<Rightarrow> string list \<Rightarrow> string \<Rightarrow> unit + u8 list option" where
  "build_rdata rtype ts origin =
     (if rtype = ''A'' then Inr (map_option be32 (parse_ipv4 (ts ! 0)))
      else if rtype = ''AAAA'' then
        Inr (map_option (\<lambda>a. be32 (ucast (drop_bit 96 a)) @ be32 (ucast (drop_bit 64 a)) @ be32 (ucast (drop_bit 32 a)) @
               be32 (ucast a)) (parse_ipv6 (ts ! 0)))
      else if rtype = ''NS'' \<or> rtype = ''CNAME'' \<or> rtype = ''PTR'' then Inr (Some (canonical_name (fqdn (ts ! 0) origin)))
      else if rtype = ''MX'' then
        (case parse_u16 (ts ! 0) of None \<Rightarrow> Inr None
         | Some pref \<Rightarrow> if length ts < 2 then Inl () else Inr (Some (be16 pref @ b_name (fqdn (ts ! 1) origin))))
      else if rtype = ''SOA'' then Inr (rdata_soa ts origin)
      else if rtype = ''TXT'' then Inr (Some (concat (map character_strings ts)))
      else if rtype = ''SRV'' then Inr (rdata_srv ts origin)
      else if rtype = ''DS'' then
        (if length ts < 4 then Inr None
         else case key_header ts of None \<Rightarrow> Inr None
           | Some hdr \<Rightarrow> map_sum id (map_option ((@) hdr)) (hex_decode (ts ! 3)))
      else if rtype = ''DNSKEY'' then
        (if length ts < 4 then Inr None
         else Inr (case key_header ts of None \<Rightarrow> None
           | Some hdr \<Rightarrow> map_option ((@) hdr) (base64_decode (concat (drop 3 ts)))))
      else Inr None)"

section \<open>Records and directives\<close>

record loader =
  l_zone :: zone
  l_default_ttl :: u32
  l_origin :: string
  l_last_name :: string
  l_pending :: string
  l_open :: int

text \<open>The owner and the number of fields it takes.\<close>

definition owner_field :: "bool \<Rightarrow> string list \<Rightarrow> loader \<Rightarrow> string \<times> nat" where
  "owner_field blank ts l =
     (let n = hd ts in
      if \<not> blank \<and> \<not> is_type n \<and> \<not> is_class n
      then (if n = ''@'' then l_origin l
            else if ends_dot n then to_lower (trim_end_dots n) else to_lower n @ CHR ''.'' # l_origin l, 1)
      else (l_last_name l, 0))"

definition ttl_field :: "string list \<Rightarrow> nat \<Rightarrow> u32 \<Rightarrow> u32 \<times> nat" where
  "ttl_field ts idx default_ttl =
     (if idx < length ts then
        (case parse_u32 (ts ! idx) of Some n \<Rightarrow> (n, idx + 1)
         | None \<Rightarrow> if ts ! idx \<noteq> [] \<and> ttl_unit (last (ts ! idx)) \<noteq> None then (parse_ttl (ts ! idx), idx + 1)
                   else (default_ttl, idx))
      else (default_ttl, idx))"

definition class_field :: "string list \<Rightarrow> nat \<Rightarrow> nat" where
  "class_field ts idx = (if idx < length ts \<and> is_class (ts ! idx) then idx + 1 else idx)"

definition load_rr :: "bool \<Rightarrow> string list \<Rightarrow> loader \<Rightarrow> loader option" where
  "load_rr blank ts l =
     (if length ts < 2 then Some l
      else
        let (name, idx) = owner_field blank ts l;
            l = l\<lparr>l_last_name := name\<rparr>;
            (ttl, idx) = ttl_field ts idx (l_default_ttl l);
            idx = class_field ts idx
        in if length ts \<le> idx then Some l
           else let rtype = to_upper (ts ! idx); rdata_tokens = drop (idx + 1) ts in
             if rdata_tokens = [] then Some l
             else case build_rdata rtype rdata_tokens (l_origin l) of
               Inl _ \<Rightarrow> None
             | Inr None \<Rightarrow> Some l
             | Inr (Some rdat) \<Rightarrow>
                 Some (l\<lparr>l_zone := zone_add \<lparr>r_name = name, r_type = str_to_rtype rtype, r_class = 1, r_ttl = ttl,
                                             r_rdata = rdat\<rparr> (l_zone l)\<rparr>))"

definition load_record_text :: "string \<Rightarrow> loader \<Rightarrow> loader option" where
  "load_record_text text l =
     (let line = trim text in
      if line = [] then Some l
      else if prefix ''$ORIGIN'' line then
        (case split_whitespace line of
           _ # o1 # _ \<Rightarrow>
             (let origin = to_lower (trim_end_dots o1)
              in Some (l\<lparr>l_origin := origin, l_zone := (l_zone l)\<lparr>z_origin := origin\<rparr>\<rparr>))
         | _ \<Rightarrow> Some l)
      else if prefix ''$TTL'' line then
        (case split_whitespace line of _ # t # _ \<Rightarrow> Some (l\<lparr>l_default_ttl := parse_ttl t\<rparr>) | _ \<Rightarrow> Some l)
      else if prefix ''$'' line then Some l
      else load_rr (starts_white text) (tokenize_zone_line line) l)"

section \<open>The file\<close>

definition load_raw_line :: "string \<Rightarrow> loader \<Rightarrow> loader option" where
  "load_raw_line raw l =
     (let stripped = strip_zone_comment raw in
      if l_pending l = [] \<and> trim stripped = [] then Some l
      else
        let pending = l_pending l @ stripped @ '' '';
            open_parens = l_open l + parenthesis_balance stripped
        in if 0 < open_parens then Some (l\<lparr>l_pending := pending, l_open := open_parens\<rparr>)
           else load_record_text pending (l\<lparr>l_pending := [], l_open := 0\<rparr>))"

fun load_lines :: "string list \<Rightarrow> loader \<Rightarrow> loader option" where
  "load_lines [] l = Some l"
| "load_lines (raw # raws) l = (case load_raw_line raw l of None \<Rightarrow> None | Some l \<Rightarrow> load_lines raws l)"

definition loader_new :: "zone \<Rightarrow> loader" where
  "loader_new z =
     \<lparr>l_zone = z, l_default_ttl = 3600, l_origin = z_origin z, l_last_name = z_origin z, l_pending = [], l_open = 0\<rparr>"

definition load_text :: "string \<Rightarrow> zone \<Rightarrow> zone option" where
  "load_text content z = map_option l_zone (load_lines (text_lines content) (loader_new z))"

datatype load_error = Unreadable | Panicked

type_synonym files = "string \<Rightarrow> u8 list option"

definition read_to_string :: "files \<Rightarrow> string \<Rightarrow> string option" where
  "read_to_string files path =
     (case files path of Some bytes \<Rightarrow> if utf8_valid bytes then Some (bytes_str bytes) else None | None \<Rightarrow> None)"

definition load_file :: "files \<Rightarrow> string \<Rightarrow> zone \<Rightarrow> load_error + zone" where
  "load_file files path z =
     (case read_to_string files path of None \<Rightarrow> Inl Unreadable
      | Some content \<Rightarrow> (case load_text content z of None \<Rightarrow> Inl Panicked | Some z \<Rightarrow> Inr z))"

end
