(* ===== verification/ZoneText.thy ===== *)
theory ZoneText
  imports ZoneFile
begin

text \<open>
  What a zone file means: zone entries, how they are written in master file format, and that
  \<^const>\<open>load_text\<close> reads them back, with the encoders that match the decoders of
  \<open>src/src/zone.rs\<close>.
\<close>

section \<open>Fields of a line\<close>

definition plain_char :: "char \<Rightarrow> bool" where
  "plain_char c \<longleftrightarrow> 33 \<le> (of_char c :: nat) \<and> (of_char c :: nat) < 127 \<and> c \<notin> {dquote, bslash, CHR '';'', CHR ''('', CHR '')''}"

definition quotable_char :: "char \<Rightarrow> bool" where
  "quotable_char c \<longleftrightarrow> 32 \<le> (of_char c :: nat) \<and> (of_char c :: nat) < 127 \<and> c \<noteq> dquote \<and> c \<noteq> bslash"

definition plain :: "string \<Rightarrow> bool" where
  "plain t \<longleftrightarrow> t \<noteq> [] \<and> list_all plain_char t"

definition enquote :: "string \<Rightarrow> string" where
  "enquote s = dquote # s @ [dquote]"

definition is_field :: "string \<Rightarrow> bool" where
  "is_field t \<longleftrightarrow> plain t \<or> (\<exists>s. list_all quotable_char s \<and> t = enquote s)"

abbreviation singles :: "string \<Rightarrow> string list" where
  "singles s \<equiv> map (\<lambda>c. [c]) s"

definition fields_line :: "string list \<Rightarrow> string" where
  "fields_line ts = join_on (CHR '' '') ts"

lemma plain_char_seps [simp]: "plain_char (CHR ''.'')" "plain_char (CHR '':'')"
  by (simp_all add: plain_char_def)

text \<open>The scanners pass over a field; outside quotes nothing in it is special.\<close>

lemma strip_plain:
  "list_all plain_char t \<Longrightarrow> strip_comment_chars False False (singles t @ cs) = singles t @ strip_comment_chars False False cs"
  by (induction t) (auto simp: plain_char_def)

lemma strip_quoted:
  "list_all quotable_char s \<Longrightarrow> strip_comment_chars True False (singles s @ cs) = singles s @ strip_comment_chars True False cs"
  by (induction s) (auto simp: quotable_char_def)

lemma balance_plain: "list_all plain_char t \<Longrightarrow> paren_balance False False (singles t @ cs) = paren_balance False False cs"
  by (induction t) (auto simp: plain_char_def)

lemma balance_quoted: "list_all quotable_char s \<Longrightarrow> paren_balance True False (singles s @ cs) = paren_balance True False cs"
  by (induction s) (auto simp: quotable_char_def)

lemma tokenize_plain:
  "list_all plain_char t \<Longrightarrow> tokenize False False cur (singles t @ cs) = tokenize False False (cur @ t) cs"
  by (induction t arbitrary: cur) (auto simp: plain_char_def)

lemma tokenize_quoted:
  "list_all quotable_char s \<Longrightarrow> tokenize True False cur (singles s @ cs) = tokenize True False (cur @ s) cs"
  by (induction s arbitrary: cur) (auto simp: quotable_char_def)

lemma scan_field:
  assumes "is_field t"
  shows "strip_comment_chars False False (singles t @ cs) = singles t @ strip_comment_chars False False cs"
    "paren_balance False False (singles t @ cs) = paren_balance False False cs"
    "tokenize False False cur (singles t @ cs) = tokenize False False (cur @ t) cs"
  using assms
  by (auto simp: is_field_def plain_def enquote_def strip_plain strip_quoted balance_plain balance_quoted
      tokenize_plain tokenize_quoted)

lemma is_field_not_Nil: "is_field t \<Longrightarrow> t \<noteq> []"
  by (auto simp: is_field_def plain_def enquote_def)

lemma scan_fields:
  assumes "list_all is_field ts" "ts \<noteq> []"
  shows "strip_comment_chars False False (singles (fields_line ts)) = singles (fields_line ts)"
    "paren_balance False False (singles (fields_line ts)) = 0"
    "tokenize False False [] (singles (fields_line ts)) = ts"
proof -
  have "strip_comment_chars False False (singles (fields_line ts)) = singles (fields_line ts) \<and>
      paren_balance False False (singles (fields_line ts)) = 0 \<and> tokenize False False [] (singles (fields_line ts)) = ts"
    using assms
  proof (induction "CHR '' ''" ts rule: join_on.induct)
    case (2 t)
    then show ?case using scan_field(1,2) [of t "[]"] scan_field(3) [where t = t and cs = "[]" and cur = "[]"] is_field_not_Nil [of t] by (simp add: fields_line_def flush_token_def)
  next
    case (3 t u ts)
    then have t: "is_field t" and rest: "list_all is_field (u # ts)" by simp_all
    note IH = "3.hyps" [OF rest]
    show ?case
      using IH scan_field [OF t, where cs = "singles (CHR '' '' # fields_line (u # ts))"] is_field_not_Nil [OF t]
      by (simp add: fields_line_def flush_token_def)
  qed simp
  then show "strip_comment_chars False False (singles (fields_line ts)) = singles (fields_line ts)"
    "paren_balance False False (singles (fields_line ts)) = 0"
    "tokenize False False [] (singles (fields_line ts)) = ts" by simp_all
qed

abbreviation graphic :: "char \<Rightarrow> bool" where
  "graphic c \<equiv> 33 \<le> (of_char c :: nat) \<and> (of_char c :: nat) < 127"

lemma plain_char_graphic: "plain_char c \<Longrightarrow> graphic c"
  by (simp only: plain_char_def simp_thms)

lemma quotable_char_range: "quotable_char c \<Longrightarrow> graphic c \<or> c = CHR '' ''"
proof -
  assume "quotable_char c"
  then have "33 \<le> (of_char c :: nat) \<or> of_char c = (of_char (CHR '' '') :: nat)" "(of_char c :: nat) < 127"
    by (auto simp: quotable_char_def)
  then show ?thesis using of_char_eq_iff by blast
qed

lemma graphic_dquote [simp]: "graphic dquote"
  by simp

lemma is_field_chars: "is_field t \<Longrightarrow> c \<in> set t \<Longrightarrow> graphic c \<or> c = CHR '' ''"
  unfolding is_field_def plain_def enquote_def list_all_iff
  using plain_char_graphic quotable_char_range graphic_dquote by fastforce

lemma is_field_ends: "is_field t \<Longrightarrow> graphic (hd t) \<and> graphic (last t)"
  unfolding is_field_def plain_def enquote_def list_all_iff
  using plain_char_graphic hd_in_set last_in_set by fastforce

text \<open>A line of fields.\<close>

definition is_line :: "string list \<Rightarrow> bool" where
  "is_line ts \<longleftrightarrow> ts \<noteq> [] \<and> list_all is_field ts"

lemma join_on_set: "c \<in> set (join_on d xs) \<Longrightarrow> c = d \<or> (\<exists>x\<in>set xs. c \<in> set x)"
  by (induction d xs rule: join_on.induct) auto

lemma fields_line_chars:
  assumes "is_line ts" "c \<in> set (fields_line ts)"
  shows "graphic c \<or> c = CHR '' ''"
proof -
  consider "c = CHR '' ''" | t where "t \<in> set ts" "c \<in> set t"
    using join_on_set [OF assms(2) [unfolded fields_line_def]] by blast
  then show ?thesis
  proof cases
    case 2
    then have "is_field t" using assms(1) by (simp add: is_line_def list_all_iff)
    then show ?thesis using 2(2) by (rule is_field_chars)
  qed (rule disjI2)
qed

lemma fields_line_ends:
  assumes "is_line ts"
  shows "fields_line ts \<noteq> []" "hd (fields_line ts) = hd (hd ts)" "last (fields_line ts) = last (last ts)"
proof -
  have ne: "hd ts \<noteq> []" "last ts \<noteq> []" using assms is_field_not_Nil by (auto simp: is_line_def list_all_iff)
  have "hd (join_on d xs) = hd (hd xs)" if "xs \<noteq> []" "hd xs \<noteq> []" for d :: char and xs
    using that by (cases "(d, xs)" rule: join_on.cases) auto
  then show "fields_line ts \<noteq> []" "hd (fields_line ts) = hd (hd ts)" "last (fields_line ts) = last (last ts)"
    using assms ne by (auto simp: is_line_def fields_line_def join_on_eq_Nil last_join_on)
qed

lemma line_scans:
  assumes line: "is_line ts"
  shows "strip_zone_comment (fields_line ts) = fields_line ts" "parenthesis_balance (fields_line ts) = 0"
    "tokenize_zone_line (fields_line ts) = ts" "trim (fields_line ts) = fields_line ts"
    "trim (fields_line ts @ '' '') = fields_line ts" "\<not> starts_white (fields_line ts @ '' '')"
proof -
  let ?s = "fields_line ts"
  have "(of_char (CHR '' '') :: nat) < 128" by simp
  then have ascii: "ascii ?s" using fields_line_chars [OF line] by (fastforce simp: ascii_def list_all_iff)
  then have chars: "chars ?s = singles ?s" by (rule chars_ascii)
  note ends = fields_line_ends [OF line]
  have hdl: "graphic (hd ?s)" "graphic (last ?s)"
    using is_field_ends [of "hd ts"] is_field_ends [of "last ts"] line ends by (auto simp: is_line_def list_all_iff)
  show "strip_zone_comment ?s = ?s" "parenthesis_balance ?s = 0" "tokenize_zone_line ?s = ts"
    using scan_fields [of ts, folded chars] line
    by (simp_all add: is_line_def strip_zone_comment_def parenthesis_balance_def tokenize_zone_line_def del: tokenize.simps)
  have c2: "chars (?s @ '' '') = [] @ singles ?s @ ['' '']" using ascii by (simp add: chars_ascii)
  show "trim (?s @ '' '') = ?s"
    unfolding trim_def c2 using hdl ends(1) by (subst trim_with_append) (auto simp: hd_map last_map)
  show "trim ?s = ?s"
    unfolding trim_def chars using hdl ends(1) by (subst trim_with_id) (auto simp: hd_map last_map)
  show "\<not> starts_white (?s @ '' '')"
    unfolding starts_white_def c2 using hdl ends(1) by (cases ?s) auto
qed

lemma load_fields_line:
  assumes line: "is_line ts" and l: "l_pending l = []" "l_open l = 0" and first: "hd (hd ts) \<noteq> CHR ''$''"
  shows "load_raw_line (fields_line ts) l = load_rr False ts l"
proof -
  note ends = fields_line_ends [OF line]
  have "\<not> prefix (CHR ''$'' # p) (fields_line ts)" for p using first ends by (cases "fields_line ts") auto
  then have "load_raw_line (fields_line ts) l = load_rr False ts (l\<lparr>l_pending := [], l_open := 0\<rparr>)"
    using l ends(1) by (simp add: load_raw_line_def load_record_text_def line_scans [OF line])
  also have "l\<lparr>l_pending := [], l_open := 0\<rparr> = l" using l by (cases l) simp
  finally show ?thesis .
qed

text \<open>A file of such lines is read back as them.\<close>

lemma read_lines:
  assumes "\<And>line c. line \<in> set ls \<Longrightarrow> c \<in> set line \<Longrightarrow> graphic c \<or> c = CHR '' ''"
  shows "files path = Some (str_bytes (unlines ls)) \<Longrightarrow> read_to_string files path = Some (unlines ls)"
    "text_lines (unlines ls) = ls"
proof -
  have line: "CHR 0x0A \<notin> set line \<and> (line = [] \<or> last line \<noteq> CHR 0x0D)" if "line \<in> set ls" for line
  proof -
    have "c \<noteq> CHR 0x0A \<and> c \<noteq> CHR 0x0D" if "c \<in> set line" for c using assms [OF \<open>line \<in> set ls\<close> that] by auto
    then show ?thesis using last_in_set by blast
  qed
  then show "text_lines (unlines ls) = ls" by (rule text_lines_unlines)
  have "ascii line" if "line \<in> set ls" for line using assms [OF that] by (fastforce simp: ascii_def list_all_iff)
  then have "ascii (unlines ls)" by (intro ascii_unlines) (unfold list_all_iff, rule ballI)
  then have "utf8_valid (str_bytes (unlines ls))"
    by (intro utf8_valid_ascii) (auto simp: word_less_nat_alt ascii_def list_all_iff)
  then show "files path = Some (str_bytes (unlines ls)) \<Longrightarrow> read_to_string files path = Some (unlines ls)"
    by (simp add: read_to_string_def del: map_map)
qed

section \<open>Hexadecimal and base64\<close>

definition hex_encode :: "u8 list \<Rightarrow> string" where
  "hex_encode bs = concat (map (\<lambda>b. [digit_char (unat b div 16), digit_char (unat b mod 16)]) bs)"

lemma digit_char_hex:
  assumes "d < 16"
  shows "\<not> utf8_continuation (digit_char d)" "digit_char d \<noteq> CHR ''+''" "digit_char d \<noteq> CHR '' ''" "plain_char (digit_char d)"
proof -
  have "(of_char (digit_char d) :: nat) = (if d < 10 then 48 + d else 87 + d)"
    using assms by (simp add: of_char_digit_char)
  then show "\<not> utf8_continuation (digit_char d)" "digit_char d \<noteq> CHR ''+''" "digit_char d \<noteq> CHR '' ''" "plain_char (digit_char d)"
    using assms by (auto simp: utf8_continuation_def plain_char_def split: if_splits)
qed

lemma unat_div_16 [simp]: "unat (b :: u8) div 16 < 16"
  using unat_u8_less [of b] by (simp add: div_less_iff_less_mult)

lemma hex_encode_chars: "c \<in> set (hex_encode bs) \<Longrightarrow> \<exists>d<16. c = digit_char d"
proof -
  assume "c \<in> set (hex_encode bs)"
  then have "\<exists>b\<in>set bs. c \<in> set [digit_char (unat b div 16), digit_char (unat b mod 16)]" by (auto simp: hex_encode_def)
  then obtain b :: u8 where "c \<in> set [digit_char (unat b div 16), digit_char (unat b mod 16)]" by blast
  moreover have "unat b mod 16 < 16" by simp
  moreover have "c = digit_char (unat b div 16) \<or> c = digit_char (unat b mod 16)" using calculation(1) by simp
  ultimately show ?thesis using unat_div_16 [of b] by blast
qed

lemma hex_decode_encode: "hex_decode (hex_encode bs) = Inr (Some bs)"
proof -
  have "filter (\<lambda>c. c \<noteq> CHR '' '') (hex_encode bs) = hex_encode bs"
    using hex_encode_chars digit_char_hex(3) by (fastforce simp: filter_id_conv)
  moreover have "even (length (hex_encode bs))" by (induction bs) (simp_all add: hex_encode_def)
  moreover have "hex_pairs (hex_encode bs) = Inr (Some bs)"
  proof (induction bs)
    case (Cons b bs)
    have "hd (hex_encode bs) \<in> set (hex_encode bs)" if "hex_encode bs \<noteq> []" using that by simp
    then have "hex_encode bs = [] \<or> \<not> utf8_continuation (hd (hex_encode bs))"
      using hex_encode_chars digit_char_hex(1) by metis
    moreover have "parse_unsigned 16 256 [digit_char (unat b div 16), digit_char (unat b mod 16)] = Some (unat b)"
      using digit_char_hex(2) [of "unat b div 16"] by (simp add: parse_unsigned_def)
    ultimately show ?case
      using Cons digit_char_hex(1) [of "unat b div 16"] by (simp add: hex_encode_def)
  qed (simp add: hex_encode_def)
  ultimately show ?thesis by (simp add: hex_decode_def)
qed

text \<open>Base64 of RFC 4648 section 4.\<close>

definition base64_char :: "nat \<Rightarrow> char" where
  "base64_char v =
     (if v < 26 then char_of (65 + v) else if v < 52 then char_of (71 + v) else if v < 62 then char_of (v - 4)
      else if v = 62 then CHR ''+'' else CHR ''/'')"

definition sextets :: "u8 \<Rightarrow> u8 \<Rightarrow> u8 \<Rightarrow> nat list" where
  "sextets a b c =
     map unat [drop_bit 2 a, push_bit 4 (take_bit 2 a) OR drop_bit 4 b, push_bit 2 (take_bit 4 b) OR drop_bit 6 c, take_bit 6 c]"

fun base64_encode :: "u8 list \<Rightarrow> string" where
  "base64_encode [] = []"
| "base64_encode [a] = map base64_char (take 2 (sextets a 0 0)) @ ''==''"
| "base64_encode [a, b] = map base64_char (take 3 (sextets a b 0)) @ ''=''"
| "base64_encode (a # b # c # bs) = map base64_char (sextets a b c) @ base64_encode bs"

lemma of_char_base64_char:
  "v < 64 \<Longrightarrow> of_char (base64_char v) =
    (if v < 26 then 65 + v else if v < 52 then 71 + v else if v < 62 then v - 4 else if v = 62 then 43 else 47)"
  by (simp add: base64_char_def)

lemma base64_val_char:
  assumes "v < 64"
  shows "base64_val (base64_char v) = Some v" "base64_char v \<noteq> CHR ''=''" "plain_char (base64_char v)"
proof -
  note char_eq = of_char_eq_iff [where 'a = nat, symmetric]
  have v: "v < 26 \<or> (26 \<le> v \<and> v < 52) \<or> (52 \<le> v \<and> v < 62) \<or> v = 62 \<or> v = 63" using assms by auto
  then show "base64_val (base64_char v) = Some v"
    by (elim disjE conjE) (auto simp: base64_val_def base64_char_def Let_def)
  show "base64_char v \<noteq> CHR ''=''"
    unfolding char_eq of_char_base64_char [OF assms] using v by (elim disjE conjE) simp_all
  show "plain_char (base64_char v)"
    unfolding plain_char_def insert_iff empty_iff char_eq of_char_base64_char [OF assms]
    using v by (elim disjE conjE) auto
qed

lemma u8_bit_eqI: "\<forall>n\<in>{0, 1, 2, 3, 4, 5, 6, 7}. bit a n \<longleftrightarrow> bit b n \<Longrightarrow> a = (b :: u8)"
proof (rule bit_word_eqI)
  fix n assume "\<forall>n\<in>{0, 1, 2, 3, 4, 5, 6, 7}. bit a n \<longleftrightarrow> bit b n" "n < LENGTH(8)"
  moreover from this(2) have "n \<in> {0, 1, 2, 3, 4, 5, 6, 7}" by auto
  ultimately show "bit a n = bit b n" by blast
qed

lemma high: "8 \<le> n \<Longrightarrow> \<not> bit (x :: u8) n"
  using bit_imp_le_length by fastforce

lemma sextets_bound:
  "unat (drop_bit 2 (a :: u8)) < 64" "unat (push_bit 4 (take_bit 2 (a :: u8)) OR drop_bit 4 (b :: u8)) < 64"
  "unat (push_bit 2 (take_bit 4 (a :: u8)) OR drop_bit 6 (b :: u8)) < 64" "unat (take_bit 6 (a :: u8)) < 64"
proof -
  have small: "unat x < 64" if "take_bit 6 x = x" for x :: u8
  proof -
    have "unat x = take_bit 6 (unat x)" using that by (simp flip: unsigned_take_bit_eq)
    also have "\<dots> < 2 ^ 6" by (rule take_bit_nat_less_exp)
    finally show ?thesis by simp
  qed
  show "unat (drop_bit 2 (a :: u8)) < 64" "unat (push_bit 4 (take_bit 2 (a :: u8)) OR drop_bit 4 (b :: u8)) < 64"
    "unat (push_bit 2 (take_bit 4 (a :: u8)) OR drop_bit 6 (b :: u8)) < 64" "unat (take_bit 6 (a :: u8)) < 64"
    by (rule small, rule u8_bit_eqI, simp add: bit_simps high)+
qed

lemma base64_word_sextets:
  fixes a b c :: u8
  defines "n \<equiv> base64_word (unat (drop_bit 2 a)) (unat (push_bit 4 (take_bit 2 a) OR drop_bit 4 b))
    (unat (push_bit 2 (take_bit 4 b) OR drop_bit 6 c)) (unat (take_bit 6 c))"
  shows "ucast (drop_bit 16 n) = a" "ucast (drop_bit 8 n) = b" "ucast n = c"
proof -
  have u: "(of_nat (unat x) :: u32) = ucast x" for x :: u8 by (simp add: unsigned_def)
  show "ucast (drop_bit 16 n) = a" "ucast (drop_bit 8 n) = b" "ucast n = c"
    unfolding n_def base64_word_def u
    by (rule u8_bit_eqI, simp add: bit_simps high flip: numeral_2_eq_2 numeral_3_eq_3)+
qed

lemma sextets_set: "v \<in> set (sextets a b c) \<Longrightarrow> v < 64"
  using sextets_bound by (auto simp: sextets_def)

lemma base64_chunks_group:
  assumes "sextets a b c = [va, vb, vc, vd]"
  shows "base64_chunks (map base64_char [va, vb, vc, vd] @ s) = map_option ((@) [a, b, c]) (base64_chunks s)"
    "c = 0 \<Longrightarrow> base64_chunks (map base64_char [va, vb, vc] @ CHR ''='' # s) = map_option ((@) [a, b]) (base64_chunks s)"
    "b = 0 \<Longrightarrow> c = 0 \<Longrightarrow> base64_chunks (map base64_char [va, vb] @ CHR ''='' # CHR ''='' # s) =
      map_option ((@) [a]) (base64_chunks s)"
proof -
  have bound: "va < 64" "vb < 64" "vc < 64" "vd < 64" using sextets_set [of _ a b c] assms by auto
  note vals = bound [THEN base64_val_char(1)] bound [THEN base64_val_char(2)]
  have eq: "base64_val (CHR ''='') = Some 0" by (simp add: base64_val_def)
  have v: "va = unat (drop_bit 2 a)" "vb = unat (push_bit 4 (take_bit 2 a) OR drop_bit 4 b)"
    "vc = unat (push_bit 2 (take_bit 4 b) OR drop_bit 6 c)" "vd = unat (take_bit 6 c)"
    using assms by (simp_all add: sextets_def)
  note w = base64_word_sextets [of a b c, folded v]
  show "base64_chunks (map base64_char [va, vb, vc, vd] @ s) = map_option ((@) [a, b, c]) (base64_chunks s)"
    by (simp add: vals w Let_def)
  show "c = 0 \<Longrightarrow> base64_chunks (map base64_char [va, vb, vc] @ CHR ''='' # s) = map_option ((@) [a, b]) (base64_chunks s)"
    using w v(4) by (simp add: vals eq Let_def)
  show "b = 0 \<Longrightarrow> c = 0 \<Longrightarrow> base64_chunks (map base64_char [va, vb] @ CHR ''='' # CHR ''='' # s) =
      map_option ((@) [a]) (base64_chunks s)"
    using w v(3,4) by (simp add: vals eq Let_def)
qed

lemma length_sextets [simp]: "length (sextets a b c) = 4"
  by (simp add: sextets_def)

lemma sextets_cases: obtains va vb vc vd where "sextets a b c = [va, vb, vc, vd]"
  by (simp add: sextets_def)

lemma base64_chunks_encode: "base64_chunks (base64_encode bs) = Some bs \<and> length (base64_encode bs) mod 4 = 0"
proof (induction bs rule: base64_encode.induct)
  case (2 a)
  obtain va vb vc vd where "sextets a 0 0 = [va, vb, vc, vd]" by (rule sextets_cases)
  then show ?case using base64_chunks_group(3) [of a 0 0 va vb vc vd "[]"] by simp
next
  case (3 a b)
  obtain va vb vc vd where "sextets a b 0 = [va, vb, vc, vd]" by (rule sextets_cases)
  then show ?case using base64_chunks_group(2) [of a b 0 va vb vc vd "[]"] by simp
next
  case (4 a b c bs)
  obtain va vb vc vd where "sextets a b c = [va, vb, vc, vd]" by (rule sextets_cases)
  then show ?case using base64_chunks_group(1) [of a b c va vb vc vd "base64_encode bs"] 4 by simp
qed simp

lemma plain_char_eq: "plain_char (CHR ''='')"
  by (simp add: plain_char_def)

lemma base64_encode_chars: "c \<in> set (base64_encode bs) \<Longrightarrow> plain_char c"
proof (induction bs rule: base64_encode.induct)
  case (2 a)
  then show ?case
    using base64_val_char(3) sextets_set plain_char_eq by (fastforce dest: in_set_takeD)
next
  case (3 a b)
  then show ?case
    using base64_val_char(3) sextets_set plain_char_eq by (fastforce dest: in_set_takeD)
next
  case (4 a b c bs)
  then show ?case using base64_val_char(3) sextets_set by auto
qed simp

text \<open>The decoder inverts the encoding of RFC 4648 on every byte sequence.\<close>

lemma base64_decode_encode [simp]: "base64_decode (base64_encode bs) = Some bs"
proof -
  have g: "graphic c" if "c \<in> set (base64_encode bs)" for c
    using base64_encode_chars [OF that] by (rule plain_char_graphic)
  then have "ascii (base64_encode bs)" by (fastforce simp: ascii_def list_all_iff)
  moreover have "filter (\<lambda>c. \<not> is_white c) (singles (base64_encode bs)) = singles (base64_encode bs)"
    using g by (fastforce simp: filter_id_conv)
  moreover have "concat (singles s) = s" for s :: string by (induction s) simp_all
  ultimately show ?thesis using base64_chunks_encode by (simp add: base64_decode_def chars_ascii)
qed

end
