(* ===== verification/ZoneEntries.thy ===== *)
theory ZoneEntries
  imports ZoneText
begin

text \<open>
  Zone entries: the ten kinds of records that \<open>build_rdata\<close> of \<open>src/src/zone.rs\<close> reads, their text
  and the record each stands for.  A file written from entries loads as exactly these records.
\<close>

section \<open>Entries and their text\<close>

datatype rdata_spec =
    Host4 u32 | Host6 u128 | Name_server string | Alias string | Pointer string | Mail u16 string
  | Texts "string list" | Authority string string u32 u32 u32 u32 u32 | Service u16 u16 u16 string
  | Delegation u16 u8 u8 "u8 list" | Zone_key u16 u8 u8 "u8 list"

record zone_entry =
  e_owner :: string
  e_ttl :: u32
  e_data :: rdata_spec

abbreviation show_word :: "'a::len word \<Rightarrow> string" where
  "show_word w \<equiv> show_nat (unat w)"

abbreviation absolute :: "string \<Rightarrow> string" where
  "absolute n \<equiv> n @ ''.''"

fun rdata_fields :: "rdata_spec \<Rightarrow> string list" where
  "rdata_fields (Host4 a) = [show_ipv4 a]"
| "rdata_fields (Host6 a) = [show_ipv6 a]"
| "rdata_fields (Name_server n) = [absolute n]"
| "rdata_fields (Alias n) = [absolute n]"
| "rdata_fields (Pointer n) = [absolute n]"
| "rdata_fields (Mail p n) = [show_word p, absolute n]"
| "rdata_fields (Texts ss) = map enquote ss"
| "rdata_fields (Authority m r a b c d e) = [absolute m, absolute r] @ map show_word [a, b, c, d, e]"
| "rdata_fields (Service p w q n) = map show_word [p, w, q] @ [absolute n]"
| "rdata_fields (Delegation t a d bs) = [show_word t, show_word a, show_word d, hex_encode bs]"
| "rdata_fields (Zone_key f p a bs) = [show_word f, show_word p, show_word a, base64_encode bs]"

fun rdata_type :: "rdata_spec \<Rightarrow> RType" where
  "rdata_type (Host4 a) = A"
| "rdata_type (Host6 a) = AAAA"
| "rdata_type (Name_server n) = NS"
| "rdata_type (Alias n) = CNAME"
| "rdata_type (Pointer n) = PTR"
| "rdata_type (Mail p n) = MX"
| "rdata_type (Texts ss) = TXT"
| "rdata_type (Authority m r a b c d e) = SOA"
| "rdata_type (Service p w q n) = SRV"
| "rdata_type (Delegation t a d bs) = DS"
| "rdata_type (Zone_key f p a bs) = DNSKEY"

fun type_name :: "rdata_spec \<Rightarrow> string" where
  "type_name (Host4 a) = ''A''"
| "type_name (Host6 a) = ''AAAA''"
| "type_name (Name_server n) = ''NS''"
| "type_name (Alias n) = ''CNAME''"
| "type_name (Pointer n) = ''PTR''"
| "type_name (Mail p n) = ''MX''"
| "type_name (Texts ss) = ''TXT''"
| "type_name (Authority m r a b c d e) = ''SOA''"
| "type_name (Service p w q n) = ''SRV''"
| "type_name (Delegation t a d bs) = ''DS''"
| "type_name (Zone_key f p a bs) = ''DNSKEY''"

text \<open>The wire form: character strings of at most 255 bytes, an IPv6 address in network order.\<close>

definition txt_bytes :: "string \<Rightarrow> u8 list" where
  "txt_bytes s =
     (if s = [] then [0] else concat (map (\<lambda>ch. of_nat (length ch) # ch) (chunks_of 255 (str_bytes s))))"

definition be128 :: "u128 \<Rightarrow> u8 list" where
  "be128 a = concat (map (\<lambda>i. be32 (ucast (drop_bit (32 * i) a))) [3, 2, 1, 0])"

fun rdata_wire :: "rdata_spec \<Rightarrow> u8 list" where
  "rdata_wire (Host4 a) = be32 a"
| "rdata_wire (Host6 a) = be128 a"
| "rdata_wire (Name_server n) = canonical_name n"
| "rdata_wire (Alias n) = canonical_name n"
| "rdata_wire (Pointer n) = canonical_name n"
| "rdata_wire (Mail p n) = be16 p @ b_name (to_lower n)"
| "rdata_wire (Texts ss) = concat (map txt_bytes ss)"
| "rdata_wire (Authority m r a b c d e) =
     b_name (to_lower m) @ b_name (to_lower r) @ be32 a @ be32 b @ be32 c @ be32 d @ be32 e"
| "rdata_wire (Service p w q n) = be16 p @ be16 w @ be16 q @ b_name (to_lower n)"
| "rdata_wire (Delegation t a d bs) = be16 t @ [a, d] @ bs"
| "rdata_wire (Zone_key f p a bs) = be16 f @ [p, a] @ bs"

definition entry_fields :: "zone_entry \<Rightarrow> string list" where
  "entry_fields e = [absolute (e_owner e), show_word (e_ttl e), ''IN'', type_name (e_data e)] @ rdata_fields (e_data e)"

definition entry_record :: "zone_entry \<Rightarrow> rr" where
  "entry_record e =
     \<lparr>r_name = to_lower (e_owner e), r_type = rdata_type (e_data e), r_class = CLASS_IN, r_ttl = e_ttl e,
      r_rdata = rdata_wire (e_data e)\<rparr>"

definition zone_text :: "zone_entry list \<Rightarrow> string" where
  "zone_text es = unlines (map (\<lambda>e. fields_line (entry_fields e)) es)"

text \<open>Names that a file can hold without escapes, and entries made of them.\<close>

definition text_name :: "string \<Rightarrow> bool" where
  "text_name n \<longleftrightarrow> list_all plain_char n \<and> (n = [] \<or> last n \<noteq> CHR ''.'') \<and> n \<noteq> ''@''"

fun rdata_ok :: "rdata_spec \<Rightarrow> bool" where
  "rdata_ok (Name_server n) = text_name n"
| "rdata_ok (Alias n) = text_name n"
| "rdata_ok (Pointer n) = text_name n"
| "rdata_ok (Mail p n) = text_name n"
| "rdata_ok (Texts ss) = (ss \<noteq> [] \<and> list_all (list_all quotable_char) ss)"
| "rdata_ok (Authority m r a b c d e) = (text_name m \<and> text_name r)"
| "rdata_ok (Service p w q n) = text_name n"
| "rdata_ok (Delegation t a d bs) = (bs \<noteq> [])"
| "rdata_ok (Zone_key f p a bs) = (bs \<noteq> [])"
| "rdata_ok _ = True"

definition zone_entry_ok :: "zone_entry \<Rightarrow> bool" where
  "zone_entry_ok e \<longleftrightarrow> text_name (e_owner e) \<and> (e_owner e = [] \<or> hd (e_owner e) \<noteq> CHR ''$'') \<and> rdata_ok (e_data e)"

section \<open>Reading the fields of an entry\<close>

lemma plain_show_digits [simp]: "2 \<le> radix \<Longrightarrow> radix \<le> 16 \<Longrightarrow> list_all plain_char (show_digits radix n)"
  using show_digits_chars [of radix _ n] digit_char_hex(4) by (fastforce simp: list_all_iff)

lemma plain_show_ip [simp]: "list_all plain_char (show_ipv4 a)" "list_all plain_char (show_ipv6 b)"
proof -
  have "list_all plain_char (join_on d xs)" if "plain_char d" "list_all (list_all plain_char) xs" for d xs
    using that by (induction d xs rule: join_on.induct) simp_all
  moreover have "plain_char (CHR ''.'')" "plain_char (CHR '':'')" by (simp_all add: plain_char_def)
  moreover have "list_all (list_all plain_char) (map (show_digits r) ns)" if "2 \<le> r" "r \<le> 16" for r ns
    using that by (simp add: list.pred_map comp_def list.pred_True)
  ultimately show "list_all plain_char (show_ipv4 a)" "list_all plain_char (show_ipv6 b)"
    by (simp_all add: show_ipv4_def show_ipv6_def)
qed

lemma is_field_intros:
  "list_all plain_char t \<Longrightarrow> t \<noteq> [] \<Longrightarrow> is_field t" "list_all quotable_char s \<Longrightarrow> is_field (enquote s)"
  "text_name n \<Longrightarrow> is_field (absolute n)"
  by (auto simp: is_field_def plain_def text_name_def plain_char_def)

lemma text_name_fqdn:
  assumes "text_name n"
  shows "trim_end_dots n = n" "fqdn (absolute n) origin = to_lower n"
  using assms by (auto simp: text_name_def trim_end_dots_id fqdn_def ends_dot_def)

lemma parse_show_word [simp]:
  "parse_u8 (show_word (a :: u8)) = Some a" "parse_u16 (show_word (b :: u16)) = Some b"
  "parse_u32 (show_word (c :: u32)) = Some c"
  using unsigned_less [of c, where ?'a = nat]
  by (simp_all add: parse_u8_def parse_u16_def parse_u32_def parse_unsigned_show_nat)

lemma parse_ttl_show [simp]: "parse_ttl (show_word (c :: u32)) = c"
proof -
  have "last (show_word c) \<in> set (show_word c)" by simp
  then have "48 \<le> (of_char (last (show_word c)) :: nat) \<and> (of_char (last (show_word c)) :: nat) \<le> 57"
    by (rule show_nat_digit)
  then have "ttl_unit (last (show_word c)) = None" by (auto simp: ttl_unit_def)
  then show ?thesis by (simp add: parse_ttl_def)
qed

lemma canonical_name_lower [simp]: "canonical_name (to_lower n) = canonical_name n"
  by (simp add: canonical_name_def)

lemma unquote_enquote [simp]: "unquote (enquote s) = s"
  by (simp add: unquote_def enquote_def)

lemma character_strings_enquote [simp]: "character_strings (enquote s) = txt_bytes s"
proof -
  have "chunks_of 255 ([] :: u8 list) = []" by (simp add: chunks_of.simps)
  then show ?thesis by (simp add: character_strings_def txt_bytes_def)
qed

lemma build_rdata_entry:
  "rdata_ok d \<Longrightarrow> build_rdata (type_name d) (rdata_fields d) origin = Inr (Some (rdata_wire d))"
  by (cases d)
    (simp_all add: build_rdata_def rdata_soa_def rdata_srv_def key_header_def text_name_fqdn hex_decode_encode
      comp_def be128_def)

section \<open>Reading an entry\<close>

lemma text_name_ascii: "text_name n \<Longrightarrow> ascii (absolute n)"
  using plain_char_graphic by (fastforce simp: text_name_def ascii_def list_all_iff)

lemma absolute_no_keyword:
  assumes "text_name n"
  shows "\<not> is_type (absolute n)" "\<not> is_class (absolute n)"
proof -
  have up: "last (to_upper (absolute n)) = CHR ''.''"
    using text_name_ascii [OF assms] by (simp add: to_upper_ascii upper_byte_def)
  have "list_all (\<lambda>s. last s \<noteq> CHR ''.'') [''A'', ''AAAA'', ''NS'', ''CNAME'', ''SOA'', ''PTR'', ''MX'', ''TXT'', ''SRV'',
      ''NAPTR'', ''DS'', ''DNSKEY'', ''RRSIG'', ''NSEC'', ''NSEC3'', ''CAA'', ''IN'', ''ANY'', ''CH'', ''HS'']"
    by simp
  with up show "\<not> is_type (absolute n)" "\<not> is_class (absolute n)"
    unfolding is_type_def is_class_def list_all_iff by force+
qed

lemma is_field_parts [simp]:
  "is_field (show_word w)" "is_field (show_ipv4 a)" "is_field (show_ipv6 b)"
  "bs \<noteq> [] \<Longrightarrow> is_field (hex_encode bs)" "bs \<noteq> [] \<Longrightarrow> is_field (base64_encode bs)"
proof -
  show "is_field (show_word w)" by (rule is_field_intros) simp_all
  have "show_ipv4 a \<noteq> []" "show_ipv6 b \<noteq> []" by (simp_all add: show_ipv4_def octets_def show_ipv6_def groups_def)
  then show "is_field (show_ipv4 a)" "is_field (show_ipv6 b)" by (simp_all add: is_field_intros)
  have "hex_encode bs \<noteq> []" "base64_encode bs \<noteq> []" if "bs \<noteq> []"
    using that base64_chunks_encode [of bs] by (auto simp: hex_encode_def)
  then show "bs \<noteq> [] \<Longrightarrow> is_field (hex_encode bs)" "bs \<noteq> [] \<Longrightarrow> is_field (base64_encode bs)"
    using hex_encode_chars digit_char_hex(4) base64_encode_chars
    by (metis is_field_intros(1) list_all_iff)+
qed

lemma entry_line:
  assumes "zone_entry_ok e"
  shows "is_line (entry_fields e)"
proof -
  have "list_all is_field (rdata_fields d)" if "rdata_ok d" for d
    using that by (cases d) (simp_all add: is_field_intros list.pred_map comp_def list_all_iff)
  moreover have "is_field (type_name d)" for d by (cases d) (simp_all add: is_field_def plain_def plain_char_def)
  moreover have "is_field ''IN''" by (simp add: is_field_def plain_def plain_char_def)
  ultimately show ?thesis
    using assms by (simp add: zone_entry_ok_def is_line_def entry_fields_def is_field_intros)
qed

lemma load_rr_entry:
  assumes "zone_entry_ok e"
  shows "load_rr False (entry_fields e) l =
    Some (l\<lparr>l_last_name := to_lower (e_owner e), l_zone := zone_add (entry_record e) (l_zone l)\<rparr>)"
proof -
  have up: "to_upper (type_name d) = type_name d" for d by (cases d) (simp_all add: to_upper_ascii upper_byte_def)
  have rt: "str_to_rtype (type_name d) = rdata_type d" for d by (cases d) (simp_all add: str_to_rtype_def)
  have cl: "\<not> is_class (type_name d)" for d by (cases d) (simp_all add: is_class_def to_upper_ascii upper_byte_def)
  have "rdata_fields (e_data e) \<noteq> []" using assms by (cases "e_data e") (auto simp: zone_entry_ok_def)
  moreover have "owner_field False (entry_fields e) l = (to_lower (e_owner e), 1)"
    using assms by (simp add: owner_field_def entry_fields_def absolute_no_keyword ends_dot_def zone_entry_ok_def text_name_fqdn)
  moreover have "is_class ''IN''" by (simp add: is_class_def to_upper_ascii upper_byte_def)
  ultimately show ?thesis
    using assms build_rdata_entry [of "e_data e" "l_origin l"]
    by (simp add: load_rr_def entry_fields_def ttl_field_def class_field_def Let_def up rt cl zone_entry_ok_def
        entry_record_def CLASS_IN_def)
qed

section \<open>A zone file means its entries\<close>

lemma load_entries:
  assumes "list_all zone_entry_ok es" "l_pending l = []" "l_open l = 0"
  shows "map_option l_zone (load_lines (map (\<lambda>e. fields_line (entry_fields e)) es) l) =
    Some (fold zone_add (map entry_record es) (l_zone l))"
  using assms
proof (induction es arbitrary: l)
  case (Cons e es)
  have "hd (hd (entry_fields e)) \<noteq> CHR ''$''"
    using Cons.prems(1) by (cases "e_owner e") (auto simp: zone_entry_ok_def entry_fields_def)
  then have "load_raw_line (fields_line (entry_fields e)) l = load_rr False (entry_fields e) l"
    using Cons.prems by (intro load_fields_line entry_line) simp_all
  moreover define l2 where "l2 = l\<lparr>l_last_name := to_lower (e_owner e), l_zone := zone_add (entry_record e) (l_zone l)\<rparr>"
  moreover have "map_option l_zone (load_lines (map (\<lambda>e. fields_line (entry_fields e)) es) l2) =
      Some (fold zone_add (map entry_record es) (l_zone l2))"
    using Cons by (intro Cons.IH) (simp_all add: l2_def)
  ultimately show ?case using Cons.prems(1) by (simp add: load_rr_entry)
qed simp

lemma load_printed:
  assumes "list_all zone_entry_ok es" "files path = Some (str_bytes (zone_text es))"
  shows "load_file files path z = Inr (fold zone_add (map entry_record es) z)"
proof -
  let ?lines = "map (\<lambda>e. fields_line (entry_fields e)) es"
  have graphic: "graphic c \<or> c = CHR '' ''" if "line \<in> set ?lines" "c \<in> set line" for line c
    using that assms(1) fields_line_chars entry_line by (auto simp: list_all_iff)
  have "read_to_string files path = Some (unlines ?lines)"
    using assms(2) by (intro read_lines(1) graphic) (simp_all add: zone_text_def)
  moreover have "text_lines (unlines ?lines) = ?lines" by (rule read_lines(2)) (rule graphic)
  moreover have "map_option l_zone (load_lines ?lines (loader_new z)) = Some (fold zone_add (map entry_record es) z)"
    using load_entries [OF assms(1), of "loader_new z"] by (simp add: loader_new_def)
  ultimately show ?thesis by (auto simp: load_file_def load_text_def simp del: map_map)
qed

text \<open>
  C11. A zone file written from any list of entries (owner, TTL and data of the ten record types, with
  names that need no escapes) loads without error as exactly the records the entries stand for, in
  their order, whatever the zone held before.
\<close>

theorem zone_text_loads:
  assumes "list_all zone_entry_ok es" "files path = Some (str_bytes (zone_text es))"
  shows "load_file files path z = Inr (fold zone_add (map entry_record es) z)"
  using assms by (rule load_printed)

definition sample_entries :: "zone_entry list" where
  "sample_entries =
     [\<lparr>e_owner = ''e.example'', e_ttl = 3600, e_data = Authority ''ns.e.example'' ''root.e.example'' 1 2 3 4 5\<rparr>,
      \<lparr>e_owner = ''ns.e.example'', e_ttl = 300, e_data = Host4 0xC0000201\<rparr>,
      \<lparr>e_owner = ''t.e.example'', e_ttl = 60, e_data = Texts [''v=1; p'', []]\<rparr>]"

lemma sample_entries_ok: "list_all zone_entry_ok sample_entries"
  by (simp add: sample_entries_def zone_entry_ok_def text_name_def plain_char_def quotable_char_def)

lemma zone_text_loads_witness:
  "load_file (\<lambda>p. Some (str_bytes (zone_text sample_entries))) ''e.zone'' (zone_new ''e.example'') =
    Inr (fold zone_add (map entry_record sample_entries) (zone_new ''e.example''))"
  using zone_text_loads [OF sample_entries_ok] by simp

end
