(* ===== verification/ZoneFaults.thy ===== *)
theory ZoneFaults
  imports ZoneText
begin

text \<open>
  What goes wrong in a zone file (\<open>Zone::load_file\<close> of \<open>src/src/zone.rs\<close>): the texts on which loading
  panics, and records that are read as something else than they say.
\<close>

section \<open>The records of a text\<close>

text \<open>The logical records: lines joined until the parentheses are closed; an unfinished one is dropped.\<close>

fun logical_records :: "string list \<Rightarrow> string \<Rightarrow> int \<Rightarrow> string list" where
  "logical_records [] pending open_parens = []"
| "logical_records (raw # raws) pending open_parens =
     (let stripped = strip_zone_comment raw; joined = pending @ stripped @ '' '';
          depth = open_parens + parenthesis_balance stripped in
      if pending = [] \<and> trim stripped = [] then logical_records raws pending open_parens
      else if 0 < depth then logical_records raws joined depth
      else joined # logical_records raws [] 0)"

definition zone_records :: "string \<Rightarrow> string list" where
  "zone_records text = logical_records (text_lines text) [] 0"

text \<open>The type and the rdata fields of a resource record, \<open>None\<close> for a directive or an incomplete record.\<close>

definition fields_from :: "string list \<Rightarrow> nat \<Rightarrow> (string \<times> string list) option" where
  "fields_from ts idx =
     (if length ts \<le> idx + 1 then None else Some (to_upper (ts ! idx), drop (idx + 1) ts))"

definition owner_width :: "bool \<Rightarrow> string list \<Rightarrow> nat" where
  "owner_width blank ts = (if \<not> blank \<and> \<not> is_type (hd ts) \<and> \<not> is_class (hd ts) then 1 else 0)"

definition record_fields :: "string \<Rightarrow> (string \<times> string list) option" where
  "record_fields text =
     (let line = trim text; ts = tokenize_zone_line line in
      if line = [] \<or> prefix ''$'' line \<or> length ts < 2 then None
      else fields_from ts (class_field ts (snd (ttl_field ts (owner_width (starts_white text) ts) 0))))"

definition rdata_panics :: "string \<Rightarrow> string list \<Rightarrow> bool" where
  "rdata_panics rtype fs \<longleftrightarrow>
     rtype = ''MX'' \<and> length fs = 1 \<and> parse_u16 (hd fs) \<noteq> None \<or>
     rtype = ''DS'' \<and> 4 \<le> length fs \<and> key_header fs \<noteq> None \<and> hex_decode (fs ! 3) = Inl ()"

section \<open>When loading panics\<close>

lemma build_rdata_panics:
  assumes "fs \<noteq> []"
  shows "build_rdata rtype fs origin = Inl u \<longleftrightarrow> rdata_panics rtype fs"
proof -
  have "length fs < 2 \<longleftrightarrow> length fs = 1" "hd fs = fs ! 0" using assms by (cases fs, auto simp: hd_conv_nth)+
  moreover have "map_sum id f x = Inl () \<longleftrightarrow> x = Inl ()" for f :: "u8 list option \<Rightarrow> u8 list option" and x :: "unit + u8 list option"
    by (cases x) simp_all
  ultimately show ?thesis
    by (auto simp: build_rdata_def rdata_panics_def not_le split: option.splits)
qed

lemma ttl_field_default: "snd (ttl_field ts idx d) = snd (ttl_field ts idx 0)"
  by (auto simp: ttl_field_def split: option.split)

lemma owner_field_width: "snd (owner_field blank ts l) = owner_width blank ts"
  by (simp add: owner_field_def owner_width_def Let_def)

lemma load_rr_panics:
  "load_rr blank ts l = None \<longleftrightarrow>
    \<not> length ts < 2 \<and> (\<exists>rtype fs. fields_from ts (class_field ts (snd (ttl_field ts (owner_width blank ts) 0))) = Some (rtype, fs) \<and>
      rdata_panics rtype fs)"
proof -
  obtain name idx where o: "owner_field blank ts l = (name, idx)" by (cases "owner_field blank ts l")
  obtain ttl idx2 where t: "ttl_field ts idx (l_default_ttl l) = (ttl, idx2)" by (cases "ttl_field ts idx (l_default_ttl l)")
  have i: "idx = owner_width blank ts" "idx2 = snd (ttl_field ts idx 0)"
    using o t owner_field_width [of blank ts l] ttl_field_default [of ts idx "l_default_ttl l"] by simp_all
  have "drop (Suc (class_field ts idx2)) ts = [] \<longleftrightarrow> length ts \<le> class_field ts idx2 + 1" by auto
  then show ?thesis
    using build_rdata_panics [of "drop (Suc (class_field ts idx2)) ts" "to_upper (ts ! class_field ts idx2)" "l_origin l"]
    by (auto simp: load_rr_def o t i(2) [symmetric] i(1) [symmetric] fields_from_def Let_def
        split: option.splits sum.splits)
qed

lemma load_record_text_panics:
  "load_record_text text l = None \<longleftrightarrow> (\<exists>rtype fs. record_fields text = Some (rtype, fs) \<and> rdata_panics rtype fs)"
proof -
  have "prefix ''$'' line" if "prefix ''$ORIGIN'' line \<or> prefix ''$TTL'' line" for line
    using that by (auto simp: prefix_def)
  then show ?thesis
    by (auto simp: load_record_text_def record_fields_def load_rr_panics Let_def split: list.splits)
qed

lemma load_rr_keeps: "load_rr blank ts l = Some l' \<Longrightarrow> l_pending l' = l_pending l \<and> l_open l' = l_open l"
  by (auto simp: load_rr_def Let_def split: if_splits prod.splits sum.splits option.splits)

lemma load_record_text_keeps:
  "load_record_text text l = Some l' \<Longrightarrow> l_pending l' = l_pending l \<and> l_open l' = l_open l"
  by (auto simp: load_record_text_def Let_def dest: load_rr_keeps split: if_splits list.splits)

lemma load_lines_panics:
  "load_lines raws l = None \<longleftrightarrow>
    (\<exists>t\<in>set (logical_records raws (l_pending l) (l_open l)). \<exists>rtype fs. record_fields t = Some (rtype, fs) \<and> rdata_panics rtype fs)"
proof (induction raws arbitrary: l)
  case (Cons raw raws)
  let ?st = "strip_zone_comment raw"
  let ?joined = "l_pending l @ ?st @ '' ''" and ?depth = "l_open l + parenthesis_balance ?st"
  let ?l = "l\<lparr>l_pending := [], l_open := 0\<rparr>"
  show ?case
  proof (cases "l_pending l = [] \<and> trim ?st = [] \<or> 0 < ?depth")
    case True
    then show ?thesis by (auto simp: Cons load_raw_line_def Let_def)
  next
    case False
    then have raw: "load_raw_line raw l = load_record_text ?joined ?l" by (auto simp: load_raw_line_def Let_def)
    show ?thesis
    proof (cases "load_record_text ?joined ?l")
      case None
      then show ?thesis using False load_record_text_panics [of ?joined ?l] by (auto simp: raw Let_def)
    next
      case (Some l')
      then have "l_pending l' = []" "l_open l' = 0" using load_record_text_keeps [OF Some] by simp_all
      then show ?thesis
        using False Some load_record_text_panics [of ?joined ?l] by (auto simp: raw Let_def Cons)
    qed
  qed
qed simp

text \<open>
  Loading a zone file panics exactly when one of its records is an MX record with a preference and
  no exchange, or a DS record whose digest field cuts a character; any other readable file loads.
\<close>

theorem zone_load_panics:
  assumes "files path = Some (str_bytes text)" "utf8_valid (str_bytes text)"
  shows "(load_file files path z = Inl Panicked \<longleftrightarrow>
      (\<exists>t\<in>set (zone_records text). \<exists>rtype fs. record_fields t = Some (rtype, fs) \<and> rdata_panics rtype fs)) \<and>
    load_file files path z \<noteq> Inl Unreadable"
proof -
  have "read_to_string files path = Some text"
    using assms by (simp add: read_to_string_def bytes_str_of_str_bytes del: map_map)
  then show ?thesis
    using load_lines_panics [of "text_lines text" "loader_new z"]
    by (auto simp: load_file_def load_text_def zone_records_def loader_new_def split: option.splits)
qed

lemma one_line_record:
  assumes "is_line ts" "hd (hd ts) \<noteq> CHR ''$''" "2 \<le> length ts" "text_lines (fields_line ts) = [fields_line ts]"
  shows "zone_records (fields_line ts) = [fields_line ts @ '' '']"
    "record_fields (fields_line ts @ '' '') =
      fields_from ts (class_field ts (snd (ttl_field ts (owner_width False ts) 0)))"
proof -
  note ends = fields_line_ends [OF assms(1)]
  have "\<not> prefix ''$'' (fields_line ts)" using assms(2) ends by (cases "fields_line ts") auto
  then show "zone_records (fields_line ts) = [fields_line ts @ '' '']"
    "record_fields (fields_line ts @ '' '') =
      fields_from ts (class_field ts (snd (ttl_field ts (owner_width False ts) 0)))"
    using assms(3,4) ends(1) by (simp_all add: zone_records_def record_fields_def line_scans [OF assms(1)] Let_def)
qed

lemma mx_line: "is_line [''m'', ''MX'', ''10'']" "fields_line [''m'', ''MX'', ''10''] = ''m MX 10''"
  by (simp_all add: is_line_def is_field_def plain_def plain_char_def fields_line_def)

lemma zone_load_panics_witness:
  "load_file (\<lambda>p. Some (str_bytes ''m MX 10'')) ''e.zone'' (zone_new ''e'') = Inl Panicked"
proof -
  let ?ts = "[''m'', ''MX'', ''10'']"
  have "text_lines ''m MX 10'' = [''m MX 10'']" by (simp add: text_lines_def)
  note r = one_line_record [OF mx_line(1), unfolded mx_line(2), OF _ _ this]
  have "parse_u32 ''MX'' = None" "ttl_unit (CHR ''X'') = None" "parse_u16 ''10'' = Some 10"
    by (simp_all add: parse_u32_def parse_u16_def parse_unsigned_def digit_val_def ttl_unit_def)
  moreover have "owner_width False ?ts = 1" "\<not> is_class ''MX''" "to_upper ''MX'' = ''MX''"
    by (simp_all add: owner_width_def is_type_def is_class_def upper_eval)
  ultimately have "record_fields ''m MX 10 '' = Some (''MX'', [''10''])" "rdata_panics ''MX'' [''10'']"
    using r(2) by (simp_all add: ttl_field_def class_field_def fields_from_def rdata_panics_def)
  moreover have "utf8_valid (str_bytes ''m MX 10'')" by (rule utf8_valid_ascii) (auto simp: word_less_nat_alt)
  ultimately show ?thesis
    using zone_load_panics [of "\<lambda>p. Some (str_bytes ''m MX 10'')" "''e.zone''" "''m MX 10''"] r(1) by simp
qed

section \<open>Records read as something else\<close>

lemma unit_words:
  "to_upper ''ns'' = ''NS''" "to_upper ''NS'' = ''NS''" "to_upper ''IN'' = ''IN''" "to_upper ''A'' = ''A''" "to_upper ''@'' = ''@''"
  "parse_u32 ''ns'' = None" "parse_u32 ''NS'' = None" "ttl_unit (CHR ''s'') = Some 1" "ttl_unit (CHR ''S'') = Some 1"
  "parse_ttl ''ns'' = 3600" "parse_ttl ''NS'' = 3600" "is_class ''IN''" "\<not> is_class ''A''"
  by (simp_all add: upper_eval parse_ttl_def parse_u32_def parse_unsigned_def digit_val_def ttl_unit_def is_class_def)

text \<open>
  A host called \<open>ns\<close> is not taken for an owner but, ending in the letter of a second, for a TTL: its
  address goes to the owner of the record before it.
\<close>

lemma owner_named_as_type:
  "load_rr False [''ns'', ''IN'', ''A'', show_ipv4 a] l =
    Some (l\<lparr>l_zone := zone_add \<lparr>r_name = l_last_name l, r_type = A, r_class = 1, r_ttl = 3600, r_rdata = be32 a\<rparr> (l_zone l)\<rparr>)"
proof -
  let ?ts = "[''ns'', ''IN'', ''A'', show_ipv4 a]"
  have "owner_field False ?ts l = (l_last_name l, 0)" by (simp add: owner_field_def is_type_def unit_words)
  moreover have "ttl_field ?ts 0 (l_default_ttl l) = (3600, 1)" by (simp add: ttl_field_def unit_words)
  moreover have "class_field ?ts 1 = 2" by (simp add: class_field_def unit_words)
  moreover have "l\<lparr>l_last_name := l_last_name l\<rparr> = l" by simp
  ultimately show ?thesis by (simp add: load_rr_def Let_def unit_words build_rdata_def str_to_rtype_def)
qed

text \<open>A name server record without a class is dropped: its type is taken for a TTL.\<close>

lemma ns_without_class:
  "load_rr False [''@'', ''NS'', n] l = Some (l\<lparr>l_last_name := l_origin l\<rparr>)"
proof -
  let ?ts = "[''@'', ''NS'', n]"
  have "owner_field False ?ts l = (l_origin l, 1)"
    by (simp add: owner_field_def is_type_def is_class_def unit_words)
  moreover have "ttl_field ?ts 1 (l_default_ttl l) = (3600, 2)" by (simp add: ttl_field_def unit_words)
  ultimately show ?thesis by (simp add: load_rr_def class_field_def Let_def)
qed

end
