(* ===== verification/ConfigFile.thy ===== *)
theory ConfigFile
  imports Config ZoneFile
begin

text \<open>
  The configuration reader of \<open>src/src/config.rs\<close>: its TOML subset, \<open>ServerConfig::load\<close> and the
  retrieval of TSIG secrets.  A panic is \<open>None\<close> for a document and an error of its own for \<open>load\<close>.
\<close>

section \<open>Toml\<close>

datatype TomlVal = TStr string | TInt int | TBool bool | TArray "string list"

type_synonym toml_section = "string \<rightharpoonup> TomlVal"

record toml =
  t_global :: toml_section
  t_sections :: "string \<rightharpoonup> toml_section"

definition toml_default :: toml where
  "toml_default = \<lparr>t_global = Map.empty, t_sections = Map.empty\<rparr>"

fun toml_strip :: "bool \<Rightarrow> string \<Rightarrow> string" where
  "toml_strip in_str [] = []"
| "toml_strip in_str (c # s) =
     (if c = dquote then c # toml_strip (\<not> in_str) s
      else if c = CHR ''#'' \<and> \<not> in_str then []
      else c # toml_strip in_str s)"

definition toml_strip_comment :: "string \<Rightarrow> string" where
  "toml_strip_comment line = toml_strip False line"

definition enclosed :: "char \<Rightarrow> char \<Rightarrow> string \<Rightarrow> bool" where
  "enclosed a b s \<longleftrightarrow> s \<noteq> [] \<and> hd s = a \<and> last s = b"

text \<open>\<open>s[1..s.len()-1]\<close>; on a single character the slice panics.\<close>

definition inner :: "string \<Rightarrow> string" where
  "inner s = butlast (tl s)"

definition parse_value :: "string \<Rightarrow> unit + TomlVal option" where
  "parse_value s =
     (if enclosed dquote dquote s then (if length s = 1 then Inl () else Inr (Some (TStr (inner s))))
      else if s = ''true'' then Inr (Some (TBool True))
      else if s = ''false'' then Inr (Some (TBool False))
      else if enclosed (CHR ''['') (CHR '']'') s then
        Inr (Some (TArray (filter (\<lambda>p. p \<noteq> [])
          (map (\<lambda>p. trim_with (\<lambda>c. c = dquote) (trim p)) (split_on (CHR '','') (inner s))))))
      else case parse_i64 s of Some n \<Rightarrow> Inr (Some (TInt n))
      | None \<Rightarrow> if s \<noteq> [] then Inr (Some (TStr s)) else Inr None)"

definition parse_kv :: "string \<Rightarrow> unit + (string \<times> TomlVal) option" where
  "parse_kv line =
     (case split_once (CHR ''='') line of None \<Rightarrow> Inr None
      | Some (k, v) \<Rightarrow> map_sum id (map_option (Pair (trim k))) (parse_value (trim v)))"

definition toml_insert :: "string option \<Rightarrow> string \<Rightarrow> TomlVal \<Rightarrow> toml \<Rightarrow> toml" where
  "toml_insert current k v t =
     (case current of None \<Rightarrow> t\<lparr>t_global := (t_global t)(k \<mapsto> v)\<rparr>
      | Some sec \<Rightarrow>
          t\<lparr>t_sections := (t_sections t)
              (sec \<mapsto> (case t_sections t sec of None \<Rightarrow> Map.empty | Some m \<Rightarrow> m)(k \<mapsto> v))\<rparr>)"

fun toml_lines :: "string list \<Rightarrow> string option \<Rightarrow> toml \<Rightarrow> toml option" where
  "toml_lines [] current t = Some t"
| "toml_lines (raw # raws) current t =
     (let line = trim (toml_strip_comment raw) in
      if line = [] then toml_lines raws current t
      else if enclosed (CHR ''['') (CHR '']'') line then toml_lines raws (Some (trim (inner line))) t
      else case parse_kv line of
        Inl _ \<Rightarrow> None
      | Inr None \<Rightarrow> toml_lines raws current t
      | Inr (Some (k, v)) \<Rightarrow> toml_lines raws current (toml_insert current k v t))"

definition parse_str :: "string \<Rightarrow> toml option" where
  "parse_str s = toml_lines (text_lines s) None toml_default"

definition toml_get :: "toml \<Rightarrow> string option \<Rightarrow> string \<Rightarrow> TomlVal option" where
  "toml_get t sec key =
     (case sec of None \<Rightarrow> t_global t key
      | Some s \<Rightarrow> (case t_sections t s of None \<Rightarrow> None | Some m \<Rightarrow> m key))"

definition toml_str :: "toml \<Rightarrow> string \<Rightarrow> string \<Rightarrow> string option" where
  "toml_str t sec key = (case toml_get t (Some sec) key of Some (TStr s) \<Rightarrow> Some s | _ \<Rightarrow> None)"

definition toml_int :: "toml \<Rightarrow> string \<Rightarrow> string \<Rightarrow> int option" where
  "toml_int t sec key =
     (case toml_get t (Some sec) key of Some (TInt n) \<Rightarrow> Some n | Some (TStr s) \<Rightarrow> parse_i64 s | _ \<Rightarrow> None)"

definition toml_bool :: "toml \<Rightarrow> string \<Rightarrow> string \<Rightarrow> bool option" where
  "toml_bool t sec key =
     (case toml_get t (Some sec) key of
        Some (TBool b) \<Rightarrow> Some b
      | Some (TStr s) \<Rightarrow> if s = ''true'' then Some True else if s = ''false'' then Some False else None
      | _ \<Rightarrow> None)"

definition toml_array :: "toml \<Rightarrow> string \<Rightarrow> string \<Rightarrow> string list" where
  "toml_array t sec key =
     (case toml_get t (Some sec) key of Some (TArray a) \<Rightarrow> a | Some (TStr s) \<Rightarrow> [s] | _ \<Rightarrow> [])"

section \<open>ServerConfig::load\<close>

datatype config_error = Config_unreadable | Config_panicked | Bad_network string

text \<open>\<open>if let Some(v) = ... { ... }\<close>\<close>

definition if_some :: "'a option \<Rightarrow> ('a \<Rightarrow> 'c \<Rightarrow> 'c) \<Rightarrow> 'c \<Rightarrow> 'c" where
  "if_some v f c = (case v of None \<Rightarrow> c | Some x \<Rightarrow> f x c)"

fun parse_networks :: "string list \<Rightarrow> config_error + network list" where
  "parse_networks [] = Inr []"
| "parse_networks (entry # entries) =
     (case network_parse entry of None \<Rightarrow> Inl (Bad_network entry)
      | Some net \<Rightarrow> map_sum id ((#) net) (parse_networks entries))"

definition load_access :: "toml \<Rightarrow> config_error + network list" where
  "load_access t =
     (if toml_get t (Some ''server'') ''allow_recursion'' \<noteq> None
      then parse_networks (toml_array t ''server'' ''allow_recursion'')
      else Inr (allow_recursion server_config_default))"

definition load_tls :: "toml \<Rightarrow> string \<Rightarrow> tls_listener_config option" where
  "load_tls t sec =
     (case (toml_str t sec ''bind'', toml_str t sec ''cert'', toml_str t sec ''key'') of
        (Some b, Some cert, Some key) \<Rightarrow> Some \<lparr>tls_bind = b, tls_cert_path = cert, tls_key_path = key\<rparr>
      | _ \<Rightarrow> None)"

definition load_tsig :: "toml \<Rightarrow> tsig_key_config list" where
  "load_tsig t =
     (case (toml_str t ''tsig'' ''name'', toml_str t ''tsig'' ''algorithm'') of
        (Some n, Some a) \<Rightarrow>
          (let src = (case toml_str t ''tsig'' ''secret_keychain'' of Some s \<Rightarrow> Some (Keychain s)
                      | None \<Rightarrow> (case toml_str t ''tsig'' ''secret_file'' of Some s \<Rightarrow> Some (File s)
                      | None \<Rightarrow> map_option Inline (toml_str t ''tsig'' ''secret'')))
           in case src of None \<Rightarrow> []
              | Some src \<Rightarrow> [\<lparr>tkc_name = n, tkc_algorithm = a, tkc_source = src\<rparr>])
      | _ \<Rightarrow> [])"

definition or_default :: "'a \<Rightarrow> 'a option \<Rightarrow> 'a" where
  "or_default d v = (case v of Some x \<Rightarrow> x | None \<Rightarrow> d)"

definition load_rate_limit :: "toml \<Rightarrow> rate_limit_config option" where
  "load_rate_limit t =
     (let per_source = toml_int t ''ratelimit'' ''queries_per_second'';
          global = toml_int t ''ratelimit'' ''global_queries_per_second''
      in if per_source \<noteq> None \<or> global \<noteq> None
         then Some \<lparr>queries_per_second = word_of_int (max 0 (or_default 0 per_source)),
                    per_ip = or_default True (toml_bool t ''ratelimit'' ''per_ip''),
                    global_queries_per_second = word_of_int (max 0 (or_default 0 global)),
                    max_tracked_sources =
                      word_of_int (max 1 (or_default 100000 (toml_int t ''ratelimit'' ''max_tracked_sources'')))\<rparr>
         else None)"

definition load_scalars :: "toml \<Rightarrow> server_config \<Rightarrow> server_config" where
  "load_scalars t =
     if_some (toml_int t ''metrics'' ''port'') (\<lambda>v c. c\<lparr>metrics_port := word_of_int v\<rparr>) \<circ>
     if_some (toml_int t ''server'' ''udp_receivers'') (\<lambda>v c. c\<lparr>udp_receivers := word_of_int v\<rparr>) \<circ>
     if_some (toml_int t ''server'' ''worker_threads'') (\<lambda>v c. c\<lparr>worker_threads := word_of_int v\<rparr>) \<circ>
     if_some (toml_int t ''server'' ''tcp_timeout_ms'') (\<lambda>v c. c\<lparr>tcp_timeout_ms := word_of_int v\<rparr>) \<circ>
     if_some (toml_bool t ''server'' ''log_queries'') (\<lambda>v c. c\<lparr>log_queries := v\<rparr>) \<circ>
     if_some (toml_str t ''server'' ''log_level'') (\<lambda>v c. c\<lparr>log_level := v\<rparr>) \<circ>
     if_some (toml_int t ''cache'' ''neg_ttl'') (\<lambda>v c. c\<lparr>neg_cache_ttl := word_of_int v\<rparr>) \<circ>
     if_some (toml_int t ''cache'' ''max_entries'') (\<lambda>v c. c\<lparr>cache_max := word_of_int v\<rparr>) \<circ>
     if_some (toml_bool t ''server'' ''dnssec_strict'') (\<lambda>v c. c\<lparr>dnssec_strict := v\<rparr>) \<circ>
     if_some (toml_bool t ''server'' ''dnssec_validate'') (\<lambda>v c. c\<lparr>dnssec_validate := v\<rparr>) \<circ>
     if_some (toml_bool t ''server'' ''use_forwarders'') (\<lambda>v c. c\<lparr>c_use_forwarders := v\<rparr>) \<circ>
     if_some (toml_int t ''server'' ''port'') (\<lambda>v c. c\<lparr>c_port := word_of_int v\<rparr>) \<circ>
     if_some (toml_str t ''server'' ''bind'') (\<lambda>v c. c\<lparr>c_bind := v\<rparr>)"

definition apply_toml :: "toml \<Rightarrow> config_error + server_config" where
  "apply_toml t =
     (case load_access t of Inl e \<Rightarrow> Inl e
      | Inr nets \<Rightarrow>
          (let c = (load_scalars t server_config_default)\<lparr>allow_recursion := nets\<rparr>;
               c = if_some (load_tls t ''dot'') (\<lambda>v c. c\<lparr>c_dot := Some v\<rparr>) c;
               c = if_some (load_tls t ''doh'') (\<lambda>v c. c\<lparr>c_doh := Some v\<rparr>) c;
               c = c\<lparr>c_tsig_keys := c_tsig_keys c @ load_tsig t\<rparr>;
               c = if_some (toml_bool t ''tsig'' ''require_all_queries'') (\<lambda>v c. c\<lparr>tsig_require_all := v\<rparr>) c;
               c = c\<lparr>zone_files := toml_array t ''zones'' ''files''\<rparr>
           in Inr (if_some (load_rate_limit t) (\<lambda>v c. c\<lparr>c_rate_limit := Some v\<rparr>) c)))"

definition config_load :: "files \<Rightarrow> string \<Rightarrow> config_error + server_config" where
  "config_load files path =
     (case read_to_string files path of None \<Rightarrow> Inl Config_unreadable
      | Some content \<Rightarrow> (case parse_str content of None \<Rightarrow> Inl Config_panicked | Some t \<Rightarrow> apply_toml t))"

definition bind_addr :: "server_config \<Rightarrow> string" where
  "bind_addr c =
     (if CHR '':'' \<in> set (c_bind c) \<and> hd (c_bind c) \<noteq> CHR ''[''
      then ''['' @ c_bind c @ '']:'' @ show_nat (unat (c_port c))
      else c_bind c @ '':'' @ show_nat (unat (c_port c)))"

text \<open>The secret of a key; the \<open>base64\<close> crate and the key chain programs are arguments.\<close>

definition resolve_secret :: "files \<Rightarrow> (string \<Rightarrow> string option) \<Rightarrow> (string \<Rightarrow> u8 list option) \<Rightarrow>
    tsig_secret_source \<Rightarrow> u8 list option" where
  "resolve_secret files keychain b64 src =
     (case (case src of Inline s \<Rightarrow> Some s | File path \<Rightarrow> map_option trim (read_to_string files path)
            | Keychain service \<Rightarrow> keychain service) of
        None \<Rightarrow> None | Some text \<Rightarrow> b64 text)"

end
