(* ===== verification/ConfigText.thy ===== *)
theory ConfigText
  imports ConfigFile ZoneText
begin

text \<open>
  What a configuration file means: documents written section by section read back as their
  assignments, and the access list a file gives is the one it spells out.
\<close>

section \<open>The default networks\<close>

text \<open>The default ranges are the ones that the texts in \<open>config.rs\<close> denote.\<close>

lemmas net_eval = network_parse_def parse_ip_def read_ipv4_def read_number_def read_separator_def read_given_def
  digit_val_def read_ipv6_def at_end_def digits_word_def parse_u8_def parse_unsigned_def trim_eval

lemma replicate_numeral_eq: "replicate (numeral k) x = x # replicate (pred_numeral k) x"
  by (simp add: numeral_eq_Suc)

lemma default_v4:
  "network_parse ''127.0.0.0/8'' = Some \<lparr>n_address = V4 0x7F000000, n_prefix = 8\<rparr>"
  "network_parse ''10.0.0.0/8'' = Some \<lparr>n_address = V4 0x0A000000, n_prefix = 8\<rparr>"
  "network_parse ''172.16.0.0/12'' = Some \<lparr>n_address = V4 0xAC100000, n_prefix = 12\<rparr>"
  "network_parse ''192.168.0.0/16'' = Some \<lparr>n_address = V4 0xC0A80000, n_prefix = 16\<rparr>"
  "network_parse ''169.254.0.0/16'' = Some \<lparr>n_address = V4 0xA9FE0000, n_prefix = 16\<rparr>"
  "network_parse ''100.64.0.0/10'' = Some \<lparr>n_address = V4 0x64400000, n_prefix = 10\<rparr>"
  by (simp_all add: net_eval)

lemma default_v6:
  "network_parse ''::1/128'' = Some \<lparr>n_address = V6 1, n_prefix = 128\<rparr>"
  "network_parse ''fc00::/7'' = Some \<lparr>n_address = V6 (push_bit 112 0xFC00), n_prefix = 7\<rparr>"
  "network_parse ''fe80::/10'' = Some \<lparr>n_address = V6 (push_bit 112 0xFE80), n_prefix = 10\<rparr>"
  by (simp_all add: net_eval read_groups_numeral replicate_numeral_eq)

lemma default_networks_text:
  "map Some DEFAULT_ALLOW_RECURSION = map network_parse
     [''127.0.0.0/8'', ''10.0.0.0/8'', ''172.16.0.0/12'', ''192.168.0.0/16'', ''169.254.0.0/16'', ''100.64.0.0/10'',
      ''::1/128'', ''fc00::/7'', ''fe80::/10'']"
  by (simp add: DEFAULT_ALLOW_RECURSION_def default_v4 default_v6)

section \<open>The access list of a file\<close>

lemma parse_networks_ok:
  "parse_networks es = Inr nets \<Longrightarrow> map Some nets = map network_parse es \<and> list_all wf_network nets"
proof (induction es arbitrary: nets)
  case (Cons e es)
  then show ?case
    using network_parse_wf by (cases "parse_networks es") (auto split: option.splits)
qed simp

lemma parse_networks_fails: "parse_networks es = Inl err \<Longrightarrow> \<exists>e\<in>set es. network_parse e = None \<and> err = Bad_network e"
proof (induction es)
  case (Cons e es)
  then show ?case by (cases "parse_networks es") (auto split: option.splits)
qed simp

lemma parse_networks_contains:
  assumes "parse_networks es = Inr nets"
  shows "list_ex (\<lambda>net. net_contains net ip) nets \<longleftrightarrow>
    (\<exists>e\<in>set es. \<exists>net. network_parse e = Some net \<and>
      same_prefix (unat (n_prefix net)) (n_address net) (to_canonical ip))"
  using assms
proof (induction es arbitrary: nets)
  case (Cons e es)
  then show ?case
    using network_parse_wf net_contains_prefix by (cases "parse_networks es") (auto split: option.splits)
qed simp

section \<open>Documents\<close>

type_synonym document = "(string \<times> (string \<times> TomlVal) list) list"

fun print_value :: "TomlVal \<Rightarrow> string" where
  "print_value (TStr s) = enquote s"
| "print_value (TInt n) = (if n < 0 then CHR ''-'' # show_nat (nat (- n)) else show_nat (nat n))"
| "print_value (TBool b) = (if b then ''true'' else ''false'')"
| "print_value (TArray ss) = CHR ''['' # join_on (CHR '','') (map enquote ss) @ '']''"

definition print_kv :: "string \<times> TomlVal \<Rightarrow> string" where
  "print_kv kv = fst kv @ '' = '' @ print_value (snd kv)"

definition print_header :: "string \<Rightarrow> string" where
  "print_header sec = CHR ''['' # sec @ '']''"

definition document_text :: "document \<Rightarrow> string" where
  "document_text doc = unlines (concat (map (\<lambda>(sec, kvs). print_header sec # map print_kv kvs) doc))"

text \<open>The assignments, in order; the last one to a key holds.\<close>

definition document_toml :: "document \<Rightarrow> toml" where
  "document_toml doc = fold (\<lambda>(sec, kvs). fold (\<lambda>(k, v). toml_insert (Some sec) k v) kvs) doc toml_default"

definition word_char :: "char \<Rightarrow> bool" where
  "word_char c \<longleftrightarrow> graphic c \<and> c \<notin> {dquote, CHR ''#'', CHR ''='', CHR '','', CHR ''['', CHR '']''}"

definition text_char :: "char \<Rightarrow> bool" where
  "text_char c \<longleftrightarrow> (graphic c \<or> c = CHR '' '') \<and> c \<noteq> dquote"

definition word_ok :: "string \<Rightarrow> bool" where
  "word_ok s \<longleftrightarrow> s \<noteq> [] \<and> list_all word_char s"

fun value_ok :: "TomlVal \<Rightarrow> bool" where
  "value_ok (TStr s) = list_all text_char s"
| "value_ok (TInt n) = (- (2 ^ 63) \<le> n \<and> n < 2 ^ 63)"
| "value_ok (TBool b) = True"
| "value_ok (TArray ss) = list_all (\<lambda>s. s \<noteq> [] \<and> list_all text_char s \<and> CHR '','' \<notin> set s) ss"

definition document_ok :: "document \<Rightarrow> bool" where
  "document_ok doc \<longleftrightarrow> list_all (\<lambda>(sec, kvs). word_ok sec \<and> list_all (\<lambda>(k, v). word_ok k \<and> value_ok v) kvs) doc"

section \<open>Reading a value\<close>

lemma toml_strip_plain: "list_all (\<lambda>c. c \<noteq> dquote \<and> c \<noteq> CHR ''#'') t \<Longrightarrow> toml_strip False (t @ r) = t @ toml_strip False r"
  by (induction t) auto

lemma toml_strip_quoted: "list_all (\<lambda>c. c \<noteq> dquote) s \<Longrightarrow> toml_strip True (s @ r) = s @ toml_strip True r"
  by (induction s) auto

lemma toml_strip_enquote: "list_all text_char s \<Longrightarrow> toml_strip False (enquote s @ r) = enquote s @ toml_strip False r"
  using toml_strip_quoted [of s "dquote # r"] by (auto simp: enquote_def text_char_def list_all_iff)

lemma toml_strip_value: "value_ok v \<Longrightarrow> toml_strip False (print_value v) = print_value v"
proof (cases v)
  case (TStr s)
  then show "value_ok v \<Longrightarrow> ?thesis" using toml_strip_enquote [of s "[]"] by simp
next
  case (TInt n)
  have "list_all (\<lambda>c. c \<noteq> dquote \<and> c \<noteq> CHR ''#'') (show_nat m)" for m
    using show_nat_digit [of _ m] by (fastforce simp: list_all_iff)
  then show ?thesis using toml_strip_plain [of "show_nat m" "[]" for m] by (simp add: TInt)
next
  case (TArray ss)
  have strip: "toml_strip False (join_on (CHR '','') (map enquote ss) @ r) = join_on (CHR '','') (map enquote ss) @ toml_strip False r"
    if "list_all (list_all text_char) ss" for r
    using that
  proof (induction ss)
    case (Cons s ss)
    then show ?case by (cases ss) (simp_all add: toml_strip_enquote)
  qed simp
  show "value_ok v \<Longrightarrow> ?thesis"
    using strip [of "'']''"] by (simp add: TArray list_all_iff)
qed simp_all

lemma trim_spaces:
  assumes "s \<noteq> []" "graphic (hd s)" "graphic (last s)" "list_all (\<lambda>c. graphic c \<or> c = CHR '' '') s"
  shows "trim s = s" "trim (CHR '' '' # s) = s" "trim (s @ '' '') = s"
proof -
  have "ascii s" using assms(4) by (fastforce simp: ascii_def list_all_iff)
  then have chars: "chars s = singles s" "chars (s @ '' '') = singles s @ ['' '']"
    "chars (CHR '' '' # s) = ['' ''] @ singles s @ []"
    by (simp_all add: chars_ascii chars_ascii_append utf8_width_def)
  have "trim_with is_white (xs @ singles s @ ys) = singles s" if "list_all is_white xs" "list_all is_white ys" for xs ys
    using that assms(1-3) by (intro trim_with_append) (auto simp: hd_map last_map)
  note t = this
  have "concat (singles s) = s" using chars(1) concat_chars [of s] by simp
  with t [of "[]" "[]"] t [of "['' '']" "[]"] t [of "[]" "['' '']"]
  show "trim s = s" "trim (CHR '' '' # s) = s" "trim (s @ '' '') = s"
    by (simp_all add: trim_def chars(1,2) chars_ascii \<open>ascii s\<close> utf8_width_def)
qed

text \<open>What the printed words and values look like to \<open>trim\<close> and \<open>split_once\<close>.\<close>

definition printable :: "string \<Rightarrow> bool" where
  "printable s \<longleftrightarrow> s \<noteq> [] \<and> graphic (hd s) \<and> graphic (last s) \<and> list_all (\<lambda>c. graphic c \<or> c = CHR '' '') s"

lemma printable_trim:
  "printable s \<Longrightarrow> trim s = s" "printable s \<Longrightarrow> trim (CHR '' '' # s) = s" "printable s \<Longrightarrow> trim (s @ '' '') = s"
  by (auto simp: printable_def intro!: trim_spaces)

lemma printable_graphic: "s \<noteq> [] \<Longrightarrow> list_all graphic s \<Longrightarrow> printable s"
  by (auto simp: printable_def list_all_iff)

lemma printable_word: "word_ok s \<Longrightarrow> printable s"
  by (intro printable_graphic) (auto simp: word_ok_def word_char_def list_all_iff)

lemma printable_enquote: "list_all text_char s \<Longrightarrow> printable (enquote s)"
  by (auto simp: printable_def enquote_def text_char_def list_all_iff)

lemma printable_join:
  assumes "list_all printable xs" "xs \<noteq> []"
  shows "printable (join_on (CHR '','') xs)"
  using assms
proof (induction xs)
  case (Cons x xs)
  then show ?case by (cases xs) (auto simp: printable_def)
qed simp

lemma show_nat_graphic: "list_all graphic (show_nat n)"
  using show_nat_digit [of _ n] by (fastforce simp: list_all_iff)

lemma printable_value: "value_ok v \<Longrightarrow> printable (print_value v)"
proof (cases v)
  case (TInt n)
  then show ?thesis using show_nat_graphic by (auto intro!: printable_graphic)
next
  case (TArray ss)
  assume "value_ok v"
  then have "list_all printable (map enquote ss)" by (auto simp: TArray list_all_iff printable_enquote)
  then have "ss = [] \<or> printable (join_on (CHR '','') (map enquote ss))" using printable_join by fastforce
  then show ?thesis by (auto simp: TArray printable_def)
qed (auto intro: printable_enquote printable_graphic)

lemma trim_with_enquote: "list_all text_char s \<Longrightarrow> trim_with (\<lambda>c. c = dquote) (enquote s) = s"
  using trim_with_append [of "\<lambda>c. c = dquote" "[dquote]" "[dquote]" s]
  by (cases "s = []") (auto simp: enquote_def text_char_def list_all_iff)

lemma parse_i64_show: "- (2 ^ 63) \<le> n \<Longrightarrow> n < 2 ^ 63 \<Longrightarrow> parse_i64 (print_value (TInt n)) = Some n"
proof (cases "n < 0")
  case True
  assume "- (2 ^ 63) \<le> n"
  then have "nat (- n) \<le> 2 ^ 63" by simp
  then show ?thesis using True digits_val_show [of 10 "nat (- n)"] by (simp add: parse_i64_def)
next
  case False
  assume "n < 2 ^ 63"
  then have "nat n < 2 ^ 63" using False by simp
  then have "parse_unsigned 10 (2 ^ 63) (show_nat (nat n)) = Some (nat n)" by (rule parse_unsigned_show_nat)
  moreover obtain c r where "show_nat (nat n) = c # r" using show_digits_not_Nil by (cases "show_nat (nat n)") auto
  moreover from this have "c \<noteq> CHR ''-''" using show_nat_digit [of c "nat n"] by auto
  ultimately show ?thesis using False by (simp add: parse_i64_def)
qed

lemma parse_value_int:
  assumes "value_ok (TInt n)"
  shows "parse_value (print_value (TInt n)) = Inr (Some (TInt n))"
proof -
  let ?s = "print_value (TInt n)"
  obtain c r where cr: "?s = c # r" "c = CHR ''-'' \<or> 48 \<le> (of_char c :: nat) \<and> (of_char c :: nat) \<le> 57"
  proof (cases "n < 0")
    case False
    then show ?thesis using that show_digits_not_Nil [of 10 "nat n"] show_nat_digit [of "hd ?s" "nat n"]
      by (cases ?s) simp_all
  qed (use that in simp)
  then have "c \<noteq> dquote" "c \<noteq> CHR ''[''" "c \<noteq> CHR ''t''" "c \<noteq> CHR ''f''" by auto
  moreover have "parse_i64 ?s = Some n" using assms by (intro parse_i64_show) simp_all
  ultimately show ?thesis using cr(1) by (simp add: parse_value_def enclosed_def del: print_value.simps)
qed

lemma parse_value_array:
  assumes "value_ok (TArray ss)"
  shows "parse_value (print_value (TArray ss)) = Inr (Some (TArray ss))"
proof -
  have ss: "s \<noteq> []" "list_all text_char s" "CHR '','' \<notin> set s" if "s \<in> set ss" for s
    using assms that by (auto simp: list_all_iff)
  have "map (\<lambda>p. trim_with (\<lambda>c. c = dquote) (trim p)) (map enquote ss) = ss"
    using ss(2) by (induction ss) (simp_all add: printable_trim printable_enquote trim_with_enquote)
  moreover have "filter (\<lambda>p. p \<noteq> []) ss = ss" using ss(1) by (simp add: filter_id_conv)
  moreover have "CHR '','' \<notin> set x" if "x \<in> set (map enquote ss)" for x
    using that ss(3) by (auto simp: enquote_def)
  then have "ss \<noteq> [] \<Longrightarrow> split_on (CHR '','') (join_on (CHR '','') (map enquote ss)) = map enquote ss"
    by (intro split_on_join_on) simp_all
  ultimately show ?thesis
    by (cases "ss = []") (simp_all add: parse_value_def enclosed_def inner_def trim_def trim_with_def)
qed

lemma parse_value_print: "value_ok v \<Longrightarrow> parse_value (print_value v) = Inr (Some v)"
proof (cases v)
  case (TStr s)
  then show ?thesis by (simp add: parse_value_def enclosed_def enquote_def inner_def)
next
  case (TBool b)
  then show ?thesis by (cases b) (simp_all add: parse_value_def enclosed_def)
qed (auto intro: parse_value_int parse_value_array simp del: print_value.simps value_ok.simps)

section \<open>Reading a document\<close>

lemma parse_kv_print:
  assumes "word_ok k" "value_ok v"
  shows "parse_kv (print_kv (k, v)) = Inr (Some (k, v))"
proof -
  have "CHR ''='' \<notin> set (k @ '' '')" using assms(1) by (auto simp: word_ok_def word_char_def list_all_iff)
  then have "split_once (CHR ''='') (print_kv (k, v)) = Some (k @ '' '', CHR '' '' # print_value v)"
    using split_once_append [of "CHR ''=''" "k @ '' ''"] by (simp add: print_kv_def)
  then show ?thesis
    using assms by (simp add: parse_kv_def printable_trim printable_word printable_value parse_value_print)
qed

lemma printable_kv: "word_ok k \<Longrightarrow> value_ok v \<Longrightarrow> printable (print_kv (k, v))"
  using printable_word [of k] printable_value [of v] by (auto simp: print_kv_def printable_def)

lemma printable_header: "word_ok sec \<Longrightarrow> printable (print_header sec)"
  by (intro printable_graphic) (auto simp: print_header_def word_ok_def word_char_def list_all_iff)

lemma strip_kv: "word_ok k \<Longrightarrow> value_ok v \<Longrightarrow> toml_strip_comment (print_kv (k, v)) = print_kv (k, v)"
  using toml_strip_plain [of "k @ '' = ''" "print_value v"]
  by (auto simp: toml_strip_comment_def print_kv_def toml_strip_value word_ok_def word_char_def list_all_iff)

lemma strip_header: "word_ok sec \<Longrightarrow> toml_strip_comment (print_header sec) = print_header sec"
  using toml_strip_plain [of "print_header sec" "[]"]
  by (auto simp: toml_strip_comment_def print_header_def word_ok_def word_char_def list_all_iff)

lemma kv_not_enclosed: "word_ok k \<Longrightarrow> \<not> enclosed (CHR ''['') (CHR '']'') (print_kv (k, v))"
  by (cases k) (auto simp: enclosed_def print_kv_def word_ok_def word_char_def)

lemma toml_lines_kvs:
  assumes "list_all (\<lambda>(k, v). word_ok k \<and> value_ok v) kvs"
  shows "toml_lines (map print_kv kvs @ raws) (Some sec) t =
    toml_lines raws (Some sec) (fold (\<lambda>(k, v). toml_insert (Some sec) k v) kvs t)"
  using assms
proof (induction kvs arbitrary: t)
  case (Cons kv kvs)
  obtain k v where kv: "kv = (k, v)" "word_ok k" "value_ok v" using Cons.prems by (cases kv) auto
  then have "print_kv (k, v) \<noteq> []" using printable_kv by (simp add: printable_def)
  then show ?case using Cons kv
    by (simp add: strip_kv printable_trim printable_kv kv_not_enclosed parse_kv_print)
qed simp

lemma toml_lines_section:
  assumes "word_ok sec" "list_all (\<lambda>(k, v). word_ok k \<and> value_ok v) kvs"
  shows "toml_lines (print_header sec # map print_kv kvs @ raws) cur t =
    toml_lines raws (Some sec) (fold (\<lambda>(k, v). toml_insert (Some sec) k v) kvs t)"
proof -
  have "enclosed (CHR ''['') (CHR '']'') (print_header sec)" "inner (print_header sec) = sec" "print_header sec \<noteq> []"
    by (simp_all add: enclosed_def inner_def print_header_def)
  then show ?thesis using assms
    by (simp add: strip_header printable_trim printable_header printable_word toml_lines_kvs)
qed

lemma toml_lines_document:
  assumes "document_ok doc"
  shows "toml_lines (concat (map (\<lambda>(sec, kvs). print_header sec # map print_kv kvs) doc)) cur t =
    Some (fold (\<lambda>(sec, kvs). fold (\<lambda>(k, v). toml_insert (Some sec) k v) kvs) doc t)"
  using assms
proof (induction doc arbitrary: cur t)
  case (Cons d doc)
  obtain sec kvs where "d = (sec, kvs)" by (cases d)
  then show ?case using Cons toml_lines_section [of sec kvs] by (simp add: document_ok_def)
qed simp

lemma document_lines:
  assumes "document_ok doc" "l \<in> set (concat (map (\<lambda>(sec, kvs). print_header sec # map print_kv kvs) doc))"
  shows "printable l"
  using assms printable_header printable_kv by (fastforce simp: document_ok_def list_all_iff)

lemma document_reads:
  assumes "document_ok doc"
  shows "parse_str (document_text doc) = Some (document_toml doc)"
    "files path = Some (str_bytes (document_text doc)) \<Longrightarrow> read_to_string files path = Some (document_text doc)"
proof -
  let ?ls = "concat (map (\<lambda>(sec, kvs). print_header sec # map print_kv kvs) doc)"
  have graphic: "graphic c \<or> c = CHR '' ''" if "l \<in> set ?ls" "c \<in> set l" for l c
    using document_lines [OF assms that(1)] that(2) by (auto simp: printable_def list_all_iff)
  have "text_lines (document_text doc) = ?ls"
    unfolding document_text_def by (rule read_lines(2)) (rule graphic)
  then show "parse_str (document_text doc) = Some (document_toml doc)"
    using toml_lines_document [OF assms, of None toml_default] by (simp add: parse_str_def document_toml_def)
  show "files path = Some (str_bytes (document_text doc)) \<Longrightarrow> read_to_string files path = Some (document_text doc)"
    unfolding document_text_def by (rule read_lines(1)) (rule graphic)
qed

text \<open>What a document assigns: the last value given to a key in sections of a name.\<close>

definition assignments :: "document \<Rightarrow> ((string \<times> string) \<times> TomlVal) list" where
  "assignments doc = concat (map (\<lambda>(sec, kvs). map (\<lambda>(k, v). ((sec, k), v)) kvs) doc)"

definition written :: "document \<Rightarrow> string \<Rightarrow> string \<Rightarrow> TomlVal option" where
  "written doc sec key = map_of (rev (assignments doc)) (sec, key)"

lemma toml_get_insert:
  "toml_get (toml_insert (Some sec) k v t) (Some s) key = (if s = sec \<and> key = k then Some v else toml_get t (Some s) key)"
  by (auto simp: toml_get_def toml_insert_def split: option.splits)

lemma toml_get_fold:
  "toml_get (fold (\<lambda>((sec, k), v). toml_insert (Some sec) k v) as t) (Some s) key =
    (case map_of (rev as) (s, key) of Some v \<Rightarrow> Some v | None \<Rightarrow> toml_get t (Some s) key)"
proof (induction as rule: rev_induct)
  case (snoc a as)
  obtain sec k v where "a = ((sec, k), v)" by (metis surj_pair)
  then show ?case using snoc by (auto simp: toml_get_insert)
qed simp

lemma document_toml_fold: "document_toml doc = fold (\<lambda>((sec, k), v). toml_insert (Some sec) k v) (assignments doc) toml_default"
proof -
  have "fold (\<lambda>((sec, k), v). toml_insert (Some sec) k v) (map (\<lambda>(k, v). ((sec, k), v)) kvs) t =
      fold (\<lambda>(k, v). toml_insert (Some sec) k v) kvs t" for sec kvs t
    by (induction kvs arbitrary: t) auto
  then have "fold (\<lambda>(sec, kvs). fold (\<lambda>(k, v). toml_insert (Some sec) k v) kvs) doc t =
      fold (\<lambda>((sec, k), v). toml_insert (Some sec) k v) (assignments doc) t" for t
    by (induction doc arbitrary: t) (auto simp: assignments_def)
  then show ?thesis by (simp add: document_toml_def)
qed

lemma document_get: "toml_get (document_toml doc) (Some sec) key = written doc sec key"
  unfolding document_toml_fold toml_get_fold written_def
  by (simp add: toml_get_def toml_default_def split: option.split)

section \<open>Loading\<close>

lemma allow_recursion_if_some:
  "(\<And>x c. allow_recursion (f x c) = allow_recursion c) \<Longrightarrow> allow_recursion (if_some v f c) = allow_recursion c"
  by (simp add: if_some_def split: option.split)

lemma apply_toml_access: "map_sum id allow_recursion (apply_toml t) = load_access t"
proof -
  note keep = allow_recursion_if_some [of "\<lambda>v c. c\<lparr>c_dot := Some v\<rparr>"] allow_recursion_if_some [of "\<lambda>v c. c\<lparr>c_doh := Some v\<rparr>"]
    allow_recursion_if_some [of "\<lambda>v c. c\<lparr>tsig_require_all := v\<rparr>"] allow_recursion_if_some [of "\<lambda>v c. c\<lparr>c_rate_limit := Some v\<rparr>"]
  show ?thesis by (simp add: apply_toml_def keep Let_def split: sum.split)
qed

lemma config_document:
  assumes "document_ok doc" "files path = Some (str_bytes (document_text doc))"
  shows "config_load files path = apply_toml (document_toml doc)"
  using document_reads [OF assms(1)] assms(2) by (simp add: config_load_def)

lemma zone_files_if_some:
  "(\<And>x c. zone_files (f x c) = zone_files c) \<Longrightarrow> zone_files (if_some v f c) = zone_files c"
  by (simp add: if_some_def split: option.split)

lemma apply_toml_zone_files: "apply_toml t = Inr c \<Longrightarrow> zone_files c = toml_array t ''zones'' ''files''"
  by (auto simp: apply_toml_def Let_def zone_files_if_some split: sum.splits)



text \<open>What the rest of the program relies on in a configuration.\<close>

definition wf_config :: "server_config \<Rightarrow> bool" where
  "wf_config c \<longleftrightarrow> list_all wf_network (allow_recursion c) \<and>
     (case c_rate_limit c of None \<Rightarrow> True | Some rl \<Rightarrow> 1 \<le> max_tracked_sources rl)"

lemma wf_config_default: "wf_config server_config_default"
  by (simp add: wf_config_def server_config_default_def DEFAULT_ALLOW_RECURSION_def wf_network_def)

lemma load_access_wf: "load_access t = Inr nets \<Longrightarrow> list_all wf_network nets"
  using wf_config_default parse_networks_ok by (auto simp: load_access_def wf_config_def split: if_splits)

text \<open>Integers of a document are \<open>i64\<close> values.\<close>

definition i64_range :: "int \<Rightarrow> bool" where
  "i64_range n \<longleftrightarrow> - (2 ^ 63) \<le> n \<and> n < 2 ^ 63"

definition wf_toml :: "toml \<Rightarrow> bool" where
  "wf_toml t \<longleftrightarrow> (\<forall>sec key n. toml_get t sec key = Some (TInt n) \<longrightarrow> i64_range n)"

lemma parse_i64_range:
  assumes "parse_i64 s = Some n"
  shows "i64_range n"
proof -
  obtain c r where s: "s = c # r" using assms by (cases s) (simp_all add: parse_i64_def)
  show ?thesis
  proof (cases "c = CHR ''-''")
    case True
    then obtain m where "m \<le> 2 ^ 63" "n = - int m"
      using assms by (auto simp: s parse_i64_def split: if_splits option.splits)
    then show ?thesis by (simp add: i64_range_def)
  next
    case False
    then obtain m where "parse_unsigned 10 (2 ^ 63) s = Some m" "n = int m"
      using assms unfolding s parse_i64_def by auto
    moreover from this have "m < 2 ^ 63" by (intro parse_unsigned_bound)
    ultimately show ?thesis by (simp add: i64_range_def)
  qed
qed

lemma parse_kv_range: "parse_kv line = Inr (Some (k, TInt n)) \<Longrightarrow> i64_range n"
  by (auto simp: parse_kv_def parse_value_def parse_i64_range map_sum_def
      split: option.splits sum.splits if_splits)

lemma wf_toml_insert:
  assumes "wf_toml t" "\<And>n. v = TInt n \<Longrightarrow> i64_range n"
  shows "wf_toml (toml_insert cur k v t)"
  unfolding wf_toml_def
proof (intro allI impI)
  fix sec key n
  assume got: "toml_get (toml_insert cur k v t) sec key = Some (TInt n)"
  consider "v = TInt n" | "toml_get t sec key = Some (TInt n)"
    using got by (cases cur; cases sec) (auto simp: toml_get_def toml_insert_def split: option.splits if_splits)
  then show "i64_range n" using assms by cases (auto simp: wf_toml_def)
qed

lemma wf_toml_lines: "toml_lines raws cur t = Some t' \<Longrightarrow> wf_toml t \<Longrightarrow> wf_toml t'"
proof (induction raws cur t rule: toml_lines.induct)
  case (2 raw raws cur t)
  let ?line = "trim (toml_strip_comment raw)"
  consider "?line = [] \<or> enclosed (CHR ''['') (CHR '']'') ?line"
    | "?line \<noteq> []" "\<not> enclosed (CHR ''['') (CHR '']'') ?line" by blast
  then show ?case
  proof cases
    case 1
    then show ?thesis using 2 by (auto simp: Let_def split: if_splits)
  next
    case line: 2
    then consider "parse_kv ?line = Inr None" | k v where "parse_kv ?line = Inr (Some (k, v))"
      using "2.prems"(1) by (cases "parse_kv ?line" rule: sum.exhaust) (auto simp: Let_def split: option.splits)
    then show ?thesis
    proof cases
      case 2
      then have "wf_toml (toml_insert cur k v t)" using "2.prems"(2) parse_kv_range by (auto intro: wf_toml_insert)
      then show ?thesis using "2.IH"(4) "2.prems"(1) line 2 by (simp add: Let_def)
    qed (use "2.IH"(3) "2.prems" line in \<open>simp add: Let_def\<close>)
  qed
qed simp

lemma wf_toml_parse: "parse_str s = Some t \<Longrightarrow> wf_toml t"
  unfolding parse_str_def by (erule wf_toml_lines) (simp add: wf_toml_def toml_get_def toml_default_def split: option.split)

lemma toml_int_range: "wf_toml t \<Longrightarrow> toml_int t sec key = Some n \<Longrightarrow> i64_range n"
  by (auto simp: toml_int_def wf_toml_def parse_i64_range split: option.splits TomlVal.splits)

lemma load_rate_limit_wf:
  assumes "wf_toml t" "load_rate_limit t = Some rl"
  shows "1 \<le> max_tracked_sources rl"
proof -
  have "1 \<le> (word_of_int m :: u64)" if "1 \<le> m" "m < 2 ^ 63" for m
    using that by (simp add: word_le_def uint_word_of_int)
  moreover have "max 1 (or_default 100000 (toml_int t ''ratelimit'' ''max_tracked_sources'')) < 2 ^ 63"
    using toml_int_range [OF assms(1)] by (auto simp: or_default_def i64_range_def split: option.split)
  ultimately show ?thesis
    using assms(2) by (auto simp: load_rate_limit_def Let_def split: if_splits)
qed

lemma c_rate_limit_if_some:
  "(\<And>x c. c_rate_limit (f x c) = c_rate_limit c) \<Longrightarrow> c_rate_limit (if_some v f c) = c_rate_limit c"
  by (simp add: if_some_def split: option.split)

lemma c_rate_limit_set:
  "c_rate_limit (if_some v (\<lambda>v c. c\<lparr>c_rate_limit := Some v\<rparr>) c) = (case v of None \<Rightarrow> c_rate_limit c | Some _ \<Rightarrow> v)"
  by (simp add: if_some_def split: option.split)

lemma apply_toml_rate_limit: "apply_toml t = Inr c \<Longrightarrow> c_rate_limit c = load_rate_limit t"
proof -
  note keep = c_rate_limit_if_some
  have "c_rate_limit (load_scalars t server_config_default) = None"
    by (simp add: load_scalars_def keep) (simp add: server_config_default_def)
  then show "apply_toml t = Inr c \<Longrightarrow> c_rate_limit c = load_rate_limit t"
    by (auto simp: apply_toml_def Let_def keep c_rate_limit_set split: sum.splits option.splits)
qed

lemma config_wf:
  assumes "config_load files path = Inr c"
  shows "wf_config c"
proof -
  obtain t where t: "wf_toml t" "apply_toml t = Inr c"
    using assms wf_toml_parse by (auto simp: config_load_def split: option.splits)
  then have "load_access t = Inr (allow_recursion c)" using apply_toml_access [of t] by simp
  then show ?thesis
    using t load_access_wf load_rate_limit_wf apply_toml_rate_limit by (auto simp: wf_config_def split: option.split)
qed

text \<open>
  C28. Every configuration that \<open>ServerConfig::load\<close> returns, whatever the file says, has networks whose
  prefix fits their address and, if it limits rates, a table for at least one source.
\<close>

theorem config_load_wf:
  assumes "config_load files path = Inr c"
  shows "wf_config c"
  using assms by (rule config_wf)

lemma config_load_wf_witness: "\<exists>c. config_load (\<lambda>_. Some []) ''config.toml'' = Inr c \<and> wf_config c"
proof -
  have "toml_get toml_default (Some sec) key = None" for sec key by (simp add: toml_get_def toml_default_def)
  moreover have "load_access t = Inr nets \<Longrightarrow> \<exists>c. apply_toml t = Inr c" for t nets by (simp add: apply_toml_def Let_def)
  ultimately obtain c where "config_load (\<lambda>_. Some []) ''config.toml'' = Inr c"
    by (fastforce simp: config_load_def read_to_string_def parse_str_def text_lines_def load_access_def)
  then show ?thesis using config_load_wf by blast
qed

end
