(* ===== verification/Startup.thy ===== *)
theory Startup
  imports ServerRuns ZoneSigning ZoneEntries ZoneFaults ConfigText
begin

text \<open>
  The start of the server: \<open>main\<close> of \<open>src/src/main.rs\<close> and \<open>ResolverConfig::from_resolv_conf\<close> of
  \<open>src/src/resolver.rs\<close>.  Files, key chains, clocks and crates are the record \<open>host\<close>.  The theory
  shows when the server starts, what it then serves, and the invariant of every state it reaches.
\<close>

section \<open>Paths\<close>

text \<open>\<open>Path::file_name\<close> and \<open>Path::file_stem\<close> on Unix.\<close>

definition path_components :: "string \<Rightarrow> string list" where
  "path_components path = filter (\<lambda>c. c \<noteq> [] \<and> c \<noteq> ''.'') (split_on (CHR ''/'') path)"

definition file_name :: "string \<Rightarrow> string option" where
  "file_name path =
     (let cs = path_components path in if cs = [] \<or> last cs = ''..'' then None else Some (last cs))"

definition name_stem :: "string \<Rightarrow> string" where
  "name_stem f = (let before = butlast (split_dots f) in if join_dots before = [] then f else join_dots before)"

definition file_stem :: "string \<Rightarrow> string option" where
  "file_stem path = map_option name_stem (file_name path)"

text \<open>\<open>str::trim_end_matches\<close> with a text.\<close>

function trim_end_matches :: "string \<Rightarrow> string \<Rightarrow> string" where
  "trim_end_matches end s =
     (if end \<noteq> [] \<and> suffix end s then trim_end_matches end (take (length s - length end) s) else s)"
  by pat_completeness auto
termination by (relation "measure (length \<circ> snd)") (auto simp: suffix_def)

declare trim_end_matches.simps [simp del]

definition zone_origin_of :: "string \<Rightarrow> string" where
  "zone_origin_of path =
     trim_end_matches ''.zone'' (case file_stem path of Some stem \<Rightarrow> stem | None \<Rightarrow> ''.'')"

section \<open>The forwarders\<close>

definition trim_start :: "string \<Rightarrow> string" where
  "trim_start s = concat (dropWhile is_white (chars s))"

definition resolv_line :: "string \<Rightarrow> ip_addr option" where
  "resolv_line l =
     (if prefix ''nameserver'' (trim_start l)
      then (case split_whitespace l of _ # ip # _ \<Rightarrow> parse_ip ip | _ \<Rightarrow> None) else None)"

definition parse_resolv_conf :: "files \<Rightarrow> ip_addr list option" where
  "parse_resolv_conf files =
     (case read_to_string files ''/etc/resolv.conf'' of None \<Rightarrow> None
      | Some content \<Rightarrow>
          (let addrs = List.map_filter resolv_line (text_lines content)
           in if addrs = [] then None else Some addrs))"

definition from_resolv_conf :: "files \<Rightarrow> resolver_config" where
  "from_resolv_conf files =
     (let fs = (case parse_resolv_conf files of None \<Rightarrow> [] | Some fs \<Rightarrow> fs)
      in \<lparr>forwarders = fs, use_forwarders = fs \<noteq> []\<rparr>)"

section \<open>main\<close>

record host =
  h_files :: files
  h_exists :: "string \<Rightarrow> bool"
  h_keychain :: "string \<Rightarrow> string option"
  h_base64 :: "string \<Rightarrow> u8 list option"
  h_der :: key_files
  h_rsa :: rsa
  h_unix :: u64
  h_now :: nat

datatype startup_error = Config_failed config_error | Zone_panicked

definition startup_config :: "files \<Rightarrow> string option \<Rightarrow> startup_error + server_config" where
  "startup_config files arg =
     (case arg of
        Some path \<Rightarrow> map_sum Config_failed id (config_load files path)
      | None \<Rightarrow> Inr (server_config_default\<lparr>c_port := 5353\<rparr>))"

definition read_zone_file :: "files \<Rightarrow> string \<Rightarrow> string \<Rightarrow> load_error + zone" where
  "read_zone_file files origin path = load_file files path (zone_new origin)"

fun load_zones :: "host \<Rightarrow> string list \<Rightarrow> zone_manager \<Rightarrow> zone_manager option" where
  "load_zones h [] zm = Some zm"
| "load_zones h (path # paths) zm =
     (case load_zone_file (h_rsa h) (h_der h) (h_exists h) (h_unix h) (read_zone_file (h_files h))
             (zone_origin_of path) path zm of
        (Inl Panicked, _) \<Rightarrow> None
      | (Inl Unreadable, zm') \<Rightarrow> load_zones h paths zm'
      | (Inr _, zm') \<Rightarrow> load_zones h paths zm')"

definition builtin_zone :: zone where
  "builtin_zone =
     (let txt = str_bytes ''ironbind test zone'';
          rec = (\<lambda>t d. \<lparr>r_name = ''example.local'', r_type = t, r_class = CLASS_IN, r_ttl = 300, r_rdata = d\<rparr>)
      in zone_add (rec TXT (of_nat (length txt) # txt)) (zone_add (rec A [127, 0, 0, 1]) (zone_new ''example.local'')))"

definition startup_limiter :: "nat \<Rightarrow> rate_limit_config \<Rightarrow> rate_limiter" where
  "startup_limiter now rl =
     rl_new (if per_ip rl then queries_per_second rl else 0) (global_queries_per_second rl)
       (unat (max_tracked_sources rl)) now"

definition startup_keyring :: "host \<Rightarrow> tsig_key_config list \<Rightarrow> keyring" where
  "startup_keyring h ks =
     fold (\<lambda>k ring. case resolve_secret (h_files h) (h_keychain h) (h_base64 h) (tkc_source k) of
             Some secret \<Rightarrow> keyring_insert \<lparr>tk_name = tkc_name k, tk_algorithm = tkc_algorithm k, tk_secret = secret\<rparr> ring
           | None \<Rightarrow> ring) ks []"

definition startup_state :: "host \<Rightarrow> server_config \<Rightarrow> zone_manager \<Rightarrow> server_state" where
  "startup_state h cfg zm =
     \<lparr>s_zones = (let zs = get_zones zm in if zs = [] then [builtin_zone] else zs), s_cache = cache_new,
      s_config = cfg, s_limiter = map_option (startup_limiter (h_now h)) (c_rate_limit cfg),
      s_metrics = metrics_new, s_manager = zm, s_keys = startup_keyring h (c_tsig_keys cfg)\<rparr>"

text \<open>The shared state and the configuration of the resolver; an error ends the process.\<close>

definition startup :: "host \<Rightarrow> string option \<Rightarrow> startup_error + server_state \<times> resolver_config" where
  "startup h arg =
     (case startup_config (h_files h) arg of
        Inl e \<Rightarrow> Inl e
      | Inr cfg \<Rightarrow>
          (case load_zones h (zone_files cfg) zm_new of
             None \<Rightarrow> Inl Zone_panicked
           | Some zm \<Rightarrow>
               Inr (startup_state h cfg zm,
                    (from_resolv_conf (h_files h))\<lparr>use_forwarders := c_use_forwarders cfg\<rparr>)))"

section \<open>When the server does not start\<close>

lemma load_zone_file_result:
  "load_zone_file crate der ex unix rdz origin path zm =
    (case rdz origin path of Inl e \<Rightarrow> (Inl e, zm)
     | Inr z \<Rightarrow> (Inr (), publish_zone origin path (signed_if_keyed crate der ex unix z) zm))"
  by (simp add: load_zone_file_def load_zone_def map_sum_def split: sum.split)

lemma load_zones_panics:
  "load_zones h paths zm = None \<longleftrightarrow> (\<exists>p\<in>set paths. load_file (h_files h) p (zone_new (zone_origin_of p)) = Inl Panicked)"
  by (induction paths arbitrary: zm)
    (auto simp: load_zone_file_result read_zone_file_def split: sum.splits load_error.splits)

lemma load_file_panics:
  "load_file files p z = Inl Panicked \<longleftrightarrow>
    (\<exists>text t rtype fs. read_to_string files p = Some text \<and> t \<in> set (zone_records text) \<and>
       record_fields t = Some (rtype, fs) \<and> rdata_panics rtype fs)"
proof (cases "read_to_string files p")
  case (Some content)
  then obtain bytes where bytes: "files p = Some bytes" "utf8_valid bytes" "content = bytes_str bytes"
    by (auto simp: read_to_string_def split: option.splits if_splits)
  then have "files p = Some (str_bytes content)" "utf8_valid (str_bytes content)" by (simp_all del: map_map)
  then show ?thesis using zone_load_panics [of files p content z] Some by auto
qed (simp add: load_file_def)

text \<open>
  C29. The process ends at its start only for two reasons: the configuration file cannot be loaded,
  or one of the zone files it names makes the loader panic, by an MX record without exchange or a DS
  digest that cuts a character.  A zone file that cannot be read is passed over.
\<close>

theorem startup_fails:
  "(startup h arg = Inl (Config_failed e) \<longleftrightarrow> (\<exists>path. arg = Some path \<and> config_load (h_files h) path = Inl e)) \<and>
   (startup h arg = Inl Zone_panicked \<longleftrightarrow>
     (\<exists>cfg p text t rtype fs. startup_config (h_files h) arg = Inr cfg \<and> p \<in> set (zone_files cfg) \<and>
        read_to_string (h_files h) p = Some text \<and> t \<in> set (zone_records text) \<and>
        record_fields t = Some (rtype, fs) \<and> rdata_panics rtype fs))"
proof (cases "startup_config (h_files h) arg")
  case (Inl e1)
  then show ?thesis by (auto simp: startup_def startup_config_def map_sum_def split: option.splits sum.splits)
next
  case (Inr cfg)
  then have "config_load (h_files h) path \<noteq> Inl e" if "arg = Some path" for path
    using that by (auto simp: startup_config_def)
  moreover have "startup h arg = Inl Zone_panicked \<longleftrightarrow> load_zones h (zone_files cfg) zm_new = None"
    "startup h arg \<noteq> Inl (Config_failed e)"
    using Inr by (simp_all add: startup_def split: option.split)
  ultimately show ?thesis
    using Inr unfolding load_zones_panics load_file_panics Bex_def by simp
qed

section \<open>The running server\<close>

lemma server_step_zones: "server_step st st' \<Longrightarrow> s_zones st \<noteq> [] \<Longrightarrow> s_zones st' \<noteq> []"
proof (induction rule: server_step.induct)
  case (evict env st)
  then show ?case by (auto simp: evict_step_def split: option.splits if_splits)
next
  case (reload read_zone st)
  then show ?case by (simp add: reload_step_def Let_def)
qed (use keeps_udp_receive_step keeps_udp_job keeps_tcp_message keeps_secure in \<open>auto simp: keeps_def\<close>)

interpretation zones_served: transition_invariant server_step "\<lambda>st. s_zones st \<noteq> []"
  by unfold_locales (rule server_step_zones)

lemma running_from:
  assumes "startup h arg = Inr (st, rc)" "server_step\<^sup>*\<^sup>* st st'"
  shows "s_zones st' \<noteq> [] \<and> server_inv st' \<and> wf_config (s_config st') \<and>
    s_config st' = s_config st \<and> s_keys st' = s_keys st \<and>
    cache_get (s_cache st') now name qtype \<noteq> Some (Negative NoData)"
proof -
  obtain cfg zm where cfg: "startup_config (h_files h) arg = Inr cfg" "st = startup_state h cfg zm"
    using assms(1) by (auto simp: startup_def split: sum.splits option.splits)
  have "wf_config cfg"
  proof (cases arg)
    case None
    then have "cfg = server_config_default\<lparr>c_port := 5353\<rparr>" using cfg(1) by (simp add: startup_config_def)
    then show ?thesis using wf_config_default by (simp add: wf_config_def)
  next
    case (Some path)
    then have "config_load (h_files h) path = Inr cfg"
      using cfg(1) by (cases "config_load (h_files h) path") (simp_all add: startup_config_def)
    then show ?thesis by (rule config_wf)
  qed
  moreover have st: "s_cache st = cache_new" "s_config st = cfg" "s_zones st \<noteq> []"
    by (simp_all add: cfg startup_state_def Let_def)
  moreover obtain q g m n where lim: "s_limiter st = None \<or> s_limiter st = Some (rl_new q g m n)"
    by (cases "c_rate_limit cfg") (auto simp: cfg startup_state_def startup_limiter_def)
  ultimately show ?thesis
    using reachable_states [OF assms(2) st(1) lim] zones_served.reachable [OF assms(2) st(3)] by simp
qed

lemma running_inv: "startup h arg = Inr (st, rc) \<Longrightarrow> server_inv st"
  using running_from [OF _ rtranclp.rtrancl_refl] by blast

text \<open>
  C12. Whatever the files say and whatever happens after the start: the server always serves some zone,
  its cache holds only positive answers without signatures, of a TTL between one second and a day, and
  name errors of at most three hours, never a NODATA answer; the limiter keeps its invariant; the
  configuration is well-formed and, like the keys, the one of the start.
\<close>

theorem running_server:
  assumes "startup h arg = Inr (st, rc)" "server_step\<^sup>*\<^sup>* st st'"
  shows "s_zones st' \<noteq> [] \<and> server_inv st' \<and> wf_config (s_config st') \<and>
    s_config st' = s_config st \<and> s_keys st' = s_keys st \<and>
    cache_get (s_cache st') now name qtype \<noteq> Some (Negative NoData)"
  using running_from [OF assms] by blast

definition bare_host :: host where
  "bare_host =
     \<lparr>h_files = (\<lambda>p. None), h_exists = (\<lambda>p. False), h_keychain = (\<lambda>p. None), h_base64 = (\<lambda>p. None),
      h_der = (\<lambda>p. None), h_rsa = \<lparr>rsa_public = (\<lambda>k. None), rsa_sign = (\<lambda>a k d. None)\<rparr>, h_unix = 0, h_now = 0\<rparr>"

lemma running_server_witness:
  "\<exists>st rc. startup bare_host None = Inr (st, rc) \<and> server_inv st \<and> wf_config (s_config st) \<and> c_port (s_config st) = 5353"
proof -
  have "zone_files (server_config_default\<lparr>c_port := 5353\<rparr>) = []" by (simp add: server_config_default_def)
  then obtain st rc where st: "startup bare_host None = Inr (st, rc)" "c_port (s_config st) = 5353"
    by (auto simp: startup_def startup_config_def startup_state_def)
  from running_server [OF st(1) rtranclp.rtrancl_refl] st show ?thesis by blast
qed

section \<open>What the files serve\<close>

text \<open>The zone a file of printed entries stands for.\<close>

definition file_zone :: "(string \<Rightarrow> zone_entry list) \<Rightarrow> string \<Rightarrow> zone" where
  "file_zone es path = zone_of (zone_origin_of path) (map entry_record (es path))"

text \<open>A file of printed entries, for a zone without a signing key.\<close>

definition plain_zone_file :: "host \<Rightarrow> (string \<Rightarrow> zone_entry list) \<Rightarrow> string \<Rightarrow> bool" where
  "plain_zone_file h es path \<longleftrightarrow> list_all zone_entry_ok (es path) \<and>
     h_files h path = Some (str_bytes (zone_text (es path))) \<and>
     \<not> h_exists h (key_path ''keys'' (z_origin (file_zone es path)) ''zsk'')"

lemma plain_file_loads:
  assumes "plain_zone_file h es path"
  shows "load_zone_file (h_rsa h) (h_der h) (h_exists h) (h_unix h) (read_zone_file (h_files h)) (zone_origin_of path) path zm =
    (Inr (), publish_zone (zone_origin_of path) path (file_zone es path) zm)"
  using assms load_printed [of "es path" "h_files h" path "zone_new (zone_origin_of path)"]
  by (simp add: load_zone_file_result read_zone_file_def plain_zone_file_def signed_if_keyed_def file_zone_def
      zone_of_def)

lemma zones_published:
  assumes "origin \<notin> fst ` set (zm_zones zm)"
  shows "zm_zones (publish_zone origin path z zm) = zm_zones zm @ [(origin, z)]"
proof -
  have "AList.update k v al = al @ [(k, v)]" if "k \<notin> fst ` set al" for k :: string and v :: zone and al
    using that by (induction al) auto
  moreover have "get_zone zm origin = None" using assms by (simp add: get_zone_def map_of_eq_None_iff)
  ultimately show ?thesis using assms by (simp add: publish_zone_def Let_def)
qed

lemma load_zones_plain:
  assumes "list_all (plain_zone_file h es) paths" "distinct (map zone_origin_of paths)"
    and "fst ` set (zm_zones zm) \<inter> zone_origin_of ` set paths = {}"
  shows "\<exists>zm'. load_zones h paths zm = Some zm' \<and>
    zm_zones zm' = zm_zones zm @ map (\<lambda>p. (zone_origin_of p, file_zone es p)) paths"
  using assms
proof (induction paths arbitrary: zm)
  case (Cons p paths)
  let ?zm = "publish_zone (zone_origin_of p) p (file_zone es p) zm"
  have zones: "zm_zones ?zm = zm_zones zm @ [(zone_origin_of p, file_zone es p)]"
    using Cons.prems(3) by (intro zones_published) auto
  have "\<exists>zm'. load_zones h paths ?zm = Some zm' \<and>
      zm_zones zm' = zm_zones ?zm @ map (\<lambda>p. (zone_origin_of p, file_zone es p)) paths"
    using Cons.prems by (intro Cons.IH) (auto simp: zones)
  then show ?case using Cons.prems(1) by (simp add: plain_file_loads [of h es p] zones)
qed simp

lemma file_zone_unsigned: "covering_rrsigs (file_zone es path) n t = []"
proof -
  have "rtype_to (rdata_type d) \<noteq> rtype_to RRSIG" for d by (cases d) simp_all
  then have "zone_lookup (file_zone es path) n RRSIG = None"
    by (auto simp: file_zone_def zone_lookup_zone_of rr_key_def entry_record_def Let_def filter_empty_conv)
  then show ?thesis by (simp add: covering_rrsigs_def)
qed

text \<open>
  C2. From the files to the wire.  Started with a configuration that names zone files, each printed
  from a list of entries for an origin of its own without a signing key, the server serves exactly
  the zones of these entries; and a query for a name of one of them that has records of the type
  asked for is answered with precisely those entries, in their order, as an authoritative NOERROR reply
  to the query.
\<close>

theorem started_server_serves_files:
  assumes "config_load (h_files h) path = Inr cfg" "zone_files cfg \<noteq> []" "distinct (map zone_origin_of (zone_files cfg))"
    and "list_all (plain_zone_file h es) (zone_files cfg)"
  shows "\<exists>st rc. startup h (Some path) = Inr (st, rc) \<and> s_zones st = map (file_zone es) (zone_files cfg) \<and>
    (\<forall>env data pkt q p peer recursion.
      asks env data st pkt q \<and> authoritative_zone (s_zones st) (q_name q) = Some (file_zone es p) \<longrightarrow>
      (let found = filter (\<lambda>r. to_lower (r_name r) = to_lower (q_name q) \<and> rtype_to (r_type r) = rtype_to (q_type q))
                     (map entry_record (es p))
       in found \<noteq> [] \<longrightarrow> (\<exists>resp. fst (handle_query env data peer recursion st) = send resp \<and> replies_to resp pkt \<and>
            is_aa resp \<and> rcode resp = RCODE_NOERROR \<and> p_answers resp = found)))"
proof -
  obtain zm where zm: "load_zones h (zone_files cfg) zm_new = Some zm"
      "zm_zones zm = map (\<lambda>p. (zone_origin_of p, file_zone es p)) (zone_files cfg)"
    using load_zones_plain [OF assms(4,3), of zm_new] by (auto simp: zm_new_def)
  let ?st = "startup_state h cfg zm"
  obtain rc where "startup h (Some path) = Inr (?st, rc)"
    using assms(1) zm(1) by (simp add: startup_def startup_config_def)
  moreover have "s_zones ?st = map (file_zone es) (zone_files cfg)"
    using assms(2) by (simp add: startup_state_def get_zones_def zm(2) comp_def)
  moreover have "let found = filter (\<lambda>r. to_lower (r_name r) = to_lower (q_name q) \<and> rtype_to (r_type r) = rtype_to (q_type q))
        (map entry_record (es p)) in found \<noteq> [] \<longrightarrow>
      (\<exists>resp. fst (handle_query env data peer recursion ?st) = send resp \<and> replies_to resp pkt \<and>
        is_aa resp \<and> rcode resp = RCODE_NOERROR \<and> p_answers resp = found)"
    if q: "asks env data ?st pkt q" "authoritative_zone (s_zones ?st) (q_name q) = Some (file_zone es p)"
    for env data pkt q p peer recursion
  proof -
    let ?found = "filter (\<lambda>r. to_lower (r_name r) = to_lower (q_name q) \<and> rtype_to (r_type r) = rtype_to (q_type q))
      (map entry_record (es p))"
    let ?resp = "fst (answer_authoritatively (e_sha1 env) (file_zone es p) (dnssec_ok pkt) q (response_for pkt))"
    have "?resp = (set_aa (response_for pkt))\<lparr>p_answers := ?found\<rparr>" if "?found \<noteq> []"
    proof -
      have "zone_lookup (file_zone es p) (q_name q) (q_type q) = Some ?found"
        using that by (simp add: file_zone_def zone_lookup_zone_of rr_key_def Let_def del: filter_map)
      from cname_loop_found [OF aliases.here _ this] show ?thesis
        by (simp add: answer_authoritatively_def alias_records_def file_zone_unsigned signed_def MAX_CNAME_CHAIN_def
            del: filter_map)
    qed
    moreover have "replies_to ?resp pkt" by (intro replies_to_authoritatively replies_to_response_for)
    ultimately show ?thesis
      using handle_query_authoritative [OF q]
      by (auto simp: Let_def rcode_defs simp del: filter_map intro!: exI [of _ ?resp])
  qed
  ultimately show ?thesis by (intro exI [of _ ?st] exI [of _ rc]) blast
qed

definition one_zone_host :: host where
  "one_zone_host = bare_host\<lparr>h_files := (\<lambda>p.
     if p = ''c.toml'' then Some (str_bytes (document_text [(''zones'', [(''files'', TArray [''z/e.example.zone''])])]))
     else if p = ''z/e.example.zone'' then Some (str_bytes (zone_text sample_entries)) else None)\<rparr>"

lemma started_server_serves_files_witness:
  "\<exists>st rc. startup one_zone_host (Some ''c.toml'') = Inr (st, rc) \<and>
    s_zones st = [zone_of ''e.example'' (map entry_record sample_entries)]"
proof -
  let ?doc = "[(''zones'', [(''files'', TArray [''z/e.example.zone''])])]"
  have doc: "document_ok ?doc" by (simp add: document_ok_def word_ok_def word_char_def text_char_def)
  have "toml_array (document_toml ?doc) ''zones'' ''files'' = [''z/e.example.zone'']"
    "load_access (document_toml ?doc) = Inr DEFAULT_ALLOW_RECURSION"
    by (simp_all add: toml_array_def load_access_def document_get written_def assignments_def server_config_default_def)
  then obtain cfg where cfg: "config_load (h_files one_zone_host) ''c.toml'' = Inr cfg"
      "zone_files cfg = [''z/e.example.zone'']"
    using config_document [OF doc, of "h_files one_zone_host" "''c.toml''"] apply_toml_zone_files [of "document_toml ?doc"]
      apply_toml_access [of "document_toml ?doc"]
    by (cases "apply_toml (document_toml ?doc)") (simp_all add: one_zone_host_def del: map_map)
  have origin: "zone_origin_of ''z/e.example.zone'' = ''e.example''"
    by (simp add: zone_origin_of_def file_stem_def file_name_def path_components_def name_stem_def
        trim_end_matches.simps suffix_def)
  have "plain_zone_file one_zone_host (\<lambda>p. sample_entries) ''z/e.example.zone''"
    using sample_entries_ok by (simp add: plain_zone_file_def one_zone_host_def bare_host_def del: map_map)
  then show ?thesis
    using started_server_serves_files [OF cfg(1), of "\<lambda>p. sample_entries"] cfg(2)
    by (auto simp: file_zone_def origin)
qed

end
