(* ===== verification/ThreadPool.thy ===== *)
theory ThreadPool
  imports Prelude "HOL-Library.Multiset"
begin

text \<open>
  The bounded worker pool of \<open>src/src/threadpool.rs\<close> as a step relation: a \<open>sync_channel\<close> of jobs, the
  workers that take from it under a mutex, and the jobs they run.  A job ends well or panics, which
  \<open>catch_unwind\<close> contains.
\<close>

section \<open>State\<close>

text \<open>A worker waits for the lock or in \<open>recv\<close>, runs a job, or has left its loop.\<close>

datatype 'j worker = Waiting | Busy 'j | Stopped

record 'j pool =
  p_capacity :: nat
  p_queue :: "'j list"
  p_workers :: "'j worker list"
  p_open :: bool

definition pool_new :: "nat \<Rightarrow> nat \<Rightarrow> 'j pool" where
  "pool_new workers capacity =
     \<lparr>p_capacity = capacity, p_queue = [], p_workers = replicate workers Waiting, p_open = True\<rparr>"

text \<open>The first worker in \<open>recv\<close>, which a channel without a buffer hands the job to.\<close>

fun hand_over :: "'j \<Rightarrow> 'j worker list \<Rightarrow> 'j worker list option" where
  "hand_over j [] = None"
| "hand_over j (w # ws) = (if w = Waiting then Some (Busy j # ws) else map_option ((#) w) (hand_over j ws))"

text \<open>\<open>try_send\<close>: it fails when the channel is full, or without workers, which hold the receiver.\<close>

definition submit :: "'j \<Rightarrow> 'j pool \<Rightarrow> bool \<times> 'j pool" where
  "submit j p =
     (if list_all ((=) Stopped) (p_workers p) then (False, p)
      else if p_capacity p = 0 then
        (case hand_over j (p_workers p) of None \<Rightarrow> (False, p) | Some ws \<Rightarrow> (True, p\<lparr>p_workers := ws\<rparr>))
      else if length (p_queue p) < p_capacity p then (True, p\<lparr>p_queue := p_queue p @ [j]\<rparr>)
      else (False, p))"

section \<open>Steps\<close>

datatype 'j pool_event =
    Submitted 'j bool
  | Taken nat 'j
  | Ended nat 'j bool
  | Closed
  | Left nat

inductive pool_step :: "'j pool \<Rightarrow> 'j pool_event \<Rightarrow> 'j pool \<Rightarrow> bool" where
  submit: "p_open p \<Longrightarrow> submit j p = (ok, p') \<Longrightarrow> pool_step p (Submitted j ok) p'"
| take: "i < length (p_workers p) \<Longrightarrow> p_workers p ! i = Waiting \<Longrightarrow> p_queue p = j # q \<Longrightarrow>
    pool_step p (Taken i j) (p\<lparr>p_queue := q, p_workers := (p_workers p)[i := Busy j]\<rparr>)"
| finish: "i < length (p_workers p) \<Longrightarrow> p_workers p ! i = Busy j \<Longrightarrow>
    pool_step p (Ended i j panicked) (p\<lparr>p_workers := (p_workers p)[i := Waiting]\<rparr>)"
| close: "p_open p \<Longrightarrow> pool_step p Closed (p\<lparr>p_open := False\<rparr>)"
| leave: "i < length (p_workers p) \<Longrightarrow> p_workers p ! i = Waiting \<Longrightarrow> p_queue p = [] \<Longrightarrow> \<not> p_open p \<Longrightarrow>
    pool_step p (Left i) (p\<lparr>p_workers := (p_workers p)[i := Stopped]\<rparr>)"

inductive pool_run :: "'j pool \<Rightarrow> 'j pool_event list \<Rightarrow> 'j pool \<Rightarrow> bool" where
  start: "pool_run p [] p"
| step: "pool_run p evs p' \<Longrightarrow> pool_step p' e p'' \<Longrightarrow> pool_run p (evs @ [e]) p''"

inductive_cases pool_step_SubmittedE: "pool_step p (Submitted j ok) p'"
inductive_cases pool_run_NilE: "pool_run p [] p'"

text \<open>The jobs a run accepted and ended, in order, and the jobs at work.\<close>

fun event_accepted :: "'j pool_event \<Rightarrow> 'j list" where
  "event_accepted (Submitted j ok) = (if ok then [j] else [])"
| "event_accepted _ = []"

fun event_ended :: "'j pool_event \<Rightarrow> 'j list" where
  "event_ended (Ended i j panicked) = [j]"
| "event_ended _ = []"

fun event_taken :: "'j pool_event \<Rightarrow> 'j list" where
  "event_taken (Taken i j) = [j]"
| "event_taken _ = []"

definition accepted :: "'j pool_event list \<Rightarrow> 'j list" where
  "accepted evs = concat (map event_accepted evs)"

definition ended :: "'j pool_event list \<Rightarrow> 'j list" where
  "ended evs = concat (map event_ended evs)"

definition taken :: "'j pool_event list \<Rightarrow> 'j list" where
  "taken evs = concat (map event_taken evs)"

fun worker_job :: "'j worker \<Rightarrow> 'j list" where
  "worker_job (Busy j) = [j]"
| "worker_job _ = []"

definition running :: "'j pool \<Rightarrow> 'j list" where
  "running p = concat (map worker_job (p_workers p))"

section \<open>What a pool promises\<close>

lemma running_update:
  assumes "i < length ws"
  shows "mset (concat (map worker_job (ws[i := w]))) + mset (worker_job (ws ! i)) =
    mset (concat (map worker_job ws)) + mset (worker_job w)"
  using assms by (induction ws arbitrary: i) (auto split: nat.split simp: ac_simps nth_Cons')

lemma hand_over_workers:
  assumes "hand_over j ws = Some ws'"
  shows "length ws' = length ws" "mset (concat (map worker_job ws')) = add_mset j (mset (concat (map worker_job ws)))"
    "Stopped \<in> set ws' \<longleftrightarrow> Stopped \<in> set ws"
  using assms by (induction ws arbitrary: ws') (auto split: if_splits)

text \<open>The invariant of a run: workers are never lost, and the queue keeps to its capacity.\<close>

definition pool_inv :: "nat \<Rightarrow> nat \<Rightarrow> 'j pool \<Rightarrow> bool" where
  "pool_inv workers capacity p \<longleftrightarrow> length (p_workers p) = workers \<and> p_capacity p = capacity \<and>
     length (p_queue p) \<le> capacity \<and> (p_open p \<longrightarrow> Stopped \<notin> set (p_workers p)) \<and>
     (Stopped \<in> set (p_workers p) \<longrightarrow> p_queue p = [])"

lemma pool_step_inv: "pool_step p e p' \<Longrightarrow> pool_inv w c p \<Longrightarrow> pool_inv w c p'"
proof (induction rule: pool_step.induct)
  case (submit p j ok p')
  then show ?case
    by (auto simp: submit_def pool_inv_def hand_over_workers split: if_splits option.splits)
next
  case (take i p j q)
  then show ?case using set_update_subset_insert [of "p_workers p" i "Busy j"] by (auto simp: pool_inv_def)
next
  case (finish i p j panicked)
  then show ?case using set_update_subset_insert [of "p_workers p" i Waiting] by (auto simp: pool_inv_def)
qed (auto simp: pool_inv_def)

interpretation pools: transition_invariant "\<lambda>p p'. \<exists>e. pool_step p e p'" "pool_inv w c" for w c
  by unfold_locales (use pool_step_inv in blast)

lemma pool_run_inv: "pool_run p evs p' \<Longrightarrow> pool_inv w c p \<Longrightarrow> pool_inv w c p'"
  by (induction rule: pool_run.induct) (auto intro: pool_step_inv)

lemma pool_new_inv: "pool_inv w c (pool_new w c)"
  by (auto simp: pool_inv_def pool_new_def)

lemma running_new [simp]: "running (pool_new w c) = []" "p_queue (pool_new w c) = []"
  by (simp_all add: running_def pool_new_def)

lemma length_running: "length (running p) \<le> length (p_workers p)"
proof -
  have "length (concat (map worker_job ws)) \<le> length ws" for ws :: "'a worker list"
  proof (induction ws)
    case (Cons w ws)
    then show ?case by (cases w) auto
  qed simp
  then show ?thesis by (simp add: running_def)
qed

lemma submit_accounts:
  "submit j p = (ok, p') \<Longrightarrow> mset (running p') + mset (p_queue p') =
    mset (running p) + mset (p_queue p) + mset (if ok then [j] else [])"
  by (auto simp: submit_def running_def hand_over_workers split: if_splits option.splits)

lemma running_set:
  assumes "i < length (p_workers p)"
  shows "mset (running (p\<lparr>p_workers := (p_workers p)[i := w]\<rparr>)) + mset (worker_job (p_workers p ! i)) =
    mset (running p) + mset (worker_job w)"
  using running_update [OF assms] by (simp add: running_def)

text \<open>One step keeps the account of jobs.\<close>

lemma pool_step_accounts:
  "pool_step p e p' \<Longrightarrow> mset (event_accepted e) + mset (running p) + mset (p_queue p) =
    mset (event_ended e) + mset (running p') + mset (p_queue p')"
proof (induction rule: pool_step.induct)
  case (submit p j ok p')
  then show ?case using submit_accounts [of j p ok p'] by (simp add: ac_simps)
next
  case (take i p j q)
  then show ?case using running_set [of i p "Busy j"] by (simp add: running_def ac_simps)
next
  case (finish i p j panicked)
  then show ?case using running_set [of i p Waiting] by (simp add: ac_simps)
next
  case (leave i p)
  then show ?case using running_set [of i p Stopped] by simp
qed (simp add: running_def)

lemma pool_step_order:
  "pool_step p e p' \<Longrightarrow> 0 < p_capacity p \<Longrightarrow> p_queue p @ event_accepted e = event_taken e @ p_queue p'"
  by (induction rule: pool_step.induct) (auto simp: submit_def split: if_splits)

lemma events_snoc:
  "accepted (evs @ [e]) = accepted evs @ event_accepted e" "ended (evs @ [e]) = ended evs @ event_ended e"
  "taken (evs @ [e]) = taken evs @ event_taken e"
  by (simp_all add: accepted_def ended_def taken_def)

lemma events_Nil: "accepted [] = []" "ended [] = []" "taken [] = []"
  by (simp_all add: accepted_def ended_def taken_def)

lemma pool_run_accounts:
  "pool_run p evs p' \<Longrightarrow> mset (accepted evs) + mset (running p) + mset (p_queue p) =
    mset (ended evs) + mset (running p') + mset (p_queue p')"
proof (induction rule: pool_run.induct)
  case (step p evs p' e p'')
  have "mset (accepted evs) + mset (event_accepted e) + mset (running p) + mset (p_queue p) =
      mset (ended evs) + (mset (event_accepted e) + mset (running p') + mset (p_queue p'))"
    using step.IH by (simp add: ac_simps)
  then show ?case unfolding pool_step_accounts [OF step.hyps(2)] by (simp add: events_snoc ac_simps)
qed (simp add: events_Nil)

lemma pool_run_order:
  "pool_run p evs p' \<Longrightarrow> pool_inv w c p \<Longrightarrow> 0 < c \<Longrightarrow> p_queue p @ accepted evs = taken evs @ p_queue p'"
proof (induction rule: pool_run.induct)
  case (step p evs p' e p'')
  then have "p_capacity p' = c" using pool_run_inv [OF step.hyps(1)] by (simp add: pool_inv_def)
  then have "p_queue p' @ event_accepted e = event_taken e @ p_queue p''"
    using pool_step_order [OF step.hyps(2)] step.prems(2) by simp
  then show ?case using step by (simp add: events_snoc flip: append_assoc) simp
qed (simp add: events_Nil)

text \<open>
  C33. In every run of a pool of \<open>w\<close> workers and capacity \<open>c\<close>, whichever jobs panic: each accepted job
  is, exactly once, ended, at work or in the queue, and (with a buffer) jobs are started in the order
  in which they were accepted; the queue never exceeds \<open>c\<close> nor the jobs at work \<open>w\<close>; no worker is lost
  while the pool is open; and a job is refused exactly when the queue is full.
\<close>

theorem pool_runs_each_job_once:
  assumes "pool_run (pool_new w c) evs p"
  shows "mset (accepted evs) = mset (ended evs) + mset (running p) + mset (p_queue p) \<and>
    (0 < c \<longrightarrow> accepted evs = taken evs @ p_queue p) \<and> length (p_queue p) \<le> c \<and> length (running p) \<le> w \<and>
    (p_open p \<longrightarrow> length (p_workers p) = w \<and> Stopped \<notin> set (p_workers p)) \<and>
    (p_open p \<and> 0 < c \<and> 0 < w \<longrightarrow> (fst (submit j p) \<longleftrightarrow> length (p_queue p) \<noteq> c))"
proof -
  have inv: "pool_inv w c p" using pool_run_inv [OF assms] pool_new_inv by blast
  moreover have "list_all ((=) Stopped) (p_workers p) \<longrightarrow> p_workers p = [] \<or> Stopped \<in> set (p_workers p)"
    by (cases "p_workers p") auto
  ultimately show ?thesis
    using pool_run_accounts [OF assms] pool_run_order [OF assms pool_new_inv] length_running [of p]
    by (auto simp: pool_inv_def submit_def)
qed

text \<open>One worker, one place: the second job waits, the third is refused.\<close>

definition small_run :: "nat pool_event list" where
  "small_run = [Submitted 7 True, Taken 0 7, Submitted 8 True, Submitted 9 False]"

definition small_pool :: "nat pool" where
  "small_pool = \<lparr>p_capacity = 1, p_queue = [8], p_workers = [Busy 7], p_open = True\<rparr>"

lemma small_run: "pool_run (pool_new 1 1) small_run small_pool"
proof -
  note step = pool_run.step
  have "pool_run (pool_new 1 1 :: nat pool) [] (pool_new 1 1)" by (rule pool_run.start)
  from step [OF this pool_step.submit [of _ 7 True]]
  have "pool_run (pool_new 1 1) [Submitted (7 :: nat) True] \<lparr>p_capacity = 1, p_queue = [7], p_workers = [Waiting], p_open = True\<rparr>"
    by (simp add: submit_def pool_new_def)
  from step [OF this pool_step.take [of 0 _ 7 "[]"]]
  have "pool_run (pool_new 1 1) [Submitted (7 :: nat) True, Taken 0 7] \<lparr>p_capacity = 1, p_queue = [], p_workers = [Busy 7], p_open = True\<rparr>"
    by simp
  from step [OF this pool_step.submit [of _ 8 True]]
  have "pool_run (pool_new 1 1) [Submitted 7 True, Taken 0 7, Submitted 8 True] small_pool"
    by (simp add: submit_def small_pool_def)
  from step [OF this pool_step.submit [of _ 9 False]] show ?thesis
    by (simp add: submit_def small_pool_def small_run_def)
qed

lemma pool_runs_each_job_once_witness:
  "mset (accepted small_run) = mset (ended small_run) + {#7#} + {#8#} \<and> \<not> fst (submit 10 small_pool)"
  using pool_runs_each_job_once [OF small_run, of 10]
  by (auto simp: small_pool_def running_def simp del: mset_append)

section \<open>Accepted jobs end\<close>

fun worker_event :: "'j pool_event \<Rightarrow> bool" where
  "worker_event (Taken i j) = True"
| "worker_event (Ended i j panicked) = True"
| "worker_event _ = False"

definition work_left :: "'j pool \<Rightarrow> nat" where
  "work_left p = 2 * length (p_queue p) + length (running p)"

lemma worker_step_progress: "pool_step p e p' \<Longrightarrow> worker_event e \<Longrightarrow> work_left p = Suc (work_left p')"
proof (induction rule: pool_step.induct)
  case (take i p j q)
  have "length (running (p\<lparr>p_queue := q, p_workers := (p_workers p)[i := Busy j]\<rparr>)) = Suc (length (running p))"
    using arg_cong [OF running_set [OF take(1), of "Busy j"], of size] take(2) by (simp add: running_def)
  then show ?case by (simp add: work_left_def take(3))
next
  case (finish i p j panicked)
  then show ?case using arg_cong [OF running_set [OF finish(1), of Waiting], of size] by (simp add: work_left_def)
qed simp_all

lemma worker_step_enabled:
  assumes "pool_inv w c p" "0 < w" "work_left p \<noteq> 0"
  shows "\<exists>e p'. worker_event e \<and> pool_step p e p'"
proof (cases "running p = []")
  case False
  then obtain wk where "wk \<in> set (p_workers p)" "worker_job wk \<noteq> []" by (auto simp: running_def)
  moreover from this(2) obtain j where "wk = Busy j" by (cases wk) auto
  ultimately obtain i where "i < length (p_workers p)" "p_workers p ! i = Busy j"
    by (metis in_set_conv_nth)
  then have "pool_step p (Ended i j False) (p\<lparr>p_workers := (p_workers p)[i := Waiting]\<rparr>)" by (rule pool_step.finish)
  then show ?thesis by (intro exI [of _ "Ended i j False"] exI conjI) simp_all
next
  case True
  then obtain j q where q: "p_queue p = j # q" using assms(3) by (cases "p_queue p") (auto simp: work_left_def)
  have "worker_job (p_workers p ! 0) = []" "Stopped \<notin> set (p_workers p)" "0 < length (p_workers p)"
    using True assms(1,2) q by (auto simp: running_def pool_inv_def)
  then have "p_workers p ! 0 = Waiting" using nth_mem by (cases "p_workers p ! 0") fastforce+
  then show ?thesis using pool_step.take [OF \<open>0 < length (p_workers p)\<close> _ q]
    by (intro exI [of _ "Taken 0 j"] exI conjI) simp_all
qed

lemma worker_run_progress:
  "pool_run p evs p' \<Longrightarrow> list_all worker_event evs \<Longrightarrow> work_left p = length evs + work_left p' \<and> accepted evs = []"
proof (induction rule: pool_run.induct)
  case (step p evs p' e p'')
  then have "event_accepted e = []" by (cases e) auto
  then show ?case using step worker_step_progress [OF step.hyps(2)] by (simp add: events_snoc)
qed (simp add: events_Nil)

lemma pool_run_append:
  assumes "pool_run p evs p'" "pool_run p' evs' p''"
  shows "pool_run p (evs @ evs') p''"
  using assms(2,1) by (induction rule: pool_run.induct) (auto simp flip: append_assoc intro: pool_run.step)

text \<open>
  C31. Accepted jobs end.  From any state a pool with workers reaches, closed or not, the workers can
  take a step as long as a job is queued or at work; every sequence of their steps is shorter by one
  than the work left with each step, two per queued and one per running job; and when none is left
  every job accepted so far has ended.
\<close>

theorem pool_drains:
  assumes "pool_run (pool_new w c) evs p" "0 < w" "pool_run p steps p'" "list_all worker_event steps"
  shows "length steps + work_left p' = 2 * length (p_queue p) + length (running p) \<and>
    (work_left p' \<noteq> 0 \<longrightarrow> (\<exists>e p''. worker_event e \<and> pool_step p' e p'')) \<and>
    (work_left p' = 0 \<longrightarrow> mset (ended (evs @ steps)) = mset (accepted evs))"
proof -
  have run: "pool_run (pool_new w c) (evs @ steps) p'" using pool_run_append [OF assms(1,3)] .
  have inv: "pool_inv w c p'" using pool_run_inv [OF run pool_new_inv] .
  have "work_left p = length steps + work_left p'" "accepted (evs @ steps) = accepted evs"
    using worker_run_progress [OF assms(3,4)] by (simp_all add: accepted_def)
  then show ?thesis
    using worker_step_enabled [OF inv assms(2)] pool_run_accounts [OF run] by (auto simp: work_left_def)
qed

lemma pool_drains_witness:
  "\<exists>e p. worker_event e \<and> pool_step small_pool e p"
proof -
  have "pool_run small_pool [] small_pool" by (rule pool_run.start)
  from pool_drains [OF small_run _ this] show ?thesis by (simp add: small_pool_def work_left_def)
qed

end
