(* ===== verification/Listeners.thy ===== *)
theory Listeners
  imports Startup ThreadPool
begin

text \<open>
  What runs around the query pipeline: recursive lookups in the bounded pool of
  \<open>src/src/threadpool.rs\<close>, sessions over TLS (\<open>src/src/dot.rs\<close>), the reload flag of
  \<open>src/src/signals.rs\<close> and the watcher and pools of \<open>run\<close> in \<open>src/src/server.rs\<close>.
\<close>

section \<open>DNS over TLS\<close>

text \<open>The bytes are those of the decrypted stream; unlike TCP there are no zone transfers.\<close>

definition dot_message :: "env \<Rightarrow> u8 list \<Rightarrow> ip_addr \<Rightarrow> server_state \<Rightarrow> u8 list \<times> server_state" where
  "dot_message env data peer st =
     (case handle_query_public env data peer (count record_tcp_query st) of
        (Some resp, st) \<Rightarrow> (frame resp, st) | (None, st) \<Rightarrow> ([], st))"

function dot_session :: "env \<Rightarrow> u8 list \<Rightarrow> ip_addr \<Rightarrow> server_state \<Rightarrow> u8 list \<times> server_state" where
  "dot_session env stream peer st =
     (if length stream < 2 then ([], st)
      else let qlen = unat (of_be16 (stream ! 0) (stream ! 1)) in
        if qlen = 0 \<or> length stream < 2 + qlen then ([], st)
        else let (out, st) = dot_message env (take qlen (drop 2 stream)) peer st;
                 (rest, st) = dot_session env (drop (2 + qlen) stream) peer st
             in (out @ rest, st))"
  by pat_completeness auto
termination
  by (relation "measure (\<lambda>(env, stream, peer, st). length stream)") auto

declare dot_session.simps [simp del]

interpretation dot: framed_session "\<lambda>m st. dot_message env m peer st" "\<lambda>s st. dot_session env s peer st" for env peer
  by unfold_locales (rule dot_session.simps)

text \<open>
  C38. On a connection over TCP or TLS a client may send its messages one after the other: the session
  answers them in order, each as if it had come alone, and an incomplete message at the end changes
  nothing.  Over TLS each answer is the one of the query pipeline, whatever the message asks for.
\<close>

theorem sessions_are_pipelined:
  assumes "list_all (\<lambda>m. m \<noteq> [] \<and> length m < 65536) ms" "length rest < 2"
  shows "tcp_session env (concat (map frame ms) @ rest) peer st = run_messages (\<lambda>m st. tcp_message env m peer st) ms st \<and>
    dot_session env (concat (map frame ms) @ rest) peer st = run_messages (\<lambda>m st. dot_message env m peer st) ms st"
  using tcp.pipelined [OF assms] dot.pipelined [OF assms] by blast

lemma sessions_are_pipelined_witness:
  "tcp_session sample_env [0, 1, 7, 0, 2, 8, 9, 0] (ipv4 192 0 2 1) (sample_state []) =
    run_messages (\<lambda>m st. tcp_message sample_env m (ipv4 192 0 2 1) st) [[7], [8, 9]] (sample_state [])"
proof -
  have "concat (map frame [[7], [8, 9]]) @ [0] = [0, 1, 7, 0, 2, 8, 9, 0]"
    by (simp add: frame_def be16_def)
  then show ?thesis using sessions_are_pipelined [of "[[7], [8, 9]]" "[0]"] by simp
qed

section \<open>Recursive lookups in the pool\<close>

definition RECURSION_QUEUE_PER_WORKER :: nat where "RECURSION_QUEUE_PER_WORKER = 16"

type_synonym lookup_job = "u8 list \<times> ip_addr"

definition pool_workers :: "server_config \<Rightarrow> nat" where
  "pool_workers cfg = max (unat (worker_threads cfg)) 1"

definition recursion_pool :: "server_config \<Rightarrow> lookup_job pool" where
  "recursion_pool cfg = pool_new (pool_workers cfg) (pool_workers cfg * RECURSION_QUEUE_PER_WORKER)"

definition connection_pool :: "server_config \<Rightarrow> 'j pool" where
  "connection_pool cfg = pool_new (pool_workers cfg) (pool_workers cfg)"

text \<open>A datagram: the job is submitted only when the answer needs a lookup.\<close>

definition receive_datagram :: "env \<Rightarrow> u8 list \<Rightarrow> ip_addr \<Rightarrow> server_state \<times> lookup_job pool \<Rightarrow>
    udp_outcome \<times> server_state \<times> lookup_job pool" where
  "receive_datagram env data peer sys =
     (let (queued, p) = submit (data, peer) (snd sys);
          (out, st) = udp_receive_step env queued data peer (fst sys)
      in (out, st, if out = Queued then p else snd sys))"

text \<open>An accepted connection: refused when every worker is busy and the queue full.\<close>

definition accept_connection :: "'j \<Rightarrow> server_state \<times> 'j pool \<Rightarrow> server_state \<times> 'j pool" where
  "accept_connection conn sys =
     (let (accepted, p) = submit conn (snd sys)
      in (if accepted then fst sys else count record_dropped_connection (fst sys), p))"

inductive udp_step :: "server_state \<times> lookup_job pool \<Rightarrow> server_state \<times> lookup_job pool \<Rightarrow> bool" where
  datagram: "f64_rounding (e_round env) \<Longrightarrow> p_open p \<Longrightarrow> udp_step (st, p) (snd (receive_datagram env data peer (st, p)))"
| start: "pool_step p (Taken i job) p' \<Longrightarrow> udp_step (st, p) (st, p')"
| answer: "pool_step p (Ended i (data, peer) panicked) p' \<Longrightarrow> udp_step (st, p) (snd (udp_job env data peer st), p')"

lemma receive_datagram_pool:
  "snd (snd (receive_datagram env data peer (st, p))) = p \<or>
   snd (snd (receive_datagram env data peer (st, p))) = snd (submit (data, peer) p)"
  by (auto simp: receive_datagram_def split: prod.splits)

lemma receive_datagram_state:
  "\<exists>room. fst (snd (receive_datagram env data peer (st, p))) = snd (udp_receive_step env room data peer st)"
  by (auto simp: receive_datagram_def split: prod.splits) (metis snd_conv)

definition udp_inv :: "server_config \<Rightarrow> server_state \<times> lookup_job pool \<Rightarrow> bool" where
  "udp_inv cfg sys \<longleftrightarrow> server_inv (fst sys) \<and> s_config (fst sys) = cfg \<and>
     pool_inv (pool_workers cfg) (pool_workers cfg * RECURSION_QUEUE_PER_WORKER) (snd sys)"

lemma udp_step_inv: "udp_step sys sys' \<Longrightarrow> udp_inv cfg sys \<Longrightarrow> udp_inv cfg sys'"
proof (induction rule: udp_step.induct)
  case (datagram env p st data peer)
  obtain room where "fst (snd (receive_datagram env data peer (st, p))) = snd (udp_receive_step env room data peer st)"
    using receive_datagram_state by blast
  then have "server_step st (fst (snd (receive_datagram env data peer (st, p))))"
    using server_step.datagram [OF datagram(1)] by simp
  moreover have "pool_step p (Submitted (data, peer) (fst (submit (data, peer) p))) (snd (submit (data, peer) p))"
    using pool_step.submit [OF datagram(2)] by (metis prod.collapse)
  ultimately show ?case
    using server_step_inv pool_step_inv receive_datagram_pool [of env data peer st p] datagram.prems
    by (auto simp: udp_inv_def)
next
  case (start p i job p' st)
  then show ?case using pool_step_inv by (auto simp: udp_inv_def)
next
  case (answer p i data peer panicked p' env st)
  then show ?case using pool_step_inv server_step_inv [OF server_step.job] by (auto simp: udp_inv_def)
qed

interpretation udp: transition_invariant udp_step "udp_inv cfg" for cfg
  by unfold_locales (rule udp_step_inv)



section \<open>Reloading on a signal\<close>

text \<open>\<open>compare_exchange(true, false)\<close> on the flag that the handler of SIGHUP sets.\<close>

definition handle_sighup :: "bool \<Rightarrow> bool" where
  "handle_sighup flag = True"

definition should_reload :: "bool \<Rightarrow> bool \<times> bool" where
  "should_reload flag = (if flag then (True, False) else (False, flag))"

definition RESIGN_INTERVAL :: nat where "RESIGN_INTERVAL = 24 * 3600 * 1000000000"

record watcher =
  w_flag :: bool
  w_last :: nat
  w_state :: server_state

text \<open>One pass of the watcher's loop, for zone files that the loader reads or reports, without panics.\<close>

definition watch_tick :: "nat \<Rightarrow> (string \<Rightarrow> string \<Rightarrow> 'e + zone) \<Rightarrow> watcher \<Rightarrow> watcher" where
  "watch_tick now read_zone w =
     (let resign_due = RESIGN_INTERVAL \<le> now - w_last w;
          (signalled, flag) = should_reload (w_flag w)
      in if signalled \<or> resign_due
         then w\<lparr>w_flag := flag, w_last := now, w_state := reload_step read_zone (w_state w)\<rparr>
         else w\<lparr>w_flag := flag\<rparr>)"

datatype 'e watch_event = Sighup | Tick nat "string \<Rightarrow> string \<Rightarrow> 'e + zone"

fun watch_step :: "'e watch_event \<Rightarrow> watcher \<Rightarrow> watcher" where
  "watch_step Sighup w = w\<lparr>w_flag := handle_sighup (w_flag w)\<rparr>"
| "watch_step (Tick now read_zone) w = watch_tick now read_zone w"

definition watch_run :: "'e watch_event list \<Rightarrow> watcher \<Rightarrow> watcher" where
  "watch_run evs w = fold watch_step evs w"

text \<open>A tick within a day of the last reload.\<close>

fun quiet_tick :: "nat \<Rightarrow> 'e watch_event \<Rightarrow> bool" where
  "quiet_tick since Sighup = False"
| "quiet_tick since (Tick now read_zone) = (now - since < RESIGN_INTERVAL)"

lemma quiet_ticks: "list_all (quiet_tick (w_last w)) evs \<Longrightarrow> \<not> w_flag w \<Longrightarrow> watch_run evs w = w"
proof (induction evs)
  case (Cons e evs)
  then have "watch_step e w = w"
    by (cases e) (simp_all add: watch_tick_def should_reload_def Let_def)
  then show ?case using Cons by (simp add: watch_run_def)
qed (simp add: watch_run_def)

lemma sighups_set_flag: "(watch_step Sighup ^^ n) w = (if n = 0 then w else w\<lparr>w_flag := True\<rparr>)"
  by (induction n) (simp_all add: handle_sighup_def)

text \<open>
  C37. No SIGHUP is lost and none counts twice: however many arrive, wherever they fall between two
  passes of the watcher, the next pass reloads the zones once and clears the flag; the passes after it
  reload nothing until another signal comes or a day has gone by, and then they do.
\<close>

theorem sighup_reloads_once:
  "let w = watch_run pre w0; w' = watch_run (pre @ replicate (Suc n) Sighup @ [Tick now read_zone]) w0
   in w' = w\<lparr>w_flag := False, w_last := now, w_state := reload_step read_zone (w_state w)\<rparr> \<and>
    (list_all (quiet_tick now) later \<longrightarrow> watch_run later w' = w' \<and>
      (RESIGN_INTERVAL \<le> t - now \<longrightarrow> w_state (watch_run (later @ [Tick t reread]) w') = reload_step reread (w_state w')))"
proof -
  let ?w = "watch_run pre w0" and ?w' = "watch_run (pre @ replicate (Suc n) Sighup @ [Tick now read_zone]) w0"
  have "?w' = watch_tick now read_zone (?w\<lparr>w_flag := True\<rparr>)"
    by (simp add: watch_run_def sighups_set_flag handle_sighup_def)
  then have w': "?w' = ?w\<lparr>w_flag := False, w_last := now, w_state := reload_step read_zone (w_state ?w)\<rparr>"
    by (simp add: watch_tick_def should_reload_def)
  moreover have quiet: "watch_run later ?w' = ?w'" if "list_all (quiet_tick now) later"
    using quiet_ticks [of ?w' later] that w' by simp
  moreover have "w_state (watch_run (later @ [Tick t reread]) ?w') = reload_step reread (w_state ?w')"
    if "list_all (quiet_tick now) later" "RESIGN_INTERVAL \<le> t - now"
  proof -
    have "watch_run (later @ [Tick t reread]) ?w' = watch_tick t reread ?w'"
      using quiet [OF that(1)] by (simp add: watch_run_def)
    then show ?thesis using that(2) w' by (simp add: watch_tick_def Let_def split: prod.split)
  qed
  ultimately show ?thesis unfolding Let_def by blast
qed

lemma sighup_reloads_once_witness:
  "let w = \<lparr>w_flag = False, w_last = 0, w_state = sample_state []\<rparr>; rdz = (\<lambda>o1 p. Inl () :: unit + zone)
   in watch_run [Sighup, Sighup, Tick 1000000000 rdz, Tick 2000000000 rdz] w =
     w\<lparr>w_last := 1000000000, w_state := reload_step rdz (sample_state [])\<rparr>"
  using sighup_reloads_once [of "[]" "\<lparr>w_flag = False, w_last = 0, w_state = sample_state []\<rparr>" 1 1000000000
      "\<lambda>o1 p. Inl () :: unit + zone" "[Tick 2000000000 (\<lambda>o1 p. Inl ())]" 0 "\<lambda>o1 p. Inl ()"]
  by (auto simp: watch_run_def RESIGN_INTERVAL_def Let_def)

end
