(* ===== verification/Doh.thy ===== *)
theory Doh
  imports ServerRuns ConfigText
begin

text \<open>
  \<open>src/src/doh.rs\<close>: the HTTP framing of DNS over HTTPS.  The decrypted stream is the list of what its
  reads find; \<open>URL_SAFE_NO_PAD\<close> of the \<open>base64\<close> crate is an argument.
\<close>

section \<open>Reading\<close>

text \<open>\<open>read\<close> with a buffer of \<open>room\<close> bytes: \<open>None\<close> is an error, no byte the end of the stream.\<close>

datatype net_data = Data "u8 list" | Io_error

fun read_some :: "nat \<Rightarrow> net_data list \<Rightarrow> u8 list option \<times> net_data list" where
  "read_some room [] = (Some [], [])"
| "read_some room (Io_error # s) = (None, s)"
| "read_some room (Data bs # s) = (Some (take room bs), if room < length bs then Data (drop room bs) # s else s)"

fun data_bytes :: "net_data \<Rightarrow> u8 list" where
  "data_bytes (Data bs) = bs"
| "data_bytes Io_error = []"

definition left_over :: "net_data list \<Rightarrow> nat" where
  "left_over s = length (concat (map data_bytes s))"

lemma read_some_left: "read_some room s = (Some bs, s') \<Longrightarrow> bs \<noteq> [] \<Longrightarrow> left_over s' < left_over s"
  by (induction room s rule: read_some.induct) (auto simp: left_over_def split: if_splits)

definition HTTP_BUFFER :: nat where "HTTP_BUFFER = 8192"

fun find_double_crlf :: "u8 list \<Rightarrow> nat option" where
  "find_double_crlf [] = None"
| "find_double_crlf (b # bs) =
     (if take 4 (b # bs) = [13, 10, 13, 10] then Some 0 else map_option Suc (find_double_crlf bs))"

datatype head = Head_closed | Head_too_large | Head_at nat "u8 list"

function read_head :: "u8 list \<Rightarrow> net_data list \<Rightarrow> head \<times> net_data list" where
  "read_head buf s =
     (case read_some (HTTP_BUFFER - length buf) s of
        (None, s) \<Rightarrow> (Head_closed, s)
      | (Some bs, s) \<Rightarrow>
          if bs = [] then (Head_closed, s)
          else let buf = buf @ bs in
            case find_double_crlf buf of
              Some i \<Rightarrow> (Head_at i buf, s)
            | None \<Rightarrow> if length buf = HTTP_BUFFER then (Head_too_large, s) else read_head buf s)"
  by pat_completeness auto
termination
  by (relation "measure (\<lambda>(buf, s). left_over s)") (auto dest: read_some_left [OF sym])

function read_body :: "nat \<Rightarrow> u8 list \<Rightarrow> net_data list \<Rightarrow> u8 list option" where
  "read_body want body s =
     (if want \<le> length body then Some body
      else case read_some (want - length body) s of
        (None, s) \<Rightarrow> None
      | (Some bs, s) \<Rightarrow> if bs = [] then Some body else read_body want (body @ bs) s)"
  by pat_completeness auto
termination
  by (relation "measure (\<lambda>(want, body, s). left_over s)") (auto dest: read_some_left [OF sym])

declare read_head.simps [simp del] read_body.simps [simp del]

section \<open>The request\<close>

fun split_crlf :: "string \<Rightarrow> string list" where
  "split_crlf [] = [[]]"
| "split_crlf (c # s) =
     (if c = CHR 0x0D \<and> s \<noteq> [] \<and> hd s = CHR 0x0A then [] # split_crlf (tl s)
      else (case split_crlf s of [] \<Rightarrow> [[c]] | x # xs \<Rightarrow> (c # x) # xs))"

text \<open>A slice in the middle of a character panics.\<close>

definition strip_header :: "string \<Rightarrow> string \<Rightarrow> unit + string option" where
  "strip_header line header =
     (let n = length header in
      if length line < n then Inr None
      else if n < length line \<and> utf8_continuation (line ! n) then Inl ()
      else if to_lower (take n line) = to_lower header then Inr (Some (drop n line)) else Inr None)"

fun read_headers :: "string list \<Rightarrow> nat \<Rightarrow> string \<Rightarrow> unit + nat \<times> string" where
  "read_headers [] content_length content_type = Inr (content_length, content_type)"
| "read_headers (line # rest) content_length content_type =
     (case strip_header line ''content-length:'' of
        Inl _ \<Rightarrow> Inl ()
      | Inr (Some v) \<Rightarrow>
          read_headers rest (case parse_unsigned 10 (2 ^ 64) (trim v) of Some n \<Rightarrow> n | None \<Rightarrow> 0) content_type
      | Inr None \<Rightarrow>
          (case strip_header line ''content-type:'' of
             Inl _ \<Rightarrow> Inl ()
           | Inr (Some v) \<Rightarrow> read_headers rest content_length (to_lower (trim v))
           | Inr None \<Rightarrow> read_headers rest content_length content_type))"

text \<open>What the head of a request asks for; \<open>Crash\<close> is a panic.\<close>

datatype request = Crash | Status nat string | Body nat | Message "u8 list"

definition strip_prefix :: "string \<Rightarrow> string \<Rightarrow> string option" where
  "strip_prefix p s = (if prefix p s then Some (drop (length p) s) else None)"

definition get_request :: "(string \<Rightarrow> u8 list option) \<Rightarrow> string \<Rightarrow> request" where
  "get_request base64url target =
     (let qs = drop (length ''/dns-query?'') target;
          dns_param = (case List.map_filter (strip_prefix ''dns='') (split_on (CHR ''&'') qs) of [] \<Rightarrow> None | p # _ \<Rightarrow> Some p)
      in case dns_param of None \<Rightarrow> Status 400 ''Bad Request''
         | Some p \<Rightarrow> (case base64url p of None \<Rightarrow> Status 400 ''Bad Request'' | Some m \<Rightarrow> Message m))"

definition http_request :: "(string \<Rightarrow> u8 list option) \<Rightarrow> u8 list \<Rightarrow> request" where
  "http_request base64url head =
     (if \<not> utf8_valid head then Status 400 ''Bad Request''
      else
        let lines = split_crlf (bytes_str head);
            parts = split_whitespace (hd lines);
            meth = (case parts of m # _ \<Rightarrow> m | _ \<Rightarrow> []);
            target = (case parts of _ # t # _ \<Rightarrow> t | _ \<Rightarrow> [])
        in case read_headers (tl lines) 0 [] of
             Inl _ \<Rightarrow> Crash
           | Inr (content_length, content_type) \<Rightarrow>
               if meth = ''POST'' \<and> prefix ''/dns-query'' target then
                 (if content_type \<noteq> ''application/dns-message'' then Status 415 ''Unsupported Media Type''
                  else if 65535 < content_length then Status 413 ''Payload Too Large''
                  else Body content_length)
               else if meth = ''GET'' \<and> prefix ''/dns-query?'' target then get_request base64url target
               else Status 404 ''Not Found'')"

section \<open>The reply\<close>

abbreviation crlf :: string where "crlf \<equiv> [CHR 0x0D, CHR 0x0A]"

definition write_status :: "nat \<Rightarrow> string \<Rightarrow> u8 list" where
  "write_status code reason =
     str_bytes (''HTTP/1.1 '' @ show_nat code @ '' '' @ reason @ crlf @ ''Content-Length: 0'' @ crlf @
       ''Connection: close'' @ crlf @ crlf)"

definition write_ok :: "u8 list \<Rightarrow> u8 list" where
  "write_ok body =
     str_bytes (''HTTP/1.1 200 OK'' @ crlf @ ''Content-Type: application/dns-message'' @ crlf @
       ''Content-Length: '' @ show_nat (length body) @ crlf @ ''Connection: close'' @ crlf @ crlf) @ body"

text \<open>What the client sees: bytes, or a connection closed without a word, in the end of a stream or a panic.\<close>

datatype http_outcome = Hung_up | Crashed | Replied "u8 list"

definition answer_http :: "env \<Rightarrow> u8 list \<Rightarrow> ip_addr \<Rightarrow> server_state \<Rightarrow> http_outcome \<times> server_state" where
  "answer_http env dns_msg peer st =
     (let (resp, st) = handle_query_public env dns_msg peer (count record_tcp_query st)
      in (Replied (write_ok (case resp of Some r \<Rightarrow> r | None \<Rightarrow> [])), st))"

definition handle_http :: "env \<Rightarrow> (string \<Rightarrow> u8 list option) \<Rightarrow> net_data list \<Rightarrow> ip_addr \<Rightarrow> server_state \<Rightarrow>
    http_outcome \<times> server_state" where
  "handle_http env base64url s peer st =
     (case read_head [] s of
        (Head_closed, s) \<Rightarrow> (Hung_up, st)
      | (Head_too_large, s) \<Rightarrow> (Replied (write_status 431 ''Request Header Fields Too Large''), st)
      | (Head_at i buf, s) \<Rightarrow>
          (case http_request base64url (take i buf) of
             Crash \<Rightarrow> (Crashed, st)
           | Status code reason \<Rightarrow> (Replied (write_status code reason), st)
           | Message m \<Rightarrow> answer_http env m peer st
           | Body n \<Rightarrow>
               (case read_body n (drop (i + 4) buf) s of
                  None \<Rightarrow> (Hung_up, st)
                | Some body \<Rightarrow> answer_http env (take n body) peer st)))"

section \<open>Only the bytes matter\<close>

lemma find_double_crlf_length: "find_double_crlf xs = Some i \<Longrightarrow> i + 4 \<le> length xs"
proof (induction xs arbitrary: i)
  case (Cons x xs)
  show ?case
  proof (cases "take 4 (x # xs) = [13, 10, 13, 10]")
    case True
    then have "length (take 4 (x # xs)) = 4" by (simp only:) simp
    then show ?thesis using True Cons.prems by simp
  next
    case False
    then show ?thesis using Cons by auto
  qed
qed simp

lemma find_append: "find_double_crlf xs = Some i \<Longrightarrow> find_double_crlf (xs @ ys) = Some i"
proof (induction xs arbitrary: i)
  case (Cons x xs)
  show ?case
  proof (cases "take 4 (x # xs) = [13, 10, 13, 10]")
    case True
    then have "length (take 4 (x # xs)) = 4" by (simp only:) simp
    then have "take 4 ((x # xs) @ ys) = take 4 (x # xs)" by simp
    then show ?thesis using True Cons.prems by simp
  next
    case False
    then obtain j where j: "find_double_crlf xs = Some j" "i = Suc j" using Cons.prems by auto
    have "4 \<le> length (x # xs)" using j(1) by (cases "length xs < 4") (auto dest: find_double_crlf_length)
    then have "take 4 ((x # xs) @ ys) \<noteq> [13, 10, 13, 10]" using False by simp
    then show ?thesis using Cons.IH [OF j(1)] j(2) by simp
  qed
qed simp

text \<open>The reply to the bytes of a connection, read at once.\<close>

definition doh_reply :: "env \<Rightarrow> (string \<Rightarrow> u8 list option) \<Rightarrow> u8 list \<Rightarrow> ip_addr \<Rightarrow> server_state \<Rightarrow>
    http_outcome \<times> server_state" where
  "doh_reply env base64url bytes peer st =
     (case find_double_crlf (take HTTP_BUFFER bytes) of
        None \<Rightarrow> (if length bytes < HTTP_BUFFER then Hung_up
                 else Replied (write_status 431 ''Request Header Fields Too Large''), st)
      | Some i \<Rightarrow>
          (case http_request base64url (take i bytes) of
             Crash \<Rightarrow> (Crashed, st)
           | Status code reason \<Rightarrow> (Replied (write_status code reason), st)
           | Message m \<Rightarrow> answer_http env m peer st
           | Body n \<Rightarrow> answer_http env (take n (drop (i + 4) bytes)) peer st))"

definition all_data :: "net_data list \<Rightarrow> bool" where
  "all_data s \<longleftrightarrow> list_all (\<lambda>d. \<exists>bs. d = Data bs \<and> bs \<noteq> []) s"

definition stream_bytes :: "net_data list \<Rightarrow> u8 list" where
  "stream_bytes s = concat (map data_bytes s)"

lemma read_some_data:
  assumes "all_data s" "0 < room"
  obtains bs s' where "read_some room s = (Some bs, s')" "all_data s'" "stream_bytes s = bs @ stream_bytes s'"
    "length bs \<le> room" "bs = [] \<longleftrightarrow> s = []"
proof (cases s)
  case Nil
  then show ?thesis using that [of "[]" "[]"] by (simp add: all_data_def stream_bytes_def)
next
  case (Cons d r)
  then obtain bs where "d = Data bs" "bs \<noteq> []" using assms(1) by (auto simp: all_data_def)
  then show ?thesis
    using that [of "take room bs" "if room < length bs then Data (drop room bs) # r else r"] assms
    by (auto simp: Cons all_data_def stream_bytes_def)
qed

text \<open>The outcome of reading the head, by the bytes alone.\<close>

definition head_of :: "u8 list \<Rightarrow> head \<times> net_data list \<Rightarrow> bool" where
  "head_of bytes res \<longleftrightarrow>
     (case find_double_crlf (take HTTP_BUFFER bytes) of
        None \<Rightarrow> fst res = (if length bytes < HTTP_BUFFER then Head_closed else Head_too_large)
      | Some i \<Rightarrow> \<exists>buf. fst res = Head_at i buf \<and> all_data (snd res) \<and> bytes = buf @ stream_bytes (snd res) \<and>
          find_double_crlf buf = Some i)"

lemma read_head_data:
  assumes "all_data s" "length buf < HTTP_BUFFER" "find_double_crlf buf = None"
  shows "head_of (buf @ stream_bytes s) (read_head buf s)"
  using assms
proof (induction "left_over s" arbitrary: buf s rule: less_induct)
  case less
  let ?bytes = "buf @ stream_bytes s"
  obtain bs s' where rd: "read_some (HTTP_BUFFER - length buf) s = (Some bs, s')" "all_data s'"
      "stream_bytes s = bs @ stream_bytes s'" "length bs \<le> HTTP_BUFFER - length buf" "bs = [] \<longleftrightarrow> s = []"
    using less.prems by (rule_tac read_some_data [of s "HTTP_BUFFER - length buf"]) auto
  show ?case
  proof (cases "bs = []")
    case True
    then have "stream_bytes s = []" using rd(5) by (simp add: stream_bytes_def)
    then show ?thesis using True less.prems rd(1) by (simp add: head_of_def read_head.simps [of buf s])
  next
    case False
    have len: "length (buf @ bs) \<le> HTTP_BUFFER" using rd(4) less.prems(2) by simp
    then have tk: "take HTTP_BUFFER ?bytes = (buf @ bs) @ take (HTTP_BUFFER - length (buf @ bs)) (stream_bytes s')"
      using rd(3) by simp
    show ?thesis
    proof (cases "find_double_crlf (buf @ bs)")
      case (Some i)
      then have "find_double_crlf (take HTTP_BUFFER ?bytes) = Some i" unfolding tk by (rule find_append)
      then show ?thesis using Some False rd(1-3) by (simp add: head_of_def read_head.simps [of buf s] Let_def)
    next
      case None
      show ?thesis
      proof (cases "length (buf @ bs) = HTTP_BUFFER")
        case True
        then show ?thesis using None False rd(1,3) tk
          by (simp add: head_of_def read_head.simps [of buf s] Let_def)
      next
        case short: False
        have "left_over s' < left_over s" using rd(1) False by (rule read_some_left)
        from less.hyps [OF this rd(2) _ None] have "head_of ((buf @ bs) @ stream_bytes s') (read_head (buf @ bs) s')"
          using len short by linarith
        moreover have "read_head buf s = read_head (buf @ bs) s'"
          using None False short rd(1) by (simp add: read_head.simps [of buf s] Let_def)
        ultimately show ?thesis by (simp add: rd(3))
      qed
    qed
  qed
qed

lemma read_body_data: "all_data s \<Longrightarrow> map_option (take want) (read_body want body s) = Some (take want (body @ stream_bytes s))"
proof (induction "left_over s" arbitrary: body s rule: less_induct)
  case less
  show ?case
  proof (cases "want \<le> length body")
    case True
    then show ?thesis by (simp add: read_body.simps)
  next
    case False
    then obtain bs s' where rd: "read_some (want - length body) s = (Some bs, s')" "all_data s'"
        "stream_bytes s = bs @ stream_bytes s'" "bs = [] \<longleftrightarrow> s = []"
      using less.prems by (rule_tac read_some_data [of s "want - length body"]) auto
    show ?thesis
    proof (cases "bs = []")
      case True
      then show ?thesis using False rd by (simp add: read_body.simps [of want body "[]"] stream_bytes_def)
    next
      case more: False
      have "left_over s' < left_over s" using rd(1) more by (rule read_some_left)
      from less.hyps [OF this rd(2), of "body @ bs"] show ?thesis
        using False more rd(1,3) by (simp add: read_body.simps [of want body s])
    qed
  qed
qed

lemma handle_http_data: "all_data s \<Longrightarrow> handle_http env base64url s peer st = doh_reply env base64url (stream_bytes s) peer st"
proof -
  assume s: "all_data s"
  have head: "head_of (stream_bytes s) (read_head [] s)" using read_head_data [OF s, of "[]"] by (simp add: HTTP_BUFFER_def)
  obtain h s' where res: "read_head [] s = (h, s')" by (cases "read_head [] s")
  show ?thesis
  proof (cases "find_double_crlf (take HTTP_BUFFER (stream_bytes s))")
    case None
    then show ?thesis using head res by (simp add: head_of_def handle_http_def doh_reply_def)
  next
    case (Some i)
    then obtain buf where buf: "h = Head_at i buf" "all_data s'" "stream_bytes s = buf @ stream_bytes s'"
        "find_double_crlf buf = Some i"
      using head res by (auto simp: head_of_def)
    then have i: "i + 4 \<le> length buf" by (blast dest: find_double_crlf_length)
    have tk: "take i (stream_bytes s) = take i buf" using buf(3) i by simp
    show ?thesis
    proof (cases "http_request base64url (take i buf)")
      case (Body n)
      obtain body where "read_body n (drop (i + 4) buf) s' = Some body" "take n body = take n (drop (i + 4) (stream_bytes s))"
        using read_body_data [OF buf(2), of n "drop (i + 4) buf"] i buf(3) by auto
      then show ?thesis using Some res buf(1) tk Body by (simp add: handle_http_def doh_reply_def)
    qed (use Some res buf(1) tk in \<open>simp_all add: handle_http_def doh_reply_def\<close>)
  qed
qed

text \<open>
  C36. The reply over HTTPS depends only on the bytes the client sent, not on how they arrive: whatever
  the pieces in which the stream is read, it ends, with the status 431 exactly when 8192 bytes hold no
  empty line, and otherwise with the reply to the head and to as many body bytes as the head announces.
\<close>

theorem doh_reads_bytes:
  assumes "list_all (\<lambda>bs. bs \<noteq> []) pieces"
  shows "handle_http env base64url (map Data pieces) peer st = doh_reply env base64url (concat pieces) peer st"
proof -
  have "all_data (map Data pieces)" using assms by (auto simp: all_data_def list_all_iff)
  moreover have "stream_bytes (map Data pieces) = concat pieces" by (simp add: stream_bytes_def comp_def)
  ultimately show ?thesis using handle_http_data by metis
qed

lemma doh_reads_bytes_witness:
  "handle_http sample_env (\<lambda>s. None) [Data [71, 69], Data [84]] (ipv4 192 0 2 1) (sample_state []) = (Hung_up, sample_state [])"
  using doh_reads_bytes [of "[[71, 69], [84]]"] by (simp add: doh_reply_def HTTP_BUFFER_def)

section \<open>A query by POST\<close>

definition post_head :: "nat \<Rightarrow> string list" where
  "post_head n = [''POST /dns-query HTTP/1.1'', ''Content-Type: application/dns-message'', ''Content-Length: '' @ show_nat n]"

fun head_text :: "string list \<Rightarrow> string" where
  "head_text [] = []"
| "head_text [l] = l"
| "head_text (l # m # ls) = l @ crlf @ head_text (m # ls)"

definition post_bytes :: "u8 list \<Rightarrow> u8 list" where
  "post_bytes m = str_bytes (head_text (post_head (length m)) @ crlf @ crlf) @ m"

text \<open>Lines of graphic characters and spaces.\<close>

definition http_line :: "string \<Rightarrow> bool" where
  "http_line l \<longleftrightarrow> l \<noteq> [] \<and> list_all (\<lambda>c. graphic c \<or> c = CHR '' '') l"

lemma http_line_no_cr: "http_line l \<Longrightarrow> list_all (\<lambda>c. c \<noteq> CHR 0x0D) l"
  by (auto simp: http_line_def list_all_iff)

lemma split_crlf_line: "list_all (\<lambda>c. c \<noteq> CHR 0x0D) l \<Longrightarrow> split_crlf (l @ crlf @ s) = l # split_crlf s"
  by (induction l) auto

lemma split_crlf_plain: "list_all (\<lambda>c. c \<noteq> CHR 0x0D) l \<Longrightarrow> split_crlf l = [l]"
  by (induction l) auto

lemma split_head_text: "list_all http_line ls \<Longrightarrow> ls \<noteq> [] \<Longrightarrow> split_crlf (head_text ls) = ls"
  by (induction ls rule: head_text.induct) (auto simp: split_crlf_plain split_crlf_line http_line_no_cr simp del: append_Cons)

lemma find_skip:
  "list_all (\<lambda>b. b \<noteq> 13) xs \<Longrightarrow> find_double_crlf (xs @ ys) = map_option (\<lambda>i. length xs + i) (find_double_crlf ys)"
  by (induction xs; cases "find_double_crlf ys") auto

lemma crlf_bytes: "byte_of_char (CHR 0x0D) = 13" "byte_of_char (CHR 0x0A) = 10"
  by (simp_all add: byte_of_char_def)

lemma line_bytes:
  assumes "http_line l"
  shows "list_all (\<lambda>b. b \<noteq> 13) (str_bytes l)"
proof -
  have "byte_of_char c \<noteq> 13" if "c \<noteq> CHR 0x0D" for c using that byte_of_char_eq_iff crlf_bytes(1) by metis
  then show ?thesis using http_line_no_cr [OF assms] by (simp add: list_all_iff)
qed

lemma find_crlf: "ys \<noteq> [] \<Longrightarrow> hd ys \<noteq> 13 \<Longrightarrow> find_double_crlf (13 # 10 # ys) = map_option (\<lambda>i. i + 2) (find_double_crlf ys)"
  by (cases ys) (auto simp: option.map_comp comp_def)

lemma find_head_text:
  "list_all http_line ls \<Longrightarrow> ls \<noteq> [] \<Longrightarrow>
    find_double_crlf (str_bytes (head_text ls @ crlf @ crlf) @ m) = Some (length (head_text ls))"
proof (induction ls rule: head_text.induct)
  case (2 l)
  then show ?case using find_skip [OF line_bytes, of l "str_bytes (crlf @ crlf) @ m"] by (simp add: crlf_bytes)
next
  case (3 l l2 ls)
  let ?rest = "str_bytes (head_text (l2 # ls) @ crlf @ crlf) @ m"
  have "http_line l2" using 3 by simp
  then have "?rest \<noteq> []" "hd ?rest \<noteq> 13"
    using line_bytes [of l2] by (cases ls; auto simp: http_line_def neq_Nil_conv)+
  then have "find_double_crlf (str_bytes crlf @ ?rest) = map_option (\<lambda>i. i + 2) (find_double_crlf ?rest)"
    using find_crlf [of ?rest] by (simp add: crlf_bytes)
  then show ?case using 3 find_skip [OF line_bytes, of l "str_bytes crlf @ ?rest"] by simp
qed simp

lemma post_head_lines: "list_all http_line (post_head n)" "post_head n \<noteq> []"
proof -
  have "list_all (\<lambda>c. graphic c \<or> c = CHR '' '') (show_nat n)"
    using show_nat_graphic [of n] by (auto simp: list_all_iff)
  then show "list_all http_line (post_head n)" by (simp add: post_head_def http_line_def)
qed (simp add: post_head_def)

lemma request_words: "split_whitespace ''POST /dns-query HTTP/1.1'' = [''POST'', ''/dns-query'', ''HTTP/1.1'']"
  by (simp add: split_whitespace_def utf8_width_def)

lemma utf8_text: "list_all (\<lambda>c. (of_char c :: nat) < 128) s \<Longrightarrow> utf8_valid (str_bytes s)"
  by (intro utf8_valid_ascii) (auto simp: word_less_nat_alt list_all_iff)

lemma head_text_ascii: "list_all http_line ls \<Longrightarrow> list_all (\<lambda>c. (of_char c :: nat) < 128) (head_text ls)"
  by (induction ls rule: head_text.induct) (fastforce simp: http_line_def list_all_iff)+

lemma read_post_headers:
  assumes "n < 2 ^ 64"
  shows "read_headers (tl (post_head n)) 0 [] = Inr (n, ''application/dns-message'')"
proof -
  have t: "trim ('' application/dns-message'') = ''application/dns-message''"
    using trim_spaces(2) [of "''application/dns-message''"] by simp
  have "trim (CHR '' '' # show_nat n) = show_nat n"
    using printable_graphic [OF show_digits_not_Nil show_nat_graphic] by (rule printable_trim(2))
  moreover have "parse_unsigned 10 (2 ^ 64) (show_nat n) = Some n" using assms by (rule parse_unsigned_show_nat)
  ultimately show ?thesis
    by (simp add: post_head_def strip_header_def utf8_continuation_def to_lower_def ascii_lower_def byte_of_char_def char_of_eq_iff t)
qed

lemma post_request: "n \<le> 65535 \<Longrightarrow> http_request base64url (str_bytes (head_text (post_head n))) = Body n"
proof -
  assume n: "n \<le> 65535"
  have "utf8_valid (str_bytes (head_text (post_head n)))" using post_head_lines head_text_ascii utf8_text by blast
  moreover have "split_crlf (head_text (post_head n)) = post_head n" using post_head_lines by (rule split_head_text)
  moreover have "read_headers (tl (post_head n)) 0 [] = Inr (n, ''application/dns-message'')"
    using n by (intro read_post_headers) simp
  moreover have "hd (post_head n) = ''POST /dns-query HTTP/1.1''" by (simp add: post_head_def)
  ultimately show ?thesis using n by (simp add: http_request_def request_words Let_def del: map_map)
qed

lemma post_head_length: "n \<le> 65535 \<Longrightarrow> length (head_text (post_head n)) < 8000"
proof -
  assume "n \<le> 65535"
  then have "length (show_nat n) \<le> 5" by (intro length_show_digits) simp_all
  then show ?thesis by (simp add: post_head_def)
qed



text \<open>A slice of a header line that does not end between characters: the worker panics, the client sees nothing.\<close>

lemma header_panics: "strip_header (''X-Bin: abcdefg'' @ [char_of (0xC3 :: nat), char_of (0xA9 :: nat)]) ''content-length:'' = Inl ()"
  by (simp add: strip_header_def utf8_continuation_def)

end
