(* ===== verification/Deferral.thy ===== *)
theory Deferral
  imports ServerRuns
begin

text \<open>
  The two ways in which \<open>src/src/server.rs\<close> resolves a query that needs an upstream lookup: at once on
  the thread of a connection, or deferred by a UDP receiver to the recursion pool and resumed there.
\<close>

section \<open>Deferred queries\<close>

text \<open>Looking a cache miss up on the pool, in the state in which it was handed over, is looking it up at once.\<close>

lemma deferred_from_cache:
  "(case answer_from_cache env peer Defer pkt q resp st of
      (Recursive, st1) \<Rightarrow> answer_from_cache env peer Resume pkt q resp st1
    | other \<Rightarrow> other) = answer_from_cache env peer InlineRecursion pkt q resp st"
  by (auto simp: answer_from_cache_def allowed_def Let_def send_def split: option.split CacheValue.split NegativeKind.split)

lemma defer_from_cache_state:
  "fst (answer_from_cache env peer Defer pkt q resp st) = Recursive \<Longrightarrow>
    snd (answer_from_cache env peer Defer pkt q resp st) = count record_cache_miss st"
  by (auto simp: answer_from_cache_def Let_def send_def split: if_splits option.splits CacheValue.splits NegativeKind.splits)

lemma deferred_packet:
  "(case answer_packet env peer Defer pkt st of
      (Recursive, st1) \<Rightarrow> answer_packet env peer Resume pkt st1
    | other \<Rightarrow> other) = answer_packet env peer InlineRecursion pkt st"
  using deferred_from_cache [of env peer pkt "hd (p_questions pkt)" "response_for pkt" st]
  by (auto simp: answer_packet_def Let_def send_def case_prod_beta defer_from_cache_state
      split: list.splits option.splits Answer.splits)

lemma defer_packet_state:
  "fst (answer_packet env peer Defer pkt st) = Recursive \<Longrightarrow>
    snd (answer_packet env peer Defer pkt st) = count record_cache_miss st"
  by (auto simp: answer_packet_def Let_def send_def case_prod_beta defer_from_cache_state split: list.splits option.splits if_splits)

lemma deferred_query:
  "(case handle_query env data peer Defer st of
      (Recursive, st1) \<Rightarrow> handle_query env data peer Resume st1
    | other \<Rightarrow> other) = handle_query env data peer InlineRecursion st"
proof (cases "parse data")
  case (Inl e)
  then show ?thesis by (simp add: handle_query_received received_def)
next
  case (Inr pkt)
  let ?st = "count record_query st"
  have "tsig_refused env data (count record_cache_miss ?st) = tsig_refused env data st"
    by (rule tsig_refused_cong) (simp_all add: count_def)
  then show ?thesis
    using deferred_packet [of env peer pkt ?st] defer_packet_state [of env peer pkt ?st]
    by (auto simp: handle_query_received received_def Inr case_prod_beta split: Answer.splits)
qed

text \<open>
  C17. Handing a query to the recursion pool changes nothing but the time of its answer: whatever the query
  is, answering it as a UDP receiver does and, where that needs a lookup, resuming it later in the state
  in which it was handed over, gives the same signed reply and the same state, counters and cache
  included, as answering it at once on the thread of a connection.
\<close>

theorem deferral_transparent:
  "(case respond env data peer Defer st of
      (Recursive, st1) \<Rightarrow> respond env data peer Resume st1
    | answered \<Rightarrow> answered) = respond env data peer InlineRecursion st"
proof -
  obtain a st1 where d: "handle_query env data peer Defer st = (a, st1)" by fastforce
  note same = deferred_query [of env data peer st, unfolded d]
  show ?thesis
  proof (cases a)
    case (Ready r)
    then have "handle_query env data peer InlineRecursion st = (Ready r, st1)" using same by simp
    then show ?thesis by (cases r) (simp_all add: respond_def d Ready)
  next
    case Recursive
    then have "handle_query env data peer InlineRecursion st = handle_query env data peer Resume st1" using same by simp
    then show ?thesis by (simp add: respond_def d Recursive)
  qed
qed

end
