(* ===== verification/MetricsPage.thy ===== *)
theory MetricsPage
  imports Doh
begin

text \<open>
  The Prometheus page of \<open>src/src/metrics.rs\<close> and its HTTP response (\<open>metrics_server\<close> of
  \<open>src/src/server.rs\<close>): the two ratios, the printing of a number with four decimals, the text
  of the page, and what a scraper reads back from it.  The ratios are \<open>f64\<close> computations on
  values that are finite and not negative: exact rationals, each operation followed by the rounding
  \<open>rnd\<close> as in the rate limiter.
\<close>

section \<open>Ratios\<close>

definition get_cache_hit_rate :: "rounding \<Rightarrow> metrics \<Rightarrow> rat" where
  "get_cache_hit_rate rnd m =
     (let hits = rnd (of_nat (unat (m_cache_hits m)));
          misses = rnd (of_nat (unat (m_cache_misses m)))
      in if rnd (hits + misses) = 0 then 0 else rnd (hits / rnd (hits + misses)))"

definition get_avg_query_time_ms :: "rounding \<Rightarrow> metrics \<Rightarrow> rat" where
  "get_avg_query_time_ms rnd m =
     (let total = rnd (of_nat (unat (m_total_query_time m)));
          count = rnd (of_nat (unat (m_query_count_for_avg m)))
      in if count = 0 then 0 else rnd (rnd (total / count) / 1000000))"

section \<open>Printing\<close>

text \<open>\<open>{:.4}\<close> prints the exact value of the float rounded to four decimals, ties to even.\<close>

definition round_half_even :: "rat \<Rightarrow> int" where
  "round_half_even x =
     (let k = \<lfloor>x\<rfloor>; d = x - of_int k
      in if d < 1 / 2 then k else if 1 / 2 < d then k + 1 else if even k then k else k + 1)"

definition four_digits :: "nat \<Rightarrow> string" where
  "four_digits n =
     [digit_char (n div 1000 mod 10), digit_char (n div 100 mod 10), digit_char (n div 10 mod 10), digit_char (n mod 10)]"

definition show_fixed4 :: "rat \<Rightarrow> string" where
  "show_fixed4 x =
     (let n = nat (round_half_even (x * 10000)) in show_nat (n div 10000) @ ''.'' @ four_digits (n mod 10000))"

text \<open>The three lines of one metric.\<close>

definition metric_lines :: "string \<Rightarrow> string \<Rightarrow> string \<Rightarrow> string \<Rightarrow> string list" where
  "metric_lines name help kind val =
     [''# HELP '' @ name @ '' '' @ help, ''# TYPE '' @ name @ '' '' @ kind, name @ '' '' @ val]"

abbreviation counter_lines :: "string \<Rightarrow> string \<Rightarrow> u64 \<Rightarrow> string list" where
  "counter_lines name help n \<equiv> metric_lines name help ''counter'' (show_nat (unat n))"

abbreviation gauge_lines :: "string \<Rightarrow> string \<Rightarrow> rat \<Rightarrow> string list" where
  "gauge_lines name help x \<equiv> metric_lines name help ''gauge'' (show_fixed4 x)"

definition page_metrics :: "rounding \<Rightarrow> metrics \<Rightarrow> string list list" where
  "page_metrics rnd m =
     [counter_lines ''ironbind_queries_total'' ''Total DNS queries received'' (m_total_queries m),
      counter_lines ''ironbind_queries_udp'' ''UDP queries'' (m_udp_queries m),
      counter_lines ''ironbind_queries_tcp'' ''TCP queries'' (m_tcp_queries m),
      counter_lines ''ironbind_cache_hits'' ''Cache hits'' (m_cache_hits m),
      counter_lines ''ironbind_cache_misses'' ''Cache misses'' (m_cache_misses m),
      gauge_lines ''ironbind_cache_hit_rate'' ''Cache hit rate'' (get_cache_hit_rate rnd m),
      counter_lines ''ironbind_responses_success'' ''Successful responses'' (m_success m),
      counter_lines ''ironbind_responses_nxdomain'' ''NXDOMAIN responses'' (m_nxdomain m),
      counter_lines ''ironbind_responses_servfail'' ''SERVFAIL responses'' (m_servfail m),
      counter_lines ''ironbind_dnssec_valid'' ''Valid DNSSEC signatures'' (m_dnssec_valid m),
      counter_lines ''ironbind_dnssec_bogus'' ''BOGUS DNSSEC signatures'' (m_dnssec_bogus m),
      gauge_lines ''ironbind_query_time_ms'' ''Average query time in milliseconds'' (get_avg_query_time_ms rnd m),
      counter_lines ''ironbind_dropped_rate_limited'' ''Queries dropped by the rate limiter''
        (m_dropped_rate_limited m),
      counter_lines ''ironbind_dropped_recursion_limit''
        ''Recursive UDP queries dropped because the recursion pool was full'' (m_dropped_recursion_limit m),
      counter_lines ''ironbind_dropped_connections''
        ''Connections closed because all connection workers were busy'' (m_dropped_connections m)]"

definition export_prometheus :: "rounding \<Rightarrow> metrics \<Rightarrow> string" where
  "export_prometheus rnd m = unlines (concat (page_metrics rnd m))"

text \<open>
  \<open>metrics_server\<close> answers every connection with the page, whatever the client sent (one read whose
  result is ignored); a failed accept is skipped.
\<close>

definition metrics_response :: "rounding \<Rightarrow> metrics \<Rightarrow> string" where
  "metrics_response rnd m =
     (let body = export_prometheus rnd m
      in ''HTTP/1.1 200 OK'' @ crlf @ ''Content-Type: text/plain; version=0.0.4'' @ crlf @
         ''Content-Length: '' @ show_nat (length body) @ crlf @ ''Connection: close'' @ crlf @ crlf @ body)"

definition metrics_server :: "rounding \<Rightarrow> (metrics \<times> u8 list option) list \<Rightarrow> string list" where
  "metrics_server rnd conns =
     concat (map (\<lambda>(m, accepted). case accepted of None \<Rightarrow> [] | Some request \<Rightarrow> [metrics_response rnd m]) conns)"

section \<open>The ratios are in range\<close>

text \<open>IEEE rounding keeps a value that is a float already.\<close>

definition f64_idempotent :: "rounding \<Rightarrow> bool" where
  "f64_idempotent rnd \<longleftrightarrow> (\<forall>x. rnd (rnd x) = rnd x)"

lemma rnd_count: "f64_rounding rnd \<Longrightarrow> 0 \<le> rnd (of_nat n)"
  by (rule rnd_nonneg) simp_all

lemma share_of_sum:
  assumes f: "f64_rounding rnd" "f64_idempotent rnd" and pos: "0 \<le> h" "0 \<le> k" "rnd h = h"
  shows "0 \<le> rnd (h / rnd (h + k)) \<and> rnd (h / rnd (h + k)) \<le> 1"
proof -
  have s: "h \<le> rnd (h + k)" using rnd_mono [OF f(1), of h "h + k"] pos by simp
  have "h / rnd (h + k) \<le> 1" by (cases "rnd (h + k) = 0") (use s pos in \<open>auto simp: divide_le_eq\<close>)
  then have "rnd (h / rnd (h + k)) \<le> rnd 1" by (rule rnd_mono [OF f(1)])
  moreover have "rnd 1 = 1" using rnd_nat [OF f(1), of 1] by simp
  moreover have "0 \<le> rnd (h / rnd (h + k))"
    by (intro rnd_nonneg [OF f(1)] divide_nonneg_nonneg) (use s pos in simp_all)
  ultimately show ?thesis by simp
qed

lemma cache_hit_rate_range:
  assumes "f64_rounding rnd" "f64_idempotent rnd"
  shows "0 \<le> get_cache_hit_rate rnd m" "get_cache_hit_rate rnd m \<le> 1"
proof -
  let ?h = "rnd (of_nat (unat (m_cache_hits m)))" and ?k = "rnd (of_nat (unat (m_cache_misses m)))"
  have "rnd ?h = ?h" using assms(2) unfolding f64_idempotent_def by (rule spec)
  then have "0 \<le> rnd (?h / rnd (?h + ?k)) \<and> rnd (?h / rnd (?h + ?k)) \<le> 1"
    by (rule share_of_sum [OF assms rnd_count [OF assms(1)] rnd_count [OF assms(1)]])
  then show "0 \<le> get_cache_hit_rate rnd m" "get_cache_hit_rate rnd m \<le> 1"
    by (simp_all add: get_cache_hit_rate_def Let_def)
qed

lemma avg_query_time_nonneg:
  assumes "f64_rounding rnd"
  shows "0 \<le> get_avg_query_time_ms rnd m"
proof -
  have "0 \<le> rnd (rnd (of_nat a) / rnd (of_nat b))" for a b
    by (intro rnd_nonneg [OF assms] divide_nonneg_nonneg rnd_count [OF assms])
  then have "0 \<le> rnd (rnd (rnd (of_nat a) / rnd (of_nat b)) / 1000000)" for a b
    by (intro rnd_nonneg [OF assms] divide_nonneg_nonneg) simp_all
  from this [of "unat (m_total_query_time m)" "unat (m_query_count_for_avg m)"] show ?thesis
    by (simp add: get_avg_query_time_ms_def Let_def)
qed

section \<open>What a scraper reads\<close>

text \<open>The value that follows a metric's name, and a number with decimals.\<close>

definition line_entry :: "string \<Rightarrow> (string \<times> string) list" where
  "line_entry l = (case split_once (CHR '' '') l of None \<Rightarrow> [] | Some e \<Rightarrow> [e])"

definition scrape :: "string \<Rightarrow> string \<Rightarrow> string option" where
  "scrape name page = map_of (concat (map line_entry (text_lines page))) name"

definition decimal_value :: "string \<Rightarrow> rat option" where
  "decimal_value s =
     (case split_once (CHR ''.'') s of
        None \<Rightarrow> None
      | Some (a, b) \<Rightarrow>
          (case (digits_val 10 0 a, digits_val 10 0 b) of
             (Some x, Some y) \<Rightarrow> Some (of_nat x + of_nat y / 10 ^ length b)
           | _ \<Rightarrow> None))"

lemma round_half_even_error: "\<bar>of_int (round_half_even x) - x\<bar> \<le> 1 / 2"
proof -
  define k where "k = \<lfloor>x\<rfloor>"
  have k: "of_int k \<le> x" "x < of_int k + 1" unfolding k_def by linarith+
  have "round_half_even x = (if x - of_int k < 1 / 2 then k else if 1 / 2 < x - of_int k then k + 1 else if even k then k else k + 1)"
    by (simp add: round_half_even_def k_def Let_def)
  then show ?thesis using k by (auto split: if_splits)
qed

lemma round_half_even_nonneg: "0 \<le> x \<Longrightarrow> 0 \<le> round_half_even x"
  by (simp add: round_half_even_def Let_def)

lemma digits_val_pad:
  assumes "n < 10000"
  shows "digits_val 10 0 (four_digits n) = Some n"
proof -
  define a where "a = n div 10"
  define b where "b = a div 10"
  define c where "c = b div 10"
  have q: "n div 100 = b" "n div 1000 = c" by (simp_all add: a_def b_def c_def div_mult2_eq [symmetric])
  then have "c mod 10 = c" using assms by simp
  then have "digits_val 10 0 (four_digits n) = Some (((c * 10 + b mod 10) * 10 + a mod 10) * 10 + n mod 10)"
    by (simp add: four_digits_def q a_def)
  also have "((c * 10 + b mod 10) * 10 + a mod 10) * 10 + n mod 10 = n" by (simp add: c_def b_def a_def)
  finally show ?thesis .
qed

lemma decimal_show_fixed4: "decimal_value (show_fixed4 x) = Some (of_nat (nat (round_half_even (x * 10000))) / 10000)"
proof -
  define n where "n = nat (round_half_even (x * 10000))"
  have "CHR ''.'' \<notin> set (show_nat (n div 10000))" using show_nat_digit by fastforce
  then have "split_once (CHR ''.'') (show_nat (n div 10000) @ ''.'' @ four_digits (n mod 10000)) =
      Some (show_nat (n div 10000), four_digits (n mod 10000))"
    using split_once_append by simp
  moreover have "digits_val 10 0 (show_nat (n div 10000)) = Some (n div 10000)" by (rule digits_val_show) simp_all
  moreover have "digits_val 10 0 (four_digits (n mod 10000)) = Some (n mod 10000)" by (rule digits_val_pad) simp
  moreover have "length (four_digits (n mod 10000)) = 4" by (simp add: four_digits_def)
  ultimately have "decimal_value (show_fixed4 x) = Some (of_nat (n div 10000) + of_nat (n mod 10000) / 10 ^ 4)"
    by (simp add: show_fixed4_def decimal_value_def n_def Let_def)
  moreover have "(of_nat (n div 10000) + of_nat (n mod 10000) / 10 ^ 4 :: rat) = of_nat n / 10000"
  proof -
    have "(of_nat n :: rat) = of_nat (n div 10000 * 10000 + n mod 10000)" by simp
    also have "\<dots> = of_nat (n div 10000) * 10000 + of_nat (n mod 10000)" by (simp only: of_nat_add of_nat_mult of_nat_numeral)
    finally show ?thesis by simp
  qed
  ultimately show ?thesis by (simp add: n_def)
qed

lemma decimal_close:
  assumes "0 \<le> x"
  shows "\<exists>v. decimal_value (show_fixed4 x) = Some v \<and> \<bar>v - x\<bar> \<le> 1 / 20000"
proof -
  define k where "k = round_half_even (x * 10000)"
  have "(of_nat (nat k) :: rat) = of_int k" using assms by (simp add: k_def round_half_even_nonneg)
  moreover have "\<bar>of_int k - x * 10000\<bar> \<le> 1 / 2" unfolding k_def by (rule round_half_even_error)
  moreover have "\<bar>of_int k / 10000 - x\<bar> = \<bar>of_int k - x * 10000\<bar> / 10000"
  proof -
    have "of_int k / 10000 - x = (of_int k - x * 10000) / 10000" by (simp add: diff_divide_distrib)
    then show ?thesis by (simp only: abs_divide abs_numeral)
  qed
  ultimately have "\<bar>of_nat (nat k) / 10000 - x\<bar> \<le> 1 / 20000" by simp
  then show ?thesis using decimal_show_fixed4 [of x] by (simp only: k_def) blast
qed

text \<open>The lines of the page are plain text, so it has exactly these lines.\<close>

definition one_line :: "string \<Rightarrow> bool" where
  "one_line s \<longleftrightarrow> CHR 0x0A \<notin> set s \<and> CHR 0x0D \<notin> set s"

lemma one_line_append [simp]: "one_line (s @ t) \<longleftrightarrow> one_line s \<and> one_line t"
  by (auto simp: one_line_def)

lemma one_line_cons: "one_line (c # s) \<longleftrightarrow> c \<noteq> CHR 0x0A \<and> c \<noteq> CHR 0x0D \<and> one_line s" "one_line []"
  by (auto simp: one_line_def)

lemma one_line_nat [simp]: "one_line (show_nat n)"
  using show_nat_digit by (fastforce simp: one_line_def)

lemma one_line_digit: "d < 10 \<Longrightarrow> digit_char d \<noteq> CHR 0x0A \<and> digit_char d \<noteq> CHR 0x0D"
  using of_char_digit_char [of d] by auto

lemma one_line_fixed [simp]: "one_line (show_fixed4 x)"
  by (simp add: show_fixed4_def Let_def four_digits_def one_line_cons one_line_digit)

lemma page_one_line: "l \<in> set (concat (page_metrics rnd m)) \<Longrightarrow> one_line l"
  by (simp add: page_metrics_def metric_lines_def) (elim disjE; simp add: one_line_cons)

lemma page_lines: "text_lines (export_prometheus rnd m) = concat (page_metrics rnd m)"
  unfolding export_prometheus_def
proof (rule text_lines_unlines)
  fix l assume "l \<in> set (concat (page_metrics rnd m))"
  then have "one_line l" by (rule page_one_line)
  then show "CHR 0x0A \<notin> set l \<and> (l = [] \<or> last l \<noteq> CHR 0x0D)"
    unfolding one_line_def by (metis last_in_set)
qed

lemma metric_entries:
  "CHR '' '' \<notin> set name \<Longrightarrow> CHR '' '' \<notin> set val \<Longrightarrow>
    concat (map line_entry (metric_lines name help kind val)) = [(''#'', ''HELP '' @ name @ '' '' @ help), (''#'', ''TYPE '' @ name @ '' '' @ kind), (name, val)]"
  using split_once_append [of "CHR '' ''" name val]
  by (simp add: metric_lines_def line_entry_def)

lemma no_blank_nat [simp]: "CHR '' '' \<notin> set (show_nat n)"
  using show_nat_digit by fastforce

lemma no_blank_digit: "d < 10 \<Longrightarrow> digit_char d \<noteq> CHR '' ''"
  using of_char_digit_char [of d] by auto

lemma no_blank_fixed [simp]: "CHR '' '' \<notin> set (show_fixed4 x)"
  by (simp add: show_fixed4_def Let_def four_digits_def no_blank_digit [symmetric])

definition page_entries :: "rounding \<Rightarrow> metrics \<Rightarrow> (string \<times> string) list" where
  "page_entries rnd m = filter (\<lambda>(k, v). k \<noteq> ''#'') (concat (map line_entry (concat (page_metrics rnd m))))"

lemma map_of_filter_key: "k \<noteq> c \<Longrightarrow> map_of (filter (\<lambda>(k, v). k \<noteq> c) xs) k = map_of xs k"
  by (induction xs) auto

lemma scrape_entries: "name \<noteq> ''#'' \<Longrightarrow> scrape name (export_prometheus rnd m) = map_of (page_entries rnd m) name"
  by (simp add: scrape_def page_lines page_entries_def map_of_filter_key)

lemma page_entries:
  "page_entries rnd m =
     [(''ironbind_queries_total'', show_nat (unat (m_total_queries m))),
      (''ironbind_queries_udp'', show_nat (unat (m_udp_queries m))),
      (''ironbind_queries_tcp'', show_nat (unat (m_tcp_queries m))),
      (''ironbind_cache_hits'', show_nat (unat (m_cache_hits m))),
      (''ironbind_cache_misses'', show_nat (unat (m_cache_misses m))),
      (''ironbind_cache_hit_rate'', show_fixed4 (get_cache_hit_rate rnd m)),
      (''ironbind_responses_success'', show_nat (unat (m_success m))),
      (''ironbind_responses_nxdomain'', show_nat (unat (m_nxdomain m))),
      (''ironbind_responses_servfail'', show_nat (unat (m_servfail m))),
      (''ironbind_dnssec_valid'', show_nat (unat (m_dnssec_valid m))),
      (''ironbind_dnssec_bogus'', show_nat (unat (m_dnssec_bogus m))),
      (''ironbind_query_time_ms'', show_fixed4 (get_avg_query_time_ms rnd m)),
      (''ironbind_dropped_rate_limited'', show_nat (unat (m_dropped_rate_limited m))),
      (''ironbind_dropped_recursion_limit'', show_nat (unat (m_dropped_recursion_limit m))),
      (''ironbind_dropped_connections'', show_nat (unat (m_dropped_connections m)))]"
  by (simp add: page_entries_def page_metrics_def metric_entries)

section \<open>Counting\<close>

text \<open>One recording call of the server, and the metric in which it is counted.\<close>

datatype metric_event =
    Query_seen | Udp_query_seen | Tcp_query_seen | Cache_hit_seen | Cache_miss_seen | Success_seen | Nxdomain_seen
  | Servfail_seen | Valid_seen | Bogus_seen | Query_timed u64 | Rate_limited_seen | Recursion_limit_seen
  | Connection_dropped

fun record_event :: "metric_event \<Rightarrow> metrics \<Rightarrow> metrics" where
  "record_event Query_seen m = record_query m"
| "record_event Udp_query_seen m = record_udp_query m"
| "record_event Tcp_query_seen m = record_tcp_query m"
| "record_event Cache_hit_seen m = record_cache_hit m"
| "record_event Cache_miss_seen m = record_cache_miss m"
| "record_event Success_seen m = record_success m"
| "record_event Nxdomain_seen m = record_nxdomain m"
| "record_event Servfail_seen m = record_servfail m"
| "record_event Valid_seen m = record_dnssec_valid m"
| "record_event Bogus_seen m = record_dnssec_bogus m"
| "record_event (Query_timed ns) m = record_query_time ns m"
| "record_event Rate_limited_seen m = record_dropped_rate_limited m"
| "record_event Recursion_limit_seen m = record_dropped_recursion_limit m"
| "record_event Connection_dropped m = record_dropped_connection m"

fun event_metric :: "metric_event \<Rightarrow> string option" where
  "event_metric Query_seen = Some ''ironbind_queries_total''"
| "event_metric Udp_query_seen = Some ''ironbind_queries_udp''"
| "event_metric Tcp_query_seen = Some ''ironbind_queries_tcp''"
| "event_metric Cache_hit_seen = Some ''ironbind_cache_hits''"
| "event_metric Cache_miss_seen = Some ''ironbind_cache_misses''"
| "event_metric Success_seen = Some ''ironbind_responses_success''"
| "event_metric Nxdomain_seen = Some ''ironbind_responses_nxdomain''"
| "event_metric Servfail_seen = Some ''ironbind_responses_servfail''"
| "event_metric Valid_seen = Some ''ironbind_dnssec_valid''"
| "event_metric Bogus_seen = Some ''ironbind_dnssec_bogus''"
| "event_metric (Query_timed ns) = None"
| "event_metric Rate_limited_seen = Some ''ironbind_dropped_rate_limited''"
| "event_metric Recursion_limit_seen = Some ''ironbind_dropped_recursion_limit''"
| "event_metric Connection_dropped = Some ''ironbind_dropped_connections''"

fun event_count :: "metric_event \<Rightarrow> metrics \<Rightarrow> u64" where
  "event_count Query_seen m = m_total_queries m"
| "event_count Udp_query_seen m = m_udp_queries m"
| "event_count Tcp_query_seen m = m_tcp_queries m"
| "event_count Cache_hit_seen m = m_cache_hits m"
| "event_count Cache_miss_seen m = m_cache_misses m"
| "event_count Success_seen m = m_success m"
| "event_count Nxdomain_seen m = m_nxdomain m"
| "event_count Servfail_seen m = m_servfail m"
| "event_count Valid_seen m = m_dnssec_valid m"
| "event_count Bogus_seen m = m_dnssec_bogus m"
| "event_count (Query_timed ns) m = m_query_count_for_avg m"
| "event_count Rate_limited_seen m = m_dropped_rate_limited m"
| "event_count Recursion_limit_seen m = m_dropped_recursion_limit m"
| "event_count Connection_dropped m = m_dropped_connections m"

lemma page_shows_count:
  "event_metric e = Some name \<Longrightarrow> scrape name (export_prometheus rnd m) = Some (show_nat (unat (event_count e m)))"
  by (cases e) (auto simp: scrape_entries page_entries)

lemma event_counted:
  "event_metric e = Some name \<Longrightarrow>
    event_count e (record_event e' m) = event_count e m + (if event_metric e' = Some name then 1 else 0)"
  by (cases e; cases e') (auto simp: metrics_defs)

lemma events_counted:
  "event_metric e = Some name \<Longrightarrow>
    event_count e (fold record_event evs m) = event_count e m + of_nat (length (filter (\<lambda>e. event_metric e = Some name) evs))"
  by (induction evs arbitrary: m) (simp_all add: event_counted)

lemma event_count_new [simp]: "event_count e metrics_new = 0"
  by (cases e) (simp_all add: metrics_new_def)

lemma page_after_events:
  assumes "event_metric e = Some name"
  shows "scrape name (export_prometheus rnd (fold record_event evs metrics_new)) =
    Some (show_nat (length (filter (\<lambda>e. event_metric e = Some name) evs) mod 2 ^ 64))"
  using page_shows_count [OF assms] events_counted [OF assms] by (simp add: unat_of_nat)

lemma page_gauges:
  "scrape ''ironbind_cache_hit_rate'' (export_prometheus rnd m) = Some (show_fixed4 (get_cache_hit_rate rnd m))"
  "scrape ''ironbind_query_time_ms'' (export_prometheus rnd m) = Some (show_fixed4 (get_avg_query_time_ms rnd m))"
  by (simp_all add: scrape_entries page_entries)

section \<open>The response\<close>

text \<open>An HTTP client: the bytes after the first empty line, as many as the head announces.\<close>

definition http_body :: "string \<Rightarrow> string option" where
  "http_body resp =
     (case find_double_crlf (str_bytes resp) of
        None \<Rightarrow> None
      | Some i \<Rightarrow>
          (case read_headers (tl (split_crlf (take i resp))) 0 [] of
             Inl _ \<Rightarrow> None
           | Inr (n, _) \<Rightarrow> Some (take n (drop (i + 4) resp))))"

definition page_head :: "nat \<Rightarrow> string list" where
  "page_head n =
     [''HTTP/1.1 200 OK'', ''Content-Type: text/plain; version=0.0.4'', ''Content-Length: '' @ show_nat n, ''Connection: close'']"

lemma page_head_lines: "list_all http_line (page_head n)" "page_head n \<noteq> []"
proof -
  have "list_all (\<lambda>c. graphic c \<or> c = CHR '' '') (show_nat n)"
    using show_nat_graphic [of n] by (auto simp: list_all_iff)
  then show "list_all http_line (page_head n)" by (simp add: page_head_def http_line_def)
qed (simp add: page_head_def)

lemma metrics_response_head:
  "metrics_response rnd m =
    head_text (page_head (length (export_prometheus rnd m))) @ crlf @ crlf @ export_prometheus rnd m"
  by (simp add: metrics_response_def page_head_def Let_def)

lemma read_page_headers:
  assumes "n < 2 ^ 64"
  shows "\<exists>ct. read_headers (tl (page_head n)) 0 [] = Inr (n, ct)"
proof -
  have "trim (CHR '' '' # show_nat n) = show_nat n"
    using printable_graphic [OF show_digits_not_Nil show_nat_graphic] by (rule printable_trim(2))
  moreover have "parse_unsigned 10 (2 ^ 64) (show_nat n) = Some n" using assms by (rule parse_unsigned_show_nat)
  ultimately show ?thesis
    by (simp add: page_head_def strip_header_def utf8_continuation_def to_lower_def ascii_lower_def byte_of_char_def char_of_eq_iff)
qed

lemma http_body_response:
  assumes "length (export_prometheus rnd m) < 2 ^ 64"
  shows "http_body (metrics_response rnd m) = Some (export_prometheus rnd m)"
proof -
  let ?page = "export_prometheus rnd m" and ?head = "head_text (page_head (length (export_prometheus rnd m)))"
  have "find_double_crlf (str_bytes (metrics_response rnd m)) = Some (length ?head)"
    using find_head_text [OF page_head_lines, of "length ?page" "str_bytes ?page"] by (simp add: metrics_response_head)
  moreover have "split_crlf ?head = page_head (length ?page)" using page_head_lines by (rule split_head_text)
  moreover obtain ct where "read_headers (tl (page_head (length ?page))) 0 [] = Inr (length ?page, ct)"
    using read_page_headers [OF assms] by blast
  ultimately show ?thesis by (simp add: http_body_def metrics_response_head)
qed

section \<open>Reading the page back\<close>

text \<open>
  C39. After any sequence of recording calls, in any order, a scraper that takes the body of the HTTP
  response by its announced length reads for each counter the number of calls that count in it,
  modulo \<open>2 ^ 64\<close>: no call is counted under another name, none is lost, and the ratios and help lines
  of the page do not disturb the reading.
\<close>

theorem metrics_page_counts:
  assumes "event_metric e = Some name" "length (export_prometheus rnd (fold record_event evs metrics_new)) < 2 ^ 64"
  shows "map_option (scrape name) (http_body (metrics_response rnd (fold record_event evs metrics_new))) =
    Some (Some (show_nat (length (filter (\<lambda>e. event_metric e = Some name) evs) mod 2 ^ 64)))"
  using http_body_response [OF assms(2)] page_after_events [OF assms(1)] by simp

lemma metrics_page_counts_witness:
  "map_option (scrape ''ironbind_cache_hits'')
      (http_body (metrics_response (\<lambda>x. x) (fold record_event [Cache_hit_seen, Query_timed 5, Cache_hit_seen] metrics_new))) =
    Some (Some ''2'')"
proof -
  let ?m = "fold record_event [Cache_hit_seen, Query_timed 5, Cache_hit_seen] metrics_new"
  have "show_fixed4 (get_cache_hit_rate (\<lambda>x. x) ?m) = ''1.0000''"
    "show_fixed4 (get_avg_query_time_ms (\<lambda>x. x) ?m) = ''0.0000''"
    by (simp_all add: get_cache_hit_rate_def get_avg_query_time_ms_def metrics_new_def metrics_defs show_fixed4_def
        round_half_even_def four_digits_def show_digits.simps digit_char_def Let_def char_of_eq_iff)
  then have "length (export_prometheus (\<lambda>x. x) ?m) < 2 ^ 64"
    by (simp add: export_prometheus_def unlines_def page_metrics_def metric_lines_def)
      (simp add: metrics_new_def metrics_defs show_digits.simps)
  moreover have "show_nat (Suc (Suc 0)) = ''2''" by (simp add: show_digits.simps digit_char_def char_of_eq_iff)
  ultimately show ?thesis
    using metrics_page_counts [of Cache_hit_seen _ "\<lambda>x. x" "[Cache_hit_seen, Query_timed 5, Cache_hit_seen]"] by simp
qed

text \<open>
  Whatever the counters are, the hit rate lies between 0 and 1 and the average time is not negative,
  also when nothing has been counted; each is read back from the page within half of its last decimal.
\<close>

theorem metrics_ratios:
  assumes "f64_rounding rnd" "f64_idempotent rnd"
  shows "0 \<le> get_cache_hit_rate rnd m \<and> get_cache_hit_rate rnd m \<le> 1 \<and> 0 \<le> get_avg_query_time_ms rnd m \<and>
    (\<exists>s v. scrape ''ironbind_cache_hit_rate'' (export_prometheus rnd m) = Some s \<and> decimal_value s = Some v \<and>
      \<bar>v - get_cache_hit_rate rnd m\<bar> \<le> 1 / 20000) \<and>
    (\<exists>s v. scrape ''ironbind_query_time_ms'' (export_prometheus rnd m) = Some s \<and> decimal_value s = Some v \<and>
      \<bar>v - get_avg_query_time_ms rnd m\<bar> \<le> 1 / 20000)"
  using cache_hit_rate_range [OF assms] avg_query_time_nonneg [OF assms(1)] page_gauges decimal_close by metis

lemma metrics_ratios_witness:
  "get_cache_hit_rate (\<lambda>x. x) (metrics_new\<lparr>m_cache_hits := 2, m_cache_misses := 1\<rparr>) = 2 / 3 \<and>
    (\<exists>v. decimal_value (show_fixed4 (2 / 3)) = Some v \<and> \<bar>v - 2 / 3\<bar> \<le> 1 / 20000)"
proof -
  let ?m = "metrics_new\<lparr>m_cache_hits := 2, m_cache_misses := 1\<rparr>"
  have r: "get_cache_hit_rate (\<lambda>x. x) ?m = 2 / 3" by (simp add: get_cache_hit_rate_def)
  have "f64_rounding (\<lambda>x. x)" "f64_idempotent (\<lambda>x. x)"
    by (simp_all add: f64_rounding_def f64_idempotent_def mono_def)
  from metrics_ratios [OF this, of ?m] show ?thesis unfolding r page_gauges by auto
qed

end
