(* ===== verification/Services.thy ===== *)
theory Services
  imports MetricsPage Listeners
begin

text \<open>
  What \<open>run\<close> of \<open>src/src/server.rs\<close> starts: the services a configuration asks for, the listeners for
  TCP, TLS and HTTPS that hand connections to the pool (\<open>run\<close> of \<open>src/src/dot.rs\<close> and
  \<open>src/src/doh.rs\<close>), the UDP receivers, and the reload of a watcher whose zone files make the loader
  panic.  The lemmas follow the counters through all of it, so that the Prometheus page accounts for
  every query and every connection.
\<close>

section \<open>The services of a configuration\<close>

datatype service =
    Cache_eviction
  | Reload_watcher
  | Metrics_endpoint u16
  | Dot_listener tls_listener_config
  | Doh_listener tls_listener_config
  | Tcp_listener string
  | Udp_receivers string

definition services :: "server_config \<Rightarrow> service list" where
  "services cfg =
     [Cache_eviction, Reload_watcher] @
     (if 0 < metrics_port cfg then [Metrics_endpoint (metrics_port cfg)] else []) @
     (case c_dot cfg of Some d \<Rightarrow> [Dot_listener d] | None \<Rightarrow> []) @
     (case c_doh cfg of Some d \<Rightarrow> [Doh_listener d] | None \<Rightarrow> []) @
     [Tcp_listener (bind_addr cfg), Udp_receivers (bind_addr cfg)]"

text \<open>The receivers of one run of \<open>udp_loop\<close>: none when the socket cannot be bound, at least one is tried.\<close>

definition udp_loop :: "bool \<Rightarrow> (nat \<Rightarrow> bool) \<Rightarrow> server_config \<Rightarrow> nat list" where
  "udp_loop bound spawned cfg =
     (if bound then filter spawned [0..<max (unat (udp_receivers cfg)) 1] else [])"

section \<open>Connections\<close>

text \<open>
  The identity of a connection is its number.  Over TLS, \<open>ready\<close> is whether \<open>ServerConnection::new\<close>
  succeeds; the bytes are those of the decrypted stream.
\<close>

datatype connection =
    Tcp_conn nat ip_addr "u8 list"
  | Dot_conn nat ip_addr bool "u8 list"
  | Doh_conn nat ip_addr bool "net_data list"

text \<open>The job of a connection worker: whether it panics, and the state after it.\<close>

fun connection_job :: "env \<Rightarrow> (string \<Rightarrow> u8 list option) \<Rightarrow> connection \<Rightarrow> server_state \<Rightarrow> bool \<times> server_state" where
  "connection_job env base64url (Tcp_conn i peer stream) st = (False, snd (tcp_session env stream peer st))"
| "connection_job env base64url (Dot_conn i peer ready stream) st =
     (False, if ready then snd (dot_session env stream peer st) else st)"
| "connection_job env base64url (Doh_conn i peer ready s) st =
     (if ready then (let (out, st) = handle_http env base64url s peer st in (out = Crashed, st)) else (False, st))"

text \<open>\<open>load_tls_config\<close>: files and the crates \<open>rustls_pemfile\<close> and \<open>rustls\<close> are arguments.\<close>

record ('cert, 'key, 'tls) tls_crates =
  tls_open :: "string \<Rightarrow> string + u8 list"
  pem_certs :: "u8 list \<Rightarrow> string + 'cert list"
  pem_private_key :: "u8 list \<Rightarrow> string + 'key option"
  with_single_cert :: "'cert list \<Rightarrow> 'key \<Rightarrow> string + 'tls"

definition labelled :: "string \<Rightarrow> string + 'a \<Rightarrow> string + 'a" where
  "labelled what r = map_sum ((@) what) id r"

definition and_then :: "'e + 'a \<Rightarrow> ('a \<Rightarrow> 'e + 'b) \<Rightarrow> 'e + 'b" where
  "and_then r f = (case r of Inl e \<Rightarrow> Inl e | Inr x \<Rightarrow> f x)"

definition load_tls_config :: "('cert, 'key, 'tls) tls_crates \<Rightarrow> string \<Rightarrow> string \<Rightarrow> string + 'tls" where
  "load_tls_config cr cert_at key_at =
     and_then (labelled ''open cert: '' (tls_open cr cert_at)) (\<lambda>cert_file.
     and_then (labelled ''parse cert: '' (pem_certs cr cert_file)) (\<lambda>certs.
     and_then (labelled ''open key: '' (tls_open cr key_at)) (\<lambda>key_file.
     and_then (labelled ''parse key: '' (pem_private_key cr key_file)) (\<lambda>found.
       case found of None \<Rightarrow> Inl ''no private key in PEM''
       | Some key \<Rightarrow> labelled ''tls config: '' (with_single_cert cr certs key)))))"

text \<open>
  One run of a listener: without a socket nothing is accepted; a connection that fails to be accepted is
  skipped, every other one is offered to the pool.
\<close>

definition listen :: "bool \<Rightarrow> connection option list \<Rightarrow> server_state \<times> connection pool \<Rightarrow> server_state \<times> connection pool" where
  "listen bound incoming sys =
     (if bound then fold (\<lambda>c sys. case c of None \<Rightarrow> sys | Some conn \<Rightarrow> accept_connection conn sys) incoming sys else sys)"

definition tls_listen :: "('cert, 'key, 'tls) tls_crates \<Rightarrow> tls_listener_config \<Rightarrow> bool \<Rightarrow> connection option list \<Rightarrow>
    server_state \<times> connection pool \<Rightarrow> server_state \<times> connection pool" where
  "tls_listen cr cfg bound incoming sys =
     (case load_tls_config cr (tls_cert_path cfg) (tls_key_path cfg) of
        Inl e \<Rightarrow> sys | Inr tls \<Rightarrow> listen bound incoming sys)"

section \<open>Which counters a query moves\<close>

text \<open>The events that only arrivals and refusals record; answering a query records none of them.\<close>

definition traffic_event :: "metric_event \<Rightarrow> bool" where
  "traffic_event e \<longleftrightarrow> e \<in> {Query_seen, Udp_query_seen, Tcp_query_seen, Rate_limited_seen, Recursion_limit_seen, Connection_dropped}"

abbreviation seen :: "metric_event \<Rightarrow> server_state \<Rightarrow> u64" where
  "seen e st \<equiv> event_count e (s_metrics st)"

named_theorems counting "how the counters of arrivals and refusals move"

lemma seen_quiet [counting]:
  assumes "traffic_event e"
  shows "event_count e (record_cache_hit m) = event_count e m" "event_count e (record_cache_miss m) = event_count e m"
    "event_count e (record_success m) = event_count e m" "event_count e (record_nxdomain m) = event_count e m"
    "event_count e (record_servfail m) = event_count e m" "event_count e (record_dnssec_valid m) = event_count e m"
    "event_count e (record_dnssec_bogus m) = event_count e m" "event_count e (record_query_time ns m) = event_count e m"
  using assms by (auto simp: traffic_event_def metrics_defs)

lemma seen_traffic [counting]:
  assumes "traffic_event e"
  shows "event_count e (record_query m) = event_count e m + (if e = Query_seen then 1 else 0)"
    "event_count e (record_udp_query m) = event_count e m + (if e = Udp_query_seen then 1 else 0)"
    "event_count e (record_tcp_query m) = event_count e m + (if e = Tcp_query_seen then 1 else 0)"
    "event_count e (record_dropped_rate_limited m) = event_count e m + (if e = Rate_limited_seen then 1 else 0)"
    "event_count e (record_dropped_recursion_limit m) = event_count e m + (if e = Recursion_limit_seen then 1 else 0)"
    "event_count e (record_dropped_connection m) = event_count e m + (if e = Connection_dropped then 1 else 0)"
  using assms by (auto simp: traffic_event_def metrics_defs)

declare event_count.simps [simp del]

lemma seen_count [counting]:
  "s_metrics (count f st) = f (s_metrics st)"
  "s_metrics (timed env st) = record_query_time (e_elapsed env) (s_metrics st)"
  by (simp_all add: count_def timed_def)

lemma seen_recursively [counting]:
  "traffic_event e \<Longrightarrow> seen e (snd (answer_recursively env pkt q resp st)) = seen e st"
  by (auto simp: answer_recursively_def Let_def case_prod_beta counting
      split: ResolveResult.split option.split ValidationResult.split)

lemma seen_from_cache [counting]:
  "traffic_event e \<Longrightarrow> seen e (snd (answer_from_cache env peer recursion pkt q resp st)) = seen e st"
  by (auto simp: answer_from_cache_def Let_def case_prod_beta counting
      split: option.split CacheValue.split NegativeKind.split)

lemma seen_authoritatively [counting]:
  "traffic_event e \<Longrightarrow> event_count e (snd (answer_authoritatively sha1 z d q resp) m) = event_count e m"
  by (auto simp: answer_authoritatively_def Let_def case_prod_beta counting)

lemma seen_answer_packet [counting]:
  "traffic_event e \<Longrightarrow> seen e (snd (answer_packet env peer recursion pkt st)) = seen e st"
  by (auto simp: answer_packet_def Let_def case_prod_beta counting split: list.split option.split)

lemma seen_handle_query [counting]:
  "traffic_event e \<Longrightarrow> seen e (snd (handle_query env data peer recursion st)) =
    seen e st + (if e = Query_seen \<and> recursion \<noteq> Resume then 1 else 0)"
  by (auto simp: handle_query_def Let_def counting split: sum.split)

lemma seen_respond [counting]:
  "traffic_event e \<Longrightarrow> seen e (snd (respond env data peer recursion st)) =
    seen e st + (if e = Query_seen \<and> recursion \<noteq> Resume then 1 else 0)"
  using seen_handle_query [of e env data peer recursion st]
  by (auto simp: respond_def split: prod.split Answer.split option.split)

lemma seen_admit [counting]:
  "traffic_event e \<Longrightarrow> seen e (snd (admit env peer st)) =
    seen e st + (if e = Rate_limited_seen \<and> \<not> fst (admit env peer st) then 1 else 0)"
  by (auto simp: admit_def Let_def case_prod_beta counting split: option.split)

lemma seen_public [counting]:
  "traffic_event e \<Longrightarrow> seen e (snd (handle_query_public env data peer st)) =
    seen e st + (if e = Query_seen \<and> fst (admit env peer st) \<or> e = Rate_limited_seen \<and> \<not> fst (admit env peer st) then 1 else 0)"
  using seen_admit [of e env peer st] seen_respond [of e env data peer InlineRecursion "snd (admit env peer st)"]
  by (auto simp: handle_query_public_def split: prod.split Answer.split bool.split)

lemma seen_udp_step [counting]:
  "traffic_event e \<Longrightarrow> seen e (snd (udp_receive_step env room data peer st)) =
    seen e st + (if fst (admit env peer st)
      then (if e = Udp_query_seen \<or> e = Query_seen then 1 else 0) +
        (if e = Recursion_limit_seen \<and> fst (udp_receive_step env room data peer st) = Dropped then 1 else 0)
      else if e = Rate_limited_seen then 1 else 0)"
proof -
  assume e: "traffic_event e"
  obtain ok st1 where adm: "admit env peer st = (ok, st1)" by fastforce
  obtain ans st2 where res: "respond env data peer Defer (count record_udp_query st1) = (ans, st2)" by fastforce
  from seen_admit [OF e, of env peer st] seen_respond [OF e, of env data peer Defer "count record_udp_query st1"] e show ?thesis
    unfolding adm res
    by (auto simp: udp_receive_step_def adm res counting split: Answer.split bool.split option.split)
qed

lemma seen_udp_job [counting]: "traffic_event e \<Longrightarrow> seen e (snd (udp_job env data peer st)) = seen e st"
proof -
  assume e: "traffic_event e"
  obtain ans st1 where res: "respond env data peer Resume st = (ans, st1)" by fastforce
  from seen_respond [OF e, of env data peer Resume st] show ?thesis
    unfolding res by (auto simp: udp_job_def res split: Answer.split option.split)
qed

text \<open>Whether a TCP message is a transfer, which is answered before the admission of queries.\<close>

definition is_transfer :: "env \<Rightarrow> u8 list \<Rightarrow> server_state \<Rightarrow> bool" where
  "is_transfer env data st \<longleftrightarrow> maybe_zone_transfer env data (count record_tcp_query st) \<noteq> Inr None"

lemma seen_tcp_message [counting]:
  "traffic_event e \<Longrightarrow> seen e (snd (tcp_message env data peer st)) =
    seen e st + (if e = Tcp_query_seen then 1 else 0) +
    (if \<not> is_transfer env data st \<and>
        (e = Query_seen \<and> fst (admit env peer (count record_tcp_query st)) \<or>
         e = Rate_limited_seen \<and> \<not> fst (admit env peer (count record_tcp_query st))) then 1 else 0)"
proof -
  assume e: "traffic_event e"
  obtain r st1 where eq: "handle_query_public env data peer (count record_tcp_query st) = (r, st1)" by fastforce
  from seen_public [OF e, of env data peer "count record_tcp_query st"] e show ?thesis
    unfolding eq by (auto simp: tcp_message_def is_transfer_def Let_def counting eq split: option.split sum.split)
qed

text \<open>A session is a sequence of messages, so it keeps what every message keeps.\<close>

context framed_session
begin

lemma session_reaches: "(\<lambda>st st'. \<exists>m. st' = snd (answer m st))\<^sup>*\<^sup>* st (snd (session stream st))"
proof (induction "length stream" arbitrary: stream st rule: less_induct)
  case less
  show ?case
  proof (cases "length stream < 2 \<or> unat (of_be16 (stream ! 0) (stream ! 1)) = 0 \<or>
      length stream < 2 + unat (of_be16 (stream ! 0) (stream ! 1))")
    case True
    then show ?thesis by (subst session_eq) (auto simp: Let_def)
  next
    case False
    let ?q = "unat (of_be16 (stream ! 0) (stream ! 1))"
    obtain out st1 where a: "answer (take ?q (drop 2 stream)) st = (out, st1)" by fastforce
    have "length (drop (2 + ?q) stream) < length stream" using False by auto
    from less.hyps [OF this, of st1] have "(\<lambda>st st'. \<exists>m. st' = snd (answer m st))\<^sup>*\<^sup>* st (snd (session (drop (2 + ?q) stream) st1))"
      by (rule converse_rtranclp_into_rtranclp [rotated]) (metis a snd_conv)
    moreover have "snd (session stream st) = snd (session (drop (2 + ?q) stream) st1)"
      using False a by (subst session_eq) (auto simp: Let_def split: prod.split)
    ultimately show ?thesis by simp
  qed
qed

end

locale keeping_session = framed_session +
  fixes view :: "'a \<Rightarrow> 'v"
  assumes answer_keeps: "view (snd (answer m st)) = view st"

sublocale keeping_session \<subseteq> kept: transition_invariant "\<lambda>st st'. \<exists>m. st' = snd (answer m st)" "\<lambda>st. view st = v" for v
  by unfold_locales (auto simp: answer_keeps)

context keeping_session
begin

lemma session_keeps: "view (snd (session stream st)) = view st"
  by (rule kept.reachable [OF session_reaches]) simp

end

lemma seen_dot_message:
  "traffic_event e \<Longrightarrow> e \<notin> {Tcp_query_seen, Query_seen, Rate_limited_seen} \<Longrightarrow> seen e (snd (dot_message env data peer st)) = seen e st"
proof -
  assume e: "traffic_event e" "e \<notin> {Tcp_query_seen, Query_seen, Rate_limited_seen}"
  obtain r st1 where eq: "handle_query_public env data peer (count record_tcp_query st) = (r, st1)" by fastforce
  from seen_public [OF e(1), of env data peer "count record_tcp_query st"] e show ?thesis
    unfolding eq by (auto simp: dot_message_def counting eq split: option.split)
qed

interpretation tcp_drops: keeping_session "\<lambda>m st. tcp_message env m peer st" "\<lambda>s st. tcp_session env s peer st"
  "seen Connection_dropped" for env peer
  by unfold_locales (simp add: seen_tcp_message traffic_event_def)

interpretation dot_drops: keeping_session "\<lambda>m st. dot_message env m peer st" "\<lambda>s st. dot_session env s peer st"
  "seen Connection_dropped" for env peer
  by unfold_locales (simp add: seen_dot_message traffic_event_def)

lemma seen_http:
  "traffic_event e \<Longrightarrow> e \<notin> {Tcp_query_seen, Query_seen, Rate_limited_seen} \<Longrightarrow> seen e (snd (handle_http env base64url s peer st)) = seen e st"
  using seen_public [of e env _ peer "count record_tcp_query st"]
  by (auto simp: handle_http_def answer_http_def case_prod_beta counting
      split: prod.split head.split request.split option.split)

lemma job_drops_none: "seen Connection_dropped (snd (connection_job env base64url c st)) = seen Connection_dropped st"
  using seen_http [of Connection_dropped env base64url]
  by (cases c) (auto simp: tcp_drops.session_keeps dot_drops.session_keeps traffic_event_def case_prod_beta)

section \<open>Every query is accounted for\<close>

text \<open>
  A run of the server from \<open>st\<close>, in which \<open>n\<close> queries were offered: datagrams, messages over TCP that are
  no transfers, messages over TLS or HTTPS; with queued lookups, sweeps and reloads at any place.
\<close>

inductive traffic :: "server_state \<Rightarrow> nat \<Rightarrow> server_state \<Rightarrow> bool" where
  none: "traffic st 0 st"
| datagram: "traffic st n st1 \<Longrightarrow> traffic st (Suc n) (snd (udp_receive_step env room data peer st1))"
| job: "traffic st n st1 \<Longrightarrow> traffic st n (snd (udp_job env data peer st1))"
| message: "traffic st n st1 \<Longrightarrow>
    traffic st (if is_transfer env data st1 then n else Suc n) (snd (tcp_message env data peer st1))"
| secure: "traffic st n st1 \<Longrightarrow> traffic st (Suc n) (snd (handle_query_public env data peer (count record_tcp_query st1)))"
| evict: "traffic st n st1 \<Longrightarrow> traffic st n (evict_step env st1)"
| reload: "traffic st n st1 \<Longrightarrow> traffic st n (reload_step (read_zone :: string \<Rightarrow> string \<Rightarrow> string + zone) st1)"

definition offered :: "server_state \<Rightarrow> u64" where
  "offered st = seen Query_seen st + seen Rate_limited_seen st"

lemma offered_traffic: "traffic st n st' \<Longrightarrow> offered st' = offered st + of_nat n"
proof (induction rule: traffic.induct)
  case (evict st n st1 env)
  then show ?case by (simp add: offered_def evict_step_def)
next
  case (reload st n st1 read_zone)
  then show ?case by (simp add: offered_def reload_step_def Let_def)
qed (auto simp: offered_def counting traffic_event_def)

lemma startup_metrics: "startup h arg = Inr (st, rc) \<Longrightarrow> s_metrics st = metrics_new"
  by (auto simp: startup_def startup_state_def split: sum.splits option.splits)

lemma unat_sum_mod: "(unat a + unat b) mod 2 ^ 64 = unat (a + b :: u64)"
  by (simp add: unat_word_ariths)



section \<open>Every connection is accounted for\<close>

text \<open>
  The server and its connection pool: a listener offers a connection, a worker takes one, ends it after
  its session, by a panic or not, and between these other queries are served.
\<close>

inductive conn_step :: "server_state \<times> connection pool \<Rightarrow> connection pool_event option \<Rightarrow>
    server_state \<times> connection pool \<Rightarrow> bool" where
  accept: "p_open p \<Longrightarrow> conn_step (st, p) (Some (Submitted c (fst (submit c p)))) (accept_connection c (st, p))"
| take: "pool_step p (Taken i c) p' \<Longrightarrow> conn_step (st, p) (Some (Taken i c)) (st, p')"
| finish: "connection_job env base64url c st = (panicked, st') \<Longrightarrow> pool_step p (Ended i c panicked) p' \<Longrightarrow>
    conn_step (st, p) (Some (Ended i c panicked)) (st', p')"
| datagram: "conn_step (st, p) None (snd (udp_receive_step env room data peer st), p)"
| job: "conn_step (st, p) None (snd (udp_job env data peer st), p)"
| evict: "conn_step (st, p) None (evict_step env st, p)"
| reload: "conn_step (st, p) None (reload_step (read_zone :: string \<Rightarrow> string \<Rightarrow> string + zone) st, p)"

inductive conn_run :: "server_state \<times> connection pool \<Rightarrow> connection pool_event list \<Rightarrow>
    server_state \<times> connection pool \<Rightarrow> bool" where
  start: "conn_run sys [] sys"
| step: "conn_run sys evs sys' \<Longrightarrow> conn_step sys' e sys'' \<Longrightarrow> conn_run sys (evs @ (case e of Some e \<Rightarrow> [e] | None \<Rightarrow> [])) sys''"

fun refusal :: "'j pool_event \<Rightarrow> bool" where
  "refusal (Submitted j ok) = (\<not> ok)"
| "refusal _ = False"

fun offer :: "'j pool_event \<Rightarrow> bool" where
  "offer (Submitted j ok) = True"
| "offer _ = False"

lemma accept_pool: "snd (accept_connection c (st, p)) = snd (submit c p)"
  by (simp add: accept_connection_def case_prod_beta)

lemma accept_seen:
  "seen Connection_dropped (fst (accept_connection c (st, p))) = seen Connection_dropped st + (if fst (submit c p) then 0 else 1)"
  by (auto simp: accept_connection_def case_prod_beta counting traffic_event_def)

lemma conn_step_pool:
  "conn_step sys e sys' \<Longrightarrow> (case e of Some e \<Rightarrow> pool_step (snd sys) e (snd sys') | None \<Rightarrow> snd sys' = snd sys)"
proof (induction rule: conn_step.induct)
  case (accept p st c)
  then show ?case using pool_step.submit [OF accept] accept_pool [of c st p] by (metis option.simps(5) prod.collapse snd_conv)
qed simp_all

lemma conn_step_drops:
  "conn_step sys e sys' \<Longrightarrow> seen Connection_dropped (fst sys') = seen Connection_dropped (fst sys) +
    (case e of Some e \<Rightarrow> if refusal e then 1 else 0 | None \<Rightarrow> 0)"
proof (induction rule: conn_step.induct)
  case (accept p st c)
  then show ?case by (simp add: accept_seen)
next
  case (finish env base64url c st panicked st' p i p')
  then show ?case using job_drops_none [of env base64url c st] by simp
next
  case (evict st p env)
  then show ?case by (simp add: evict_step_def)
next
  case (reload st p read_zone)
  then show ?case by (simp add: reload_step_def Let_def)
qed (auto simp: counting traffic_event_def)

lemma conn_run_pool: "conn_run sys evs sys' \<Longrightarrow> pool_run (snd sys) evs (snd sys')"
proof (induction rule: conn_run.induct)
  case (step sys evs sys' e sys'')
  then show ?case using conn_step_pool [OF step.hyps(2)] by (cases e) (auto intro: pool_run.step)
qed (rule pool_run.start)

lemma conn_run_drops:
  "conn_run sys evs sys' \<Longrightarrow>
    seen Connection_dropped (fst sys') = seen Connection_dropped (fst sys) + of_nat (length (filter refusal evs))"
proof (induction rule: conn_run.induct)
  case (step sys evs sys' e sys'')
  then show ?case using conn_step_drops [OF step.hyps(2)] by (cases e) auto
qed simp

lemma offers_split: "length (filter offer evs) = length (accepted evs) + length (filter refusal evs)"
proof (induction evs)
  case (Cons e evs)
  then show ?case by (cases e) (auto simp: accepted_def)
qed (simp add: accepted_def)

text \<open>
  C32. From the start of the server, whatever clients do with their connections: every connection that was
  offered by a listener, over TCP, TLS or HTTPS, is either counted as dropped on the Prometheus page, or
  has been served to its end, or is with a worker, or waits in a queue that is never longer than the
  number of workers; a session that panics loses no worker.
\<close>

theorem connections_accounted:
  assumes "startup h arg = Inr (st, rc)" "conn_run (st, connection_pool (s_config st)) evs (st', p)"
    "length (filter offer evs) < 2 ^ 64"
  shows "\<exists>dropped. scrape ''ironbind_dropped_connections'' (export_prometheus rnd (s_metrics st')) = Some (show_nat dropped) \<and>
    length (filter offer evs) = dropped + length (ended evs) + length (running p) + length (p_queue p) \<and>
    length (running p) \<le> pool_workers (s_config st) \<and> length (p_queue p) \<le> pool_workers (s_config st) \<and>
    (p_open p \<longrightarrow> length (p_workers p) = pool_workers (s_config st) \<and> Stopped \<notin> set (p_workers p))"
proof -
  let ?w = "pool_workers (s_config st)"
  have run: "pool_run (pool_new ?w ?w) evs p"
    using conn_run_pool [OF assms(2)] by (simp add: connection_pool_def)
  have inv: "pool_inv ?w ?w p" using pool_run_inv [OF run pool_new_inv] .
  have "mset (accepted evs) = mset (ended evs) + mset (running p) + mset (p_queue p)"
    using pool_run_accounts [OF run] by simp
  then have acc: "length (accepted evs) = length (ended evs) + length (running p) + length (p_queue p)"
    by (metis size_mset size_union)
  have "seen Connection_dropped st' = of_nat (length (filter refusal evs))"
    using conn_run_drops [OF assms(2)] by (simp add: startup_metrics [OF assms(1)])
  moreover have "length (filter refusal evs) < 2 ^ 64" using assms(3) offers_split [of evs] by linarith
  ultimately have "unat (seen Connection_dropped st') = length (filter refusal evs)"
    by (simp add: unat_of_nat)
  then have page: "scrape ''ironbind_dropped_connections'' (export_prometheus rnd (s_metrics st')) =
      Some (show_nat (length (filter refusal evs)))"
    using page_shows_count [of Connection_dropped] by simp
  show ?thesis
    using page acc offers_split [of evs] inv length_running [of p]
    by (intro exI [of _ "length (filter refusal evs)"]) (auto simp: pool_inv_def)
qed

lemma connections_accounted_witness:
  "\<exists>st rc st' p dropped. startup bare_host None = Inr (st, rc) \<and>
    (st', p) = accept_connection (Tcp_conn 0 (ipv4 192 0 2 1) [0, 1, 7]) (st, connection_pool (s_config st)) \<and>
    1 = dropped + length (running p) + length (p_queue p)"
proof -
  obtain st rc where st: "startup bare_host None = Inr (st, rc)"
    by (auto simp: startup_def startup_config_def server_config_default_def)
  let ?c = "Tcp_conn 0 (ipv4 192 0 2 1) [0, 1, 7]" and ?pool = "connection_pool (s_config st)"
  obtain st' p where sys: "(st', p) = accept_connection ?c (st, ?pool)" by (metis prod.collapse)
  have "p_open ?pool" by (simp add: connection_pool_def pool_new_def)
  from conn_run.step [OF conn_run.start conn_step.accept [OF this, of st ?c]]
  have "conn_run (st, ?pool) [Submitted ?c (fst (submit ?c ?pool))] (st', p)" by (simp add: sys)
  from connections_accounted [OF st this, of "\<lambda>x. x"] st sys show ?thesis by (fastforce simp: ended_def)
qed

section \<open>A reload in which the loader panics\<close>

text \<open>
  \<open>reload_all\<close> over the files that the loader reads, reports or panics on; the manager keeps what was
  loaded before the panic.
\<close>

fun reload_files :: "(string \<Rightarrow> string \<Rightarrow> load_error + zone) \<Rightarrow> (string \<times> string) list \<Rightarrow> zone_manager \<Rightarrow> bool \<times> zone_manager" where
  "reload_files read_zone [] zm = (False, zm)"
| "reload_files read_zone ((origin, path) # files) zm =
     (if read_zone origin path = Inl Panicked then (True, zm)
      else reload_files read_zone files (snd (load_zone read_zone origin path zm)))"

text \<open>
  One pass of the watcher.  A panic unwinds past the assignment of the served zones; the flag has been
  consumed by then, and the supervisor starts the loop again at the time \<open>restart\<close>, from which the day
  until the next signing counts.
\<close>

definition guarded_tick :: "nat \<Rightarrow> nat \<Rightarrow> (string \<Rightarrow> string \<Rightarrow> load_error + zone) \<Rightarrow> watcher \<Rightarrow> bool \<times> watcher" where
  "guarded_tick now restart read_zone w =
     (let resign_due = RESIGN_INTERVAL \<le> now - w_last w;
          (signalled, flag) = should_reload (w_flag w);
          st = w_state w
      in if signalled \<or> resign_due then
           (let (panicked, mgr) = reload_files read_zone (zm_files (s_manager st)) (s_manager st);
                reloaded = get_zones mgr
            in (panicked, w\<lparr>w_flag := flag, w_last := (if panicked then restart else now),
                  w_state := (if panicked then st\<lparr>s_manager := mgr\<rparr>
                    else st\<lparr>s_manager := mgr, s_zones := (if reloaded \<noteq> [] then reloaded else s_zones st)\<rparr>)\<rparr>))
         else (False, w\<lparr>w_flag := flag\<rparr>))"

definition file_panics :: "(string \<Rightarrow> string \<Rightarrow> load_error + zone) \<Rightarrow> string \<times> string \<Rightarrow> bool" where
  "file_panics read_zone f \<longleftrightarrow> read_zone (fst f) (snd f) = Inl Panicked"

lemma reload_files_panics: "fst (reload_files read_zone files zm) \<longleftrightarrow> list_ex (file_panics read_zone) files"
  by (induction read_zone files zm rule: reload_files.induct) (auto simp: file_panics_def)

lemma reload_files_all:
  assumes "\<not> list_ex (file_panics read_zone) files"
  shows "snd (reload_files read_zone files zm) =
    snd (fold (\<lambda>(origin, path) (count, zm). case load_zone read_zone origin path zm of
        (Inr _, zm') \<Rightarrow> (count + 1, zm') | (Inl _, zm') \<Rightarrow> (count, zm')) files (n, zm))"
  using assms
proof (induction files arbitrary: zm n)
  case (Cons f files)
  obtain origin path where f: "f = (origin, path)" by (cases f)
  obtain r zm1 where load: "load_zone read_zone origin path zm = (r, zm1)" by fastforce
  have "read_zone origin path \<noteq> Inl Panicked" "\<not> list_ex (file_panics read_zone) files"
    using Cons.prems by (simp_all add: f file_panics_def list_ex_iff)
  then show ?case using Cons.IH [of zm1 "n + 1"] Cons.IH [of zm1 n] by (simp add: f load split: sum.split)
qed simp

lemma load_zone_other:
  "origin' \<noteq> origin \<Longrightarrow> get_zone (snd (load_zone read_zone origin path zm)) origin' = get_zone zm origin'"
  by (auto simp: load_zone_def publish_zone_def get_zone_def record_delta_def Let_def update_conv'
      split: sum.split option.split)

lemma reload_files_stop:
  "\<not> list_ex (file_panics read_zone) pre \<Longrightarrow> file_panics read_zone f \<Longrightarrow> origin \<notin> fst ` set pre \<Longrightarrow>
    get_zone (snd (reload_files read_zone (pre @ f # post) zm)) origin = get_zone zm origin"
proof (induction pre arbitrary: zm)
  case Nil
  then show ?case by (cases f) (simp add: file_panics_def)
next
  case (Cons g pre)
  then show ?case by (cases g) (auto simp: file_panics_def load_zone_other)
qed

text \<open>
  C30. A reload in which no zone file makes the loader panic is the one of the plain watcher.  With such a
  file the pass ends there: the list of served zones is not replaced, the manager keeps its old copy of
  that zone and of every zone whose file comes later, and the signal that asked for the reload is used
  up, so that nothing is loaded again until another signal arrives or a day has gone by.
\<close>

theorem reload_stops_at_panic:
  assumes due: "w_flag w \<or> RESIGN_INTERVAL \<le> now - w_last w"
  shows "(\<not> list_ex (file_panics read_zone) (zm_files (s_manager (w_state w))) \<longrightarrow>
      guarded_tick now restart read_zone w = (False, watch_tick now read_zone w)) \<and>
    (zm_files (s_manager (w_state w)) = pre @ f # post \<and> \<not> list_ex (file_panics read_zone) pre \<and> file_panics read_zone f \<longrightarrow>
      (\<exists>w'. guarded_tick now restart read_zone w = (True, w') \<and> s_zones (w_state w') = s_zones (w_state w) \<and>
        (\<forall>origin. origin \<notin> fst ` set pre \<longrightarrow>
          get_zone (s_manager (w_state w')) origin = get_zone (s_manager (w_state w)) origin) \<and>
        \<not> w_flag w' \<and> (list_all (quiet_tick restart) later \<longrightarrow> watch_run later w' = w')))"
proof (intro conjI impI)
  let ?zm = "s_manager (w_state w)"
  assume ok: "\<not> list_ex (file_panics read_zone) (zm_files ?zm)"
  then have "reload_files read_zone (zm_files ?zm) ?zm = (False, snd (reload_all read_zone ?zm))"
    unfolding reload_all_def reload_files_all [OF ok, of ?zm 0, symmetric]
    using reload_files_panics [of read_zone "zm_files ?zm" ?zm] by (intro prod_eqI) (simp_all only: fst_conv snd_conv simp_thms)
  then show "guarded_tick now restart read_zone w = (False, watch_tick now read_zone w)"
    using due by (simp add: guarded_tick_def watch_tick_def should_reload_def reload_step_def Let_def)
next
  let ?zm = "s_manager (w_state w)"
  assume f: "zm_files ?zm = pre @ f # post \<and> \<not> list_ex (file_panics read_zone) pre \<and> file_panics read_zone f"
  define mgr where "mgr = snd (reload_files read_zone (zm_files ?zm) ?zm)"
  define w' where "w' = w\<lparr>w_flag := False, w_last := restart, w_state := (w_state w)\<lparr>s_manager := mgr\<rparr>\<rparr>"
  have "fst (reload_files read_zone (zm_files ?zm) ?zm)" using f by (simp add: reload_files_panics)
  then have "guarded_tick now restart read_zone w = (True, w')"
    using due by (auto simp: guarded_tick_def should_reload_def Let_def case_prod_beta mgr_def w'_def)
  moreover have "get_zone mgr origin = get_zone ?zm origin" if "origin \<notin> fst ` set pre" for origin
    using reload_files_stop [of read_zone pre f origin post ?zm] f that by (simp add: mgr_def)
  moreover have "list_all (quiet_tick restart) later \<Longrightarrow> watch_run later w' = w'"
    by (rule quiet_ticks) (simp_all add: w'_def)
  ultimately show "\<exists>w'. guarded_tick now restart read_zone w = (True, w') \<and> s_zones (w_state w') = s_zones (w_state w) \<and>
        (\<forall>origin. origin \<notin> fst ` set pre \<longrightarrow>
          get_zone (s_manager (w_state w')) origin = get_zone (s_manager (w_state w)) origin) \<and>
        \<not> w_flag w' \<and> (list_all (quiet_tick restart) later \<longrightarrow> watch_run later w' = w')"
    by (intro exI [of _ w']) (simp add: w'_def)
qed

lemma reload_stops_at_panic_witness:
  "\<exists>w'. guarded_tick 5 9 (\<lambda>origin path. Inl Panicked)
      \<lparr>w_flag = True, w_last = 0, w_state = (sample_state [])\<lparr>s_manager := zm_new\<lparr>zm_files := [(''e'', ''e.zone'')]\<rparr>\<rparr>\<rparr> =
    (True, w') \<and> \<not> w_flag w'"
  using reload_stops_at_panic [of "\<lparr>w_flag = True, w_last = 0,
      w_state = (sample_state [])\<lparr>s_manager := zm_new\<lparr>zm_files := [(''e'', ''e.zone'')]\<rparr>\<rparr>\<rparr>" 5
      "\<lambda>origin path. Inl Panicked" 9 "[]" "(''e'', ''e.zone'')" "[]" "[]"]
  by (auto simp: file_panics_def)

section \<open>What is started\<close>

text \<open>The loops over UDP and TCP and the two background loops run under every configuration.\<close>

lemma services_always: "{Cache_eviction, Reload_watcher, Tcp_listener (bind_addr cfg), Udp_receivers (bind_addr cfg)} \<subseteq> set (services cfg)"
  by (simp add: services_def)

lemma services_optional:
  "Metrics_endpoint p \<in> set (services cfg) \<longleftrightarrow> p = metrics_port cfg \<and> 0 < p"
  "Dot_listener d \<in> set (services cfg) \<longleftrightarrow> c_dot cfg = Some d"
  "Doh_listener d \<in> set (services cfg) \<longleftrightarrow> c_doh cfg = Some d"
  by (auto simp: services_def split: option.splits)

lemma udp_loop_receivers: "udp_loop True (\<lambda>i. True) cfg \<noteq> [] \<and> length (udp_loop True (\<lambda>i. True) cfg) = max (unat (udp_receivers cfg)) 1"
  by (simp add: udp_loop_def)

text \<open>A listener only offers connections: one run of it is a run of the accounting above.\<close>

lemma accept_keeps_open: "p_open (snd (accept_connection c sys)) = p_open (snd sys)"
  by (cases sys) (auto simp: accept_connection_def submit_def case_prod_beta split: option.split)

lemma listen_run:
  "p_open (snd sys) \<Longrightarrow> \<exists>evs. conn_run sys evs (listen bound incoming sys) \<and> length (filter offer evs) =
    (if bound then length (filter (\<lambda>c. c \<noteq> None) incoming) else 0)"
proof (induction incoming rule: rev_induct)
  case Nil
  then show ?case by (intro exI [of _ "[]"]) (simp add: listen_def conn_run.start)
next
  case (snoc c incoming)
  then obtain evs where evs: "conn_run sys evs (listen bound incoming sys)"
    "length (filter offer evs) = (if bound then length (filter (\<lambda>c. c \<noteq> None) incoming) else 0)" by blast
  show ?case
  proof (cases "bound \<and> c \<noteq> None")
    case True
    then obtain conn where c: "c = Some conn" by blast
    obtain st p where sys: "listen bound incoming sys = (st, p)" by fastforce
    have "p_open (snd (fold (\<lambda>c sys. case c of None \<Rightarrow> sys | Some conn \<Rightarrow> accept_connection conn sys) cs sys))" for cs
      using snoc.prems by (induction cs rule: rev_induct) (auto simp: accept_keeps_open split: option.split)
    then have "p_open p" using sys snoc.prems True by (metis listen_def snd_conv)
    from conn_run.step [OF evs(1) [unfolded sys] conn_step.accept [OF this, of st conn]]
    have "conn_run sys (evs @ [Submitted conn (fst (submit conn p))]) (accept_connection conn (st, p))" by simp
    moreover have "listen bound (incoming @ [c]) sys = accept_connection conn (st, p)"
      using sys True by (simp add: listen_def c)
    ultimately show ?thesis using evs(2) True
      by (intro exI [of _ "evs @ [Submitted conn (fst (submit conn p))]"]) simp
  next
    case False
    then have "listen bound (incoming @ [c]) sys = listen bound incoming sys"
      by (auto simp: listen_def split: option.split)
    then show ?thesis using evs False by (intro exI [of _ evs]) auto
  qed
qed

end
