(* ===== verification/ResolverWork.thy ===== *)
theory ResolverWork
  imports Resolver
begin

text \<open>
  How much the resolver of \<open>src/src/resolver.rs\<close> can be made to do: whatever the network answers, one
  resolution ends after a bounded number of exchanges.  The bound comes from the code's own limits
  (\<open>MAX_REFERRALS\<close>, \<open>MAX_NS_LOOKUP_DEPTH\<close>, no server asked twice for a name) and from the number of
  records that fit into a message.
\<close>

section \<open>Replies are bounded\<close>

text \<open>A record takes at least 11 bytes of a message of at most 65535, behind a header of 12.\<close>

definition MAX_RECORDS :: nat where "MAX_RECORDS = 5956"

definition record_count :: "packet \<Rightarrow> nat" where
  "record_count p = length (p_answers p) + length (p_authority p) + length (p_additional p)"

lemma parse_records:
  assumes "parse buf = Inr p" "length buf \<le> 65535"
  shows "record_count p \<le> MAX_RECORDS"
proof -
  obtain n where "length (p_additional p) \<le> n"
    "12 + 5 * length (p_questions p) + 11 * (length (p_answers p) + length (p_authority p) + n) \<le> length buf"
    using parse_bounded [OF assms(1)] by blast
  then show ?thesis using assms(2) by (simp add: record_count_def MAX_RECORDS_def)
qed

lemma tcp_exchange_records: "tcp_exchange net k q a = Some p \<Longrightarrow> record_count p \<le> MAX_RECORDS"
proof -
  assume "tcp_exchange net k q a = Some p"
  then obtain stream where "parse (take (unat (of_be16 (stream ! 0) (stream ! 1))) (drop 2 stream)) = Inr p"
    by (auto simp: tcp_exchange_def Let_def split: sum.splits if_splits)
  moreover have "unat (of_be16 (stream ! 0) (stream ! 1)) \<le> 65535"
    using unat_u16_less [of "of_be16 (stream ! 0) (stream ! 1)"] by linarith
  ultimately show ?thesis by (intro parse_records) auto
qed

lemma udp_receive_records: "udp_receive net k q a e evs = Some p \<Longrightarrow> record_count p \<le> MAX_RECORDS"
proof (induction net k q a e evs rule: udp_receive.induct)
  case (3 net k q a e d evs)
  then show ?case
    using parse_records [of "take 4096 d"] by (auto split: sum.splits if_splits dest: tcp_exchange_records)
qed simp_all

lemma udp_exchange_records: "udp_exchange net k q a = Some p \<Longrightarrow> record_count p \<le> MAX_RECORDS"
  by (auto simp: udp_exchange_def split: sum.splits dest: udp_receive_records)

section \<open>One round\<close>

text \<open>Every address of the list is asked at most once, and not at all if it has been asked before.\<close>

lemma ask_servers_work:
  assumes "ask_servers net q name nss seen k = (resp, seen', k')"
  shows "k \<le> k' \<and> k' \<le> k + card (set nss) \<and> (\<forall>p. resp = Some p \<longrightarrow> record_count p \<le> MAX_RECORDS)"
proof -
  have "k \<le> k' \<and> k' \<le> k + card {ns \<in> set nss. (name, ns) \<notin> seen} \<and> (\<forall>p. resp = Some p \<longrightarrow> record_count p \<le> MAX_RECORDS)"
    using assms
  proof (induction net q name nss seen k rule: ask_servers.induct)
    case (2 net q name ns nss seen k)
    show ?case
    proof (cases "(name, ns) \<in> seen")
      case True
      then have "{x \<in> set (ns # nss). (name, x) \<notin> seen} = {x \<in> set nss. (name, x) \<notin> seen}" by auto
      then show ?thesis using 2 True by simp
    next
      case False
      have "{x \<in> set (ns # nss). (name, x) \<notin> seen} = insert ns {x \<in> set nss. (name, x) \<notin> insert (name, ns) seen}"
        using False by auto
      then have c: "card {x \<in> set (ns # nss). (name, x) \<notin> seen} = Suc (card {x \<in> set nss. (name, x) \<notin> insert (name, ns) seen})"
        by simp
      show ?thesis
      proof (cases "udp_exchange net k q ns")
        case None
        then show ?thesis using 2 False c by fastforce
      next
        case (Some p)
        then show ?thesis using 2(3) False c udp_exchange_records by auto
      qed
    qed
  qed simp
  moreover have "card {ns \<in> set nss. (name, ns) \<notin> seen} \<le> card (set nss)" by (intro card_mono) auto
  ultimately show ?thesis by auto
qed

declare a_address.simps [simp del]

lemma card_address: "card (set (a_address r)) \<le> 1"
proof -
  have "length (a_address r) \<le> 1" by (simp add: a_address.simps)
  then show ?thesis using card_length [of "a_address r"] by linarith
qed

lemma card_addresses: "card (\<Union>r\<in>set rs. set (a_address r)) \<le> length rs"
proof -
  have "card (\<Union>r\<in>set rs. set (a_address r)) \<le> (\<Sum>r\<in>set rs. card (set (a_address r)))" by (rule card_UN_le) simp
  also have "\<dots> \<le> (\<Sum>r\<in>set rs. 1)" by (rule sum_mono) (rule card_address)
  also have "\<dots> \<le> length rs" by (simp add: card_length)
  finally show ?thesis .
qed

lemma card_glue: "card (set (glue names p)) \<le> record_count p"
proof -
  have "set (glue names p) \<subseteq> (\<Union>r\<in>set (p_additional p). set (a_address r))" by (auto simp: glue_def)
  then have "card (set (glue names p)) \<le> card (\<Union>r\<in>set (p_additional p). set (a_address r))" by (intro card_mono) auto
  then show ?thesis using card_addresses [of "p_additional p"] by (simp add: record_count_def)
qed

lemma length_ns_names: "length (ns_names_of zone p) \<le> record_count p"
proof -
  have "length (ns_names_of zone p) \<le> length (p_authority p)"
    unfolding ns_names_of_def by (metis (no_types, lifting) length_filter_le length_map order_trans)
  then show ?thesis by (simp add: record_count_def)
qed

lemma retain_records: "record_count (retain_bailiwick zone p) \<le> record_count p"
  by (simp add: record_count_def retain_bailiwick_def add_mono)

section \<open>Lookups of bounded work\<close>

text \<open>
  What the iteration relies on when it looks up the address of a name server: a lookup takes at most
  \<open>bound\<close> exchanges and its answer came in one message.
\<close>

locale bounded_lookup =
  fixes look :: lookup and bound :: nat
  assumes work: "look name t k = (res, k') \<Longrightarrow> k \<le> k' \<and> k' \<le> k + bound"
    and answer: "look name t k = (ResAnswer p, k') \<Longrightarrow> record_count p \<le> MAX_RECORDS"
begin

lemma resolve_ns_work:
  "resolve_ns look nss k = (ips, k') \<Longrightarrow>
    k \<le> k' \<and> k' \<le> k + length nss * bound \<and> card (set ips) \<le> MAX_RECORDS"
proof (induction nss arbitrary: k)
  case (Cons ns nss)
  obtain res k1 where look: "look ns A k = (res, k1)" by (cases "look ns A k")
  let ?ips = "case res of ResAnswer p \<Rightarrow> concat (map a_address (p_answers p)) | _ \<Rightarrow> []"
  have first: "k \<le> k1" "k1 \<le> k + bound" using work [OF look] by simp_all
  show ?case
  proof (cases "?ips = []")
    case True
    then have "resolve_ns look nss k1 = (ips, k')" using Cons.prems look by simp
    from Cons.IH [OF this] first show ?thesis by simp
  next
    case False
    then obtain p where p: "res = ResAnswer p" by (auto split: ResolveResult.splits)
    have "card (set ?ips) \<le> length (p_answers p)" using card_addresses [of "p_answers p"] p by simp
    also have "\<dots> \<le> MAX_RECORDS" using answer look p by (force simp: record_count_def)
    finally show ?thesis using Cons.prems look first False by auto
  qed
qed simp

lemma next_servers_work:
  assumes "(case glue names p of [] \<Rightarrow> resolve_ns look names k | ips \<Rightarrow> (ips, k)) = (ips, k')"
    and p: "record_count p \<le> MAX_RECORDS" "length names \<le> record_count p"
  shows "k \<le> k' \<and> k' \<le> k + MAX_RECORDS * bound \<and> card (set ips) \<le> MAX_RECORDS"
proof (cases "glue names p")
  case Nil
  then have "resolve_ns look names k = (ips, k')" using assms(1) by simp
  then have r: "k \<le> k' \<and> k' \<le> k + length names * bound \<and> card (set ips) \<le> MAX_RECORDS" by (rule resolve_ns_work)
  have "length names * bound \<le> MAX_RECORDS * bound" using p by (intro mult_le_mono1) linarith
  with r show ?thesis by linarith
next
  case (Cons ip more)
  then have "ips = glue names p" "k' = k" using assms(1) by auto
  then show ?thesis using card_glue [of names p] p(1) by simp
qed

abbreviation round_bound :: nat where
  "round_bound \<equiv> MAX_RECORDS + MAX_RECORDS * bound"

text \<open>What a round does with the reply it got: it ends the loop or goes on, within its share of work.\<close>

lemma reply_work:
  assumes res: "(case classify qtype st pkt of
      Finish res \<Rightarrow> (res, k)
    | FollowCname target \<Rightarrow>
        resolve_loop net look qtype n
          (st\<lparr>cname_chain := cname_chain st @ [current_name st], current_name := target,
              nameservers := ROOT_SERVERS, current_zone := ''.''\<rparr>) k
    | Referral zone names \<Rightarrow>
        (let (ips, k) = (case glue names pkt of [] \<Rightarrow> resolve_ns look names k | ips \<Rightarrow> (ips, k))
         in if ips = [] then (ResServFail NoNsAddress, k)
            else resolve_loop net look qtype n (st\<lparr>nameservers := ips, current_zone := zone\<rparr>) k)) = (res, k')"
    and pkt: "record_count pkt \<le> MAX_RECORDS"
  shows "k \<le> k' \<and> k' \<le> k + MAX_RECORDS * bound \<and> (\<forall>p. res = ResAnswer p \<longrightarrow> record_count p \<le> MAX_RECORDS) \<or>
    (\<exists>st1 k1. resolve_loop net look qtype n st1 k1 = (res, k') \<and> k \<le> k1 \<and> k1 \<le> k + MAX_RECORDS * bound \<and>
      card (set (nameservers st1)) \<le> MAX_RECORDS)"
proof (cases "classify qtype st pkt")
  case (Finish r)
  then have "res = r" "k' = k" using res by simp_all
  moreover have "\<forall>p. r = ResAnswer p \<longrightarrow> p = pkt"
    using Finish by (auto simp: classify_def Let_def split: if_splits option.splits)
  ultimately show ?thesis using pkt by auto
next
  case (FollowCname target)
  have "card (set ROOT_SERVERS) \<le> MAX_RECORDS"
    using card_length [of ROOT_SERVERS] by (simp add: ROOT_SERVERS_def MAX_RECORDS_def)
  then show ?thesis using FollowCname res by (intro disjI2) fastforce
next
  case (Referral zone names)
  obtain ips k2 where next_ns: "(case glue names pkt of [] \<Rightarrow> resolve_ns look names k | ips \<Rightarrow> (ips, k)) = (ips, k2)"
    by fastforce
  have "names = ns_names_of zone pkt"
    using Referral by (auto simp: classify_def Let_def split: if_splits option.splits)
  then have k2: "k \<le> k2 \<and> k2 \<le> k + MAX_RECORDS * bound \<and> card (set ips) \<le> MAX_RECORDS"
    using next_servers_work [OF next_ns pkt] length_ns_names by blast
  show ?thesis
  proof (cases "ips = []")
    case True
    then show ?thesis using Referral res next_ns k2 by (auto simp: Let_def)
  next
    case False
    then have "resolve_loop net look qtype n (st\<lparr>nameservers := ips, current_zone := zone\<rparr>) k2 = (res, k')"
      using Referral res next_ns by (auto simp: Let_def)
    then show ?thesis using k2 by (intro disjI2) fastforce
  qed
qed

lemma resolve_loop_work:
  "resolve_loop net look qtype n st k = (res, k') \<Longrightarrow> card (set (nameservers st)) \<le> MAX_RECORDS \<Longrightarrow>
    k \<le> k' \<and> k' \<le> k + n * round_bound \<and> (\<forall>p. res = ResAnswer p \<longrightarrow> record_count p \<le> MAX_RECORDS)"
proof (induction n arbitrary: st k)
  case (Suc n)
  obtain resp seen k1 where ask: "ask_servers net (build_query (net_id net k) (current_name st) qtype False)
      (current_name st) (nameservers st) (visited st) k = (resp, seen, k1)"
    using prod_cases3 by blast
  have k1: "k \<le> k1" "k1 \<le> k + MAX_RECORDS" using ask_servers_work [OF ask] Suc.prems(2) by linarith+
  show ?case
  proof (cases resp)
    case None
    then show ?thesis using Suc.prems(1) ask k1 by (auto simp: Let_def)
  next
    case (Some reply)
    have "record_count (retain_bailiwick (current_zone st) reply) \<le> MAX_RECORDS"
      using ask_servers_work [OF ask] Some retain_records order_trans by blast
    then have "k1 \<le> k' \<and> k' \<le> k1 + MAX_RECORDS * bound \<and> (\<forall>p. res = ResAnswer p \<longrightarrow> record_count p \<le> MAX_RECORDS) \<or>
        (\<exists>st2 k2. resolve_loop net look qtype n st2 k2 = (res, k') \<and> k1 \<le> k2 \<and> k2 \<le> k1 + MAX_RECORDS * bound \<and>
          card (set (nameservers st2)) \<le> MAX_RECORDS)"
      using Suc.prems(1) ask Some
      by (intro reply_work [where st = "st\<lparr>visited := seen\<rparr>" and net = net]) (simp_all add: Let_def)
    then consider "k1 \<le> k' \<and> k' \<le> k1 + MAX_RECORDS * bound \<and> (\<forall>p. res = ResAnswer p \<longrightarrow> record_count p \<le> MAX_RECORDS)"
      | st2 k2 where "resolve_loop net look qtype n st2 k2 = (res, k')" "k1 \<le> k2" "k2 \<le> k1 + MAX_RECORDS * bound"
        "card (set (nameservers st2)) \<le> MAX_RECORDS"
      by blast
    then show ?thesis
    proof cases
      case 1
      then show ?thesis using k1 by auto
    next
      case 2
      then show ?thesis using Suc.IH [OF 2(1,4)] k1 by auto
    qed
  qed
qed auto

end

section \<open>The levels\<close>

text \<open>The bound for \<open>n\<close> levels of lookups: 20 rounds, each of one pass over the servers and, for a
  referral without addresses, a lookup of every name server in the message.\<close>

fun level_work :: "nat \<Rightarrow> nat" where
  "level_work 0 = 0"
| "level_work (Suc n) = MAX_REFERRALS * (MAX_RECORDS + MAX_RECORDS * level_work n)"

lemma iterative_resolve_bounded: "bounded_lookup (iterative_resolve net n) (level_work n)"
proof (induction n)
  case 0
  show ?case by unfold_locales auto
next
  case (Suc n)
  have "card (set (nameservers (start_state name))) \<le> MAX_RECORDS" for name
    using card_length [of ROOT_SERVERS] by (simp add: start_state_def ROOT_SERVERS_def MAX_RECORDS_def)
  then have "iterative_resolve net (Suc n) name t k = (res, k') \<Longrightarrow>
      k \<le> k' \<and> k' \<le> k + level_work (Suc n) \<and> (\<forall>p. res = ResAnswer p \<longrightarrow> record_count p \<le> MAX_RECORDS)"
    for name t k res k'
    using bounded_lookup.resolve_loop_work [OF Suc, of net t MAX_REFERRALS "start_state name"] by simp
  then show ?case by unfold_locales blast+
qed

interpretation level: bounded_lookup "iterative_resolve net n" "level_work n" for net n
  by (rule iterative_resolve_bounded)

lemma try_forwarders_work:
  "try_forwarders net name qtype q fwds k = (res, k') \<Longrightarrow> k \<le> k' \<and> k' \<le> k + length fwds"
  by (induction net name qtype q fwds k rule: try_forwarders.induct) (fastforce split: option.splits if_splits)+

lemma resolve_work:
  assumes "resolve net cfg name qtype k = (res, k')"
  shows "k \<le> k' \<and> k' \<le> k + length (forwarders cfg) + level_work (MAX_NS_LOOKUP_DEPTH + 1)"
proof (cases "use_forwarders cfg")
  case True
  let ?q = "build_query (net_id net k) name qtype True"
  obtain r k1 where fwd: "try_forwarders net name qtype ?q (forwarders cfg) k = (r, k1)" by fastforce
  note first = try_forwarders_work [OF fwd]
  show ?thesis
  proof (cases r)
    case None
    then have "iterative_resolve net (MAX_NS_LOOKUP_DEPTH + 1) name qtype k1 = (res, k')"
      using assms True fwd by (simp add: resolve_def Let_def)
    from level.work [OF this] first show ?thesis by linarith
  next
    case (Some x)
    then show ?thesis using assms True fwd first by (simp add: resolve_def Let_def)
  qed
next
  case False
  then have "iterative_resolve net (MAX_NS_LOOKUP_DEPTH + 1) name qtype k = (res, k')"
    using assms by (simp add: resolve_def)
  from level.work [OF this] show ?thesis by linarith
qed

text \<open>
  C20. A resolution ends whatever the network answers, forged, malformed or missing replies included: it
  never needs more exchanges than it has forwarders and, after them, five levels of iteration, each of
  at most 20 rounds that ask as many servers as a message can carry addresses (5956) and look up as many
  names as it can carry name servers.
\<close>

theorem resolution_ends:
  "\<exists>res k'. resolve net cfg name qtype k = (res, k') \<and> k \<le> k' \<and>
    k' \<le> k + length (forwarders cfg) + level_work 5"
  using resolve_work by (cases "resolve net cfg name qtype k") (fastforce simp: MAX_NS_LOOKUP_DEPTH_def)

text \<open>
  The bound is large because nothing limits the name servers looked up for one referral: as long as the
  lookups find no address, every name in the message is looked up, one after the other.
\<close>

lemma every_name_is_looked_up:
  assumes "\<And>ns k. look ns A k = (ResServFail r, k + cost)"
  shows "resolve_ns look nss k = ([], k + length nss * cost)"
  using assms by (induction nss arbitrary: k) (simp_all add: add.assoc)

end
