(* ===== verification/Advanced.thy ===== *)
theory Advanced
  imports ZoneTransfer SignedZones Nsec3
begin

text \<open>
  \<open>src/src/advanced.rs\<close>: the signers over the crypto crates, the key rotation clock, the transfer
  builder kept for other callers, the NSEC3 hash generator and the query for a peer's serial.  No part
  of the server calls this module.  The crates are the fields of \<open>sign_crates\<close> (a private key is a
  value of type \<open>'k\<close>), \<open>sha1\<close> and \<open>hex\<close>; the clock and the socket are arguments.
\<close>

section \<open>Signers\<close>

text \<open>The texts of the crates' errors stay texts.\<close>

record 'k sign_crates =
  rsa_from_components :: "u8 list \<Rightarrow> u8 list \<Rightarrow> u8 list \<Rightarrow> string + 'k"
  rsa_sign_pkcs1 :: "'k \<Rightarrow> RsaHash \<Rightarrow> u8 list \<Rightarrow> string + u8 list"
  crate_sha256 :: "u8 list \<Rightarrow> u8 list"
  crate_sha512 :: "u8 list \<Rightarrow> u8 list"
  p256_from_slice :: "u8 list \<Rightarrow> 'k option"
  p256_sign_der :: "'k \<Rightarrow> u8 list \<Rightarrow> u8 list"
  p384_from_slice :: "u8 list \<Rightarrow> 'k option"
  p384_sign_der :: "'k \<Rightarrow> u8 list \<Rightarrow> u8 list"
  ed25519_from_bytes :: "u8 list \<Rightarrow> 'k"
  ed25519_sign :: "'k \<Rightarrow> u8 list \<Rightarrow> u8 list"

record 'k RsaSigner =
  rs_private_key :: 'k
  rs_algorithm :: u8

definition rsa_signer_new :: "'k sign_crates \<Rightarrow> u8 list \<Rightarrow> u8 list \<Rightarrow> u8 list \<Rightarrow> u8 \<Rightarrow> string + 'k RsaSigner" where
  "rsa_signer_new cr modulus ex private_exponent algorithm =
     (case rsa_from_components cr modulus ex private_exponent of
        Inl e \<Rightarrow> Inl e
      | Inr key \<Rightarrow> Inr \<lparr>rs_private_key = key, rs_algorithm = algorithm\<rparr>)"

definition rsa_signer_sign :: "'k sign_crates \<Rightarrow> 'k RsaSigner \<Rightarrow> u8 list \<Rightarrow> string + u8 list" where
  "rsa_signer_sign cr s data =
     (if rs_algorithm s = 8 then rsa_sign_pkcs1 cr (rs_private_key s) Sha256 (crate_sha256 cr data)
      else rsa_sign_pkcs1 cr (rs_private_key s) Sha512 (crate_sha512 cr data))"

record EcdsaSigner =
  ec_private_key_bytes :: "u8 list"
  ec_curve :: string
  ec_algorithm :: u8

definition ecdsa_signer_new :: "string \<Rightarrow> u8 \<Rightarrow> u8 list \<Rightarrow> EcdsaSigner" where
  "ecdsa_signer_new curve algorithm key = \<lparr>ec_private_key_bytes = key, ec_curve = curve, ec_algorithm = algorithm\<rparr>"

definition ecdsa_signer_sign :: "'k sign_crates \<Rightarrow> EcdsaSigner \<Rightarrow> u8 list \<Rightarrow> string + u8 list" where
  "ecdsa_signer_sign cr s data =
     (if ec_curve s = ''P-256'' then
        (case p256_from_slice cr (ec_private_key_bytes s) of
           None \<Rightarrow> Inl ''Invalid P-256 key'' | Some key \<Rightarrow> Inr (p256_sign_der cr key data))
      else if ec_curve s = ''P-384'' then
        (case p384_from_slice cr (ec_private_key_bytes s) of
           None \<Rightarrow> Inl ''Invalid P-384 key'' | Some key \<Rightarrow> Inr (p384_sign_der cr key data))
      else Inl ''Unsupported curve'')"

record 'k Ed25519Signer =
  ed_signing_key :: 'k
  ed_algorithm :: u8

definition ed25519_signer_new :: "'k sign_crates \<Rightarrow> u8 list \<Rightarrow> string + 'k Ed25519Signer" where
  "ed25519_signer_new cr key_bytes =
     (if length key_bytes = 32 then Inr \<lparr>ed_signing_key = ed25519_from_bytes cr key_bytes, ed_algorithm = 15\<rparr>
      else Inl ''Invalid ED25519 key length'')"

definition ed25519_signer_sign :: "'k sign_crates \<Rightarrow> 'k Ed25519Signer \<Rightarrow> u8 list \<Rightarrow> string + u8 list" where
  "ed25519_signer_sign cr s data = Inr (ed25519_sign cr (ed_signing_key s) data)"

section \<open>Key rotation\<close>

text \<open>
  Times are nanoseconds since the epoch (before it, negative), durations nanoseconds.  The product of
  the days wraps on 64 bits, as it does in a release build.
\<close>

record KeyRotationManager =
  last_rotation :: int
  rotation_interval :: nat
  kr_algorithm :: u8

definition key_rotation_new :: "int \<Rightarrow> u64 \<Rightarrow> u8 \<Rightarrow> KeyRotationManager" where
  "key_rotation_new now rotation_days algorithm =
     \<lparr>last_rotation = now, rotation_interval = unat (rotation_days * 86400) * 1000000000, kr_algorithm = algorithm\<rparr>"

text \<open>\<open>SystemTime::elapsed\<close>: an error when the clock has gone back.\<close>

definition elapsed_since :: "int \<Rightarrow> int \<Rightarrow> nat option" where
  "elapsed_since t now = (if t \<le> now then Some (nat (now - t)) else None)"

definition should_rotate :: "int \<Rightarrow> KeyRotationManager \<Rightarrow> bool" where
  "should_rotate now k =
     (case elapsed_since (last_rotation k) now of Some e \<Rightarrow> rotation_interval k \<le> e | None \<Rightarrow> False)"

definition time_until_rotation :: "int \<Rightarrow> KeyRotationManager \<Rightarrow> nat" where
  "time_until_rotation now k =
     (let e = (case elapsed_since (last_rotation k) now of Some e \<Rightarrow> e | None \<Rightarrow> 0)
      in if rotation_interval k \<le> e then 0 else rotation_interval k - e)"

definition mark_rotated :: "int \<Rightarrow> KeyRotationManager \<Rightarrow> KeyRotationManager" where
  "mark_rotated now k = k\<lparr>last_rotation := now\<rparr>"

section \<open>The transfer builder\<close>

record xfr_builder =
  xb_zone_name :: string
  xb_records :: "(string \<times> u16 \<times> u8 list) list"

definition zone_transfer_new :: "string \<Rightarrow> xfr_builder" where
  "zone_transfer_new name = \<lparr>xb_zone_name = name, xb_records = []\<rparr>"

definition add_record :: "string \<Rightarrow> u16 \<Rightarrow> u8 list \<Rightarrow> xfr_builder \<Rightarrow> xfr_builder" where
  "add_record name rtype rdat b = b\<lparr>xb_records := xb_records b @ [(name, rtype, rdat)]\<rparr>"

definition make_record :: "string \<times> u16 \<times> u8 list \<Rightarrow> rr" where
  "make_record r =
     (case r of (name, rtype, rdat) \<Rightarrow>
        \<lparr>r_name = name, r_type = rtype_from rtype, r_class = 1, r_ttl = 3600, r_rdata = rdat\<rparr>)"

fun position :: "('a \<Rightarrow> bool) \<Rightarrow> 'a list \<Rightarrow> nat option" where
  "position p [] = None"
| "position p (x # xs) = (if p x then Some 0 else map_option Suc (position p xs))"

definition xfr_records :: "xfr_builder \<Rightarrow> rr list option" where
  "xfr_records b =
     (case position (\<lambda>(_, t, _). t = 6) (xb_records b) of
        None \<Rightarrow> None
      | Some i \<Rightarrow>
          (case xb_records b ! i of
             (name, _, rdat) \<Rightarrow>
               (let soa = make_record (name, 6, rdat)
                in Some (soa # map (make_record \<circ> snd) (filter (\<lambda>(j, _). j \<noteq> i) (enumerate 0 (xb_records b))) @ [soa]))))"

definition XFR_CHUNK :: nat where "XFR_CHUNK = 100"

definition xfr_packet :: "rr list \<Rightarrow> packet" where
  "xfr_packet rs = (set_aa (new_response 0 0))\<lparr>p_answers := rs\<rparr>"

definition to_wire_format :: "xfr_builder \<Rightarrow> u8 list list" where
  "to_wire_format b =
     (case xfr_records b of None \<Rightarrow> []
      | Some all \<Rightarrow> map (\<lambda>rs. serialize (xfr_packet rs) False) (chunks XFR_CHUNK all))"

section \<open>The NSEC3 hash generator\<close>

record Nsec3Generator =
  ng_iterations :: u16
  ng_salt :: "u8 list"

definition nsec3_generator_new :: "u16 \<Rightarrow> u8 list \<Rightarrow> Nsec3Generator" where
  "nsec3_generator_new iterations salt = \<lparr>ng_iterations = iterations, ng_salt = salt\<rparr>"

fun rehash :: "(u8 list \<Rightarrow> u8 list) \<Rightarrow> u8 list \<Rightarrow> nat \<Rightarrow> u8 list \<Rightarrow> u8 list" where
  "rehash sha1 salt 0 h = h"
| "rehash sha1 salt (Suc n) h = rehash sha1 salt n (sha1 (h @ salt))"

definition generator_hash_name :: "(u8 list \<Rightarrow> u8 list) \<Rightarrow> (u8 list \<Rightarrow> string) \<Rightarrow> Nsec3Generator \<Rightarrow> string \<Rightarrow> string" where
  "generator_hash_name sha1 hex g name =
     hex (rehash sha1 (ng_salt g) (unat (ng_iterations g)) (sha1 (str_bytes name @ ng_salt g)))"

section \<open>Peers\<close>

record MultiMasterConfig =
  mm_peers :: "string list"
  replication_interval :: nat
  zone_serial :: u32

definition multi_master_new :: "string list \<Rightarrow> u64 \<Rightarrow> MultiMasterConfig" where
  "multi_master_new ps secs = \<lparr>mm_peers = ps, replication_interval = unat secs, zone_serial = 0\<rparr>"

definition add_peer :: "string \<Rightarrow> MultiMasterConfig \<Rightarrow> MultiMasterConfig" where
  "add_peer p c = c\<lparr>mm_peers := mm_peers c @ [p]\<rparr>"

definition get_peers :: "MultiMasterConfig \<Rightarrow> string list" where
  "get_peers c = mm_peers c"

datatype peer_error = Socket_error string | Parse_failed io_error | No_soa

definition peer_query :: "string \<Rightarrow> u8 list" where
  "peer_query zone =
     be16 0x4242 @ be16 0x0100 @ be16 1 @ be16 0 @ be16 0 @ be16 0 @
     b_question \<lparr>q_name = zone, q_type = SOA, q_class = CLASS_IN\<rparr>"

definition soa_rdata_serial :: "u8 list \<Rightarrow> peer_error + u32" where
  "soa_rdata_serial rdat =
     (case rbind p_name (\<lambda>_. rbind p_name (\<lambda>_. p_u32)) rdat 0 of
        Inl e \<Rightarrow> Inl (Parse_failed e) | Inr (n, _) \<Rightarrow> Inr n)"

text \<open>
  \<open>exchange\<close> is the socket: binding, sending to the peer and the first datagram that arrives within
  three seconds, from whomever, cut to the buffer.
\<close>

definition get_peer_serial :: "(string \<Rightarrow> u8 list \<Rightarrow> string + u8 list) \<Rightarrow> string \<Rightarrow> string \<Rightarrow> peer_error + u32" where
  "get_peer_serial exchange peer zone =
     (case exchange peer (peer_query zone) of
        Inl e \<Rightarrow> Inl (Socket_error e)
      | Inr datagram \<Rightarrow>
          (case parse (take 4096 datagram) of
             Inl e \<Rightarrow> Inl (Parse_failed e)
           | Inr pkt \<Rightarrow>
               (case find (\<lambda>r. r_type r = SOA) (p_answers pkt @ p_authority pkt) of
                  None \<Rightarrow> Inl No_soa
                | Some soa \<Rightarrow> soa_rdata_serial (r_rdata soa))))"

section \<open>Signatures that the validator accepts\<close>

text \<open>
  What the crates promise: the checking side accepts what the signing side made with the matching key,
  and the hashes are SHA-256 and SHA-512.
\<close>

definition rsa_pair :: "'k sign_crates \<Rightarrow> crypto \<Rightarrow> bool" where
  "rsa_pair cr vc \<longleftrightarrow> crate_sha256 cr = sha256 \<and> crate_sha512 cr = sha512 \<and>
     (\<forall>n e d key h digest sg. rsa_from_components cr n e d = Inr key \<and> rsa_sign_pkcs1 cr key h digest = Inr sg \<longrightarrow>
        rsa_check vc h n e digest sg = Some True)"

definition rfc3110_key :: "u8 list \<Rightarrow> u8 list \<Rightarrow> u8 list" where
  "rfc3110_key ex modulus = of_nat (length ex) # ex @ modulus"

lemma parse_rfc3110_key:
  assumes "0 < length ex" "length ex < 256"
  shows "parse_rsa_pubkey (rfc3110_key ex modulus) = Inr (ex, modulus)"
proof -
  have "unat (of_nat (length ex) :: u8) = length ex" using assms(2) by (simp add: unat_of_nat)
  then have "(of_nat (length ex) :: u8) \<noteq> 0" using assms(1) by (metis neq0_conv unat_0)
  then show ?thesis using assms by (simp add: parse_rsa_pubkey_def rfc3110_key_def unat_of_nat Let_def)
qed

text \<open>
  What \<open>RsaSigner\<close> signs, the server's validator accepts: for algorithms 8 and 10 and a public key in
  the form of RFC 3110, every signature that signing returns verifies, with the hash the algorithm names.
\<close>

theorem rsa_signer_verifies:
  assumes laws: "rsa_pair cr vc" and alg: "alg = 8 \<or> alg = 10" and ex: "0 < length ex" "length ex < 256"
    and signer: "rsa_signer_new cr modulus ex d alg = Inr s" "rsa_signer_sign cr s data = Inr sg"
  shows "verify_signature vc alg (rfc3110_key ex modulus) data sg = Inr True"
proof -
  obtain key where key: "rsa_from_components cr modulus ex d = Inr key" "s = \<lparr>rs_private_key = key, rs_algorithm = alg\<rparr>"
    using signer(1) by (auto simp: rsa_signer_new_def split: sum.splits)
  have check: "rsa_sign_pkcs1 cr key h dg = Inr sg \<Longrightarrow> rsa_check vc h modulus ex dg sg = Some True" for h dg
    using laws key(1) unfolding rsa_pair_def by blast
  have hash: "crate_sha256 cr = sha256" "crate_sha512 cr = sha512" using laws by (simp_all add: rsa_pair_def)
  show ?thesis
  proof (cases "alg = 8")
    case True
    then have "rsa_sign_pkcs1 cr key Sha256 (sha256 data) = Inr sg" using signer(2) by (simp add: rsa_signer_sign_def key(2) hash)
    from check [OF this] True parse_rfc3110_key [OF ex] show ?thesis
      by (simp add: verify_signature_def verify_rsa_def checked_def ALG_RSASHA256_def)
  next
    case False
    then have "rsa_sign_pkcs1 cr key Sha512 (sha512 data) = Inr sg" using signer(2) by (simp add: rsa_signer_sign_def key(2) hash)
    from check [OF this] False alg parse_rfc3110_key [OF ex] show ?thesis
      by (simp add: verify_signature_def verify_rsa_def checked_def ALG_RSASHA256_def ALG_RSASHA512_def)
  qed
qed

definition sample_crates :: "u8 list sign_crates" where
  "sample_crates =
     \<lparr>rsa_from_components = (\<lambda>n e d. if n = [] then Inl ''empty modulus'' else Inr (n @ e)),
      rsa_sign_pkcs1 = (\<lambda>key h digest. Inr (key @ digest)), crate_sha256 = sha256, crate_sha512 = sha512,
      p256_from_slice = Some, p256_sign_der = (\<lambda>key data. replicate 70 0), p384_from_slice = Some,
      p384_sign_der = (\<lambda>key data. replicate 103 0), ed25519_from_bytes = (\<lambda>k. k),
      ed25519_sign = (\<lambda>key data. replicate 64 0)\<rparr>"

definition sample_checker :: crypto where
  "sample_checker =
     \<lparr>rsa_check = (\<lambda>h n e digest sg. Some (sg = n @ e @ digest)), p256_check = (\<lambda>k d s. Some True),
      p384_check = (\<lambda>k d s. Some True), ed25519_check = (\<lambda>k d s. Some True)\<rparr>"

lemma rsa_signer_verifies_witness:
  "verify_signature sample_checker 8 (rfc3110_key [1, 0, 1] [0xC5]) [7] ([0xC5, 1, 0, 1] @ sha256 [7]) = Inr True"
proof (rule rsa_signer_verifies)
  show "rsa_pair sample_crates sample_checker"
    by (auto simp: rsa_pair_def sample_crates_def sample_checker_def split: if_splits)
  show "rsa_signer_new sample_crates [0xC5] [1, 0, 1] [9] 8 = Inr \<lparr>rs_private_key = [0xC5, 1, 0, 1], rs_algorithm = 8\<rparr>"
    by (simp add: rsa_signer_new_def sample_crates_def)
  show "rsa_signer_sign sample_crates \<lparr>rs_private_key = [0xC5, 1, 0, 1], rs_algorithm = 8\<rparr> [7] =
      Inr ([0xC5, 1, 0, 1] @ sha256 [7])"
    by (simp add: rsa_signer_sign_def sample_crates_def)
qed simp_all

text \<open>
  \<open>EcdsaSigner\<close> returns DER, the RRSIG field and the validator take the two numbers at fixed length: a
  signature whose encoding is not 64 (96) bytes long is refused.
\<close>

lemma ecdsa_der_refused:
  assumes "ecdsa_signer_sign cr (ecdsa_signer_new ''P-256'' 13 key) data = Inr sg" "length sg \<noteq> 64"
  shows "verify_signature vc 13 pubkey data sg = Inl BadLength"
  using assms
  by (simp add: verify_signature_def verify_ecdsa_p256_def ALG_RSASHA256_def ALG_RSASHA512_def ALG_ECDSAP256SHA256_def)

section \<open>The rotation clock\<close>

text \<open>
  The rotation is due exactly when no time is left, becomes due when that time has passed and not
  before, and after it has been marked the full interval starts again.
\<close>

lemma rotation_due:
  assumes "last_rotation k \<le> now"
  shows "should_rotate now k \<longleftrightarrow> time_until_rotation now k = 0"
    "\<not> should_rotate now k \<Longrightarrow> should_rotate t k \<longleftrightarrow> now + int (time_until_rotation now k) \<le> t"
  using assms by (auto simp: should_rotate_def time_until_rotation_def elapsed_since_def Let_def)

lemma rotation_marked: "time_until_rotation now (mark_rotated now k) = rotation_interval k"
  by (simp add: time_until_rotation_def mark_rotated_def elapsed_since_def Let_def)

text \<open>A clock set back never makes the rotation due; the days wrap.\<close>

lemma rotation_clock_back: "now < last_rotation k \<Longrightarrow> \<not> should_rotate now k \<and> time_until_rotation now k = rotation_interval k"
  by (simp add: should_rotate_def time_until_rotation_def elapsed_since_def Let_def)

lemma rotation_days_wrap: "rotation_interval (key_rotation_new now 213503982334602 alg) = 61184 * 1000000000"
  by (simp add: key_rotation_new_def)

section \<open>The transfer messages\<close>

lemma position_split:
  "\<not> list_ex p pre \<Longrightarrow> p x \<Longrightarrow> position p (pre @ x # post) = Some (length pre)"
  by (induction pre) auto

lemma filter_enumerate_split:
  "map snd (filter (\<lambda>(j, _). j \<noteq> length pre) (enumerate 0 (pre @ x # post))) = pre @ post"
proof -
  have a: "filter (\<lambda>(j, _). j \<noteq> length pre) (enumerate 0 pre) = enumerate 0 pre"
    by (rule filter_True) (auto simp: in_set_enumerate_eq)
  have "filter (\<lambda>(j, _). j \<noteq> length pre) (enumerate (Suc (length pre)) post) = enumerate (Suc (length pre)) post"
    by (rule filter_True) (auto simp: in_set_enumerate_eq)
  with a show ?thesis by (simp add: enumerate_append_eq)
qed

lemma xfr_records_split:
  assumes "xb_records b = pre @ (name, 6, rdat) # post" "\<forall>(n, t, d)\<in>set pre. t \<noteq> 6"
  shows "xfr_records b =
    Some (make_record (name, 6, rdat) # map make_record (pre @ post) @ [make_record (name, 6, rdat)])"
proof -
  have "position (\<lambda>(_, t, _). t = 6) (xb_records b) = Some (length pre)"
    unfolding assms(1) by (rule position_split) (use assms(2) in \<open>auto simp: list_ex_iff\<close>)
  then show ?thesis
    using filter_enumerate_split [of pre "(name, 6, rdat)" post]
    by (simp add: xfr_records_def assms(1) Let_def map_map [symmetric] del: map_map map_append)
qed

lemma xfr_packet_fields [simp]:
  "p_id (xfr_packet rs) = 0" "p_questions (xfr_packet rs) = []" "p_answers (xfr_packet rs) = rs"
  "p_authority (xfr_packet rs) = []" "p_additional (xfr_packet rs) = []" "edns_udp_size (xfr_packet rs) = 0"
  "dnssec_ok (xfr_packet rs) = False" "is_aa (xfr_packet rs)" "is_response (xfr_packet rs)"
  by (simp_all add: xfr_packet_def set_aa_def) (auto simp: flag_simps new_response_def)

lemma rcode_xfr_packet [simp]: "rcode (xfr_packet rs) = 0"
proof -
  have "rcode (xfr_packet rs) = rcode (set_aa (new_response 0 0))" by (rule rcode_cong) (simp add: xfr_packet_def set_aa_def)
  then show ?thesis by simp
qed

lemma parse_xfr_packet:
  assumes "list_all wf_record rs" "length rs \<le> XFR_CHUNK"
  shows "parse (serialize (xfr_packet rs) False) = Inr (xfr_packet rs)"
proof -
  have "wf_packet (xfr_packet rs)" using assms by (simp add: wf_packet_def XFR_CHUNK_def)
  moreover have "sent_packet (xfr_packet rs) False = xfr_packet rs" by (simp add: sent_packet_def with_opt_def)
  ultimately show ?thesis by (simp add: parse_of_serialize)
qed

lemma parse_xfr_chunks:
  assumes "list_all wf_record rs"
  shows "map parse (map (\<lambda>rs. serialize (xfr_packet rs) False) (chunks XFR_CHUNK rs)) =
    map (\<lambda>rs. Inr (xfr_packet rs)) (chunks XFR_CHUNK rs)"
proof -
  have "parse (serialize (xfr_packet c) False) = Inr (xfr_packet c)" if "c \<in> set (chunks XFR_CHUNK rs)" for c
  proof (rule parse_xfr_packet)
    have "set c \<subseteq> set (concat (chunks XFR_CHUNK rs))" using that by auto
    then have "set c \<subseteq> set rs" by (simp add: chunks_concat XFR_CHUNK_def)
    then show "list_all wf_record c" using assms by (auto simp: list_all_iff)
  qed (use chunks_sizes that in blast)
  then show ?thesis by simp
qed

text \<open>A builder filled by \<open>add_record\<close>.\<close>

definition xfr_of :: "string \<Rightarrow> (string \<times> u16 \<times> u8 list) list \<Rightarrow> xfr_builder" where
  "xfr_of zone recs = fold (\<lambda>(name, t, rdat). add_record name t rdat) recs (zone_transfer_new zone)"

lemma xb_records_fold: "xb_records (fold (\<lambda>(name, t, rdat). add_record name t rdat) recs b) = xb_records b @ recs"
  by (induction recs arbitrary: b) (auto simp: add_record_def)

lemma xb_records_of [simp]: "xb_records (xfr_of zone recs) = recs"
  by (simp add: xfr_of_def xb_records_fold zone_transfer_new_def)

text \<open>
  C40. A transfer built record by record parses into authoritative NOERROR responses of 1 to 100 answers
  whose answers in sequence are the first SOA that was added, every other record once and in the order
  of its addition, and that SOA again; without an SOA there is no message.  Every message has the id 0
  and no question, whatever request it is to answer.
\<close>

theorem built_transfer:
  assumes "\<forall>(n, t, d)\<in>set pre. t \<noteq> 6" "list_all (wf_record \<circ> make_record) (pre @ (name, 6, rdat) # post)"
  shows "to_wire_format (xfr_of zone pre) = [] \<and>
    (\<exists>ps. map parse (to_wire_format (xfr_of zone (pre @ (name, 6, rdat) # post))) = map Inr ps \<and>
      concat (map p_answers ps) =
        make_record (name, 6, rdat) # map make_record (pre @ post) @ [make_record (name, 6, rdat)] \<and>
      (\<forall>p\<in>set ps. is_response p \<and> is_aa p \<and> rcode p = RCODE_NOERROR \<and> p_id p = 0 \<and> p_questions p = [] \<and>
        1 \<le> length (p_answers p) \<and> length (p_answers p) \<le> 100))"
proof -
  let ?b = "xfr_of zone (pre @ (name, 6, rdat) # post)"
  define all where "all = make_record (name, 6, rdat) # map make_record (pre @ post) @ [make_record (name, 6, rdat)]"
  have "position (\<lambda>(_, t, _). t = 6) pre = None" using assms(1) by (induction pre) auto
  then have none: "to_wire_format (xfr_of zone pre) = []" by (simp add: to_wire_format_def xfr_records_def)
  have "xfr_records ?b = Some all" unfolding all_def by (rule xfr_records_split) (simp_all add: assms(1))
  then have wire: "to_wire_format ?b = map (\<lambda>rs. serialize (xfr_packet rs) False) (chunks XFR_CHUNK all)"
    by (simp add: to_wire_format_def)
  have "list_all wf_record all" using assms(2) by (auto simp: all_def list_all_iff)
  then have "map parse (to_wire_format ?b) = map Inr (map xfr_packet (chunks XFR_CHUNK all))"
    using parse_xfr_chunks by (simp add: wire)
  moreover have "concat (map p_answers (map xfr_packet (chunks XFR_CHUNK all))) = all"
    by (simp add: comp_def chunks_concat XFR_CHUNK_def)
  moreover have "c \<noteq> [] \<and> length c \<le> 100" if "c \<in> set (chunks XFR_CHUNK all)" for c
    using chunks_sizes [OF that] by (simp add: XFR_CHUNK_def)
  ultimately show ?thesis
    using none unfolding all_def [symmetric]
    by (intro conjI exI [of _ "map xfr_packet (chunks XFR_CHUNK all)"]) (auto simp: RCODE_NOERROR_def Suc_le_eq)
qed

lemma built_transfer_witness:
  "\<exists>ps. map parse (to_wire_format (xfr_of ''e'' [(''a.e'', 1, [192, 0, 2, 1]), (''e'', 6, r_rdata (soa_rr 5))])) = map Inr ps \<and>
    map (rtype_to \<circ> r_type) (concat (map p_answers ps)) = [6, 1, 6]"
proof -
  have soa: "wf_rdata SOA (r_rdata (soa_rr 5))" "length (r_rdata (soa_rr 5)) < 65536" using wf_soa_rr by (simp_all add: wf_record_def soa_rr_def)
  have "\<forall>(n, t, d)\<in>set [(''a.e'', 1 :: u16, [192, 0, 2, 1 :: u8])]. t \<noteq> 6" by simp
  moreover have "list_all (wf_record \<circ> make_record)
      ([(''a.e'', 1, [192, 0, 2, 1])] @ (''e'', 6, r_rdata (soa_rr 5)) # [])"
    using soa sample_names_wf by (simp add: wf_record_def make_record_def rtype_from_def canonical_rtype_def wf_rdata_def)
  ultimately obtain ps where ps:
    "map parse (to_wire_format (xfr_of ''e'' ([(''a.e'', 1, [192, 0, 2, 1])] @ (''e'', 6, r_rdata (soa_rr 5)) # []))) = map Inr ps"
    "concat (map p_answers ps) = make_record (''e'', 6, r_rdata (soa_rr 5)) #
      map make_record ([(''a.e'', 1, [192, 0, 2, 1])] @ []) @ [make_record (''e'', 6, r_rdata (soa_rr 5))]"
    using built_transfer by blast
  then show ?thesis
    by (intro exI [of _ ps]) (simp add: make_record_def rtype_from_def)
qed

section \<open>The serial of a peer\<close>

text \<open>The hand-written query is the message with one SOA question and recursion desired.\<close>

definition soa_query :: "string \<Rightarrow> packet" where
  "soa_query zone =
     \<lparr>p_id = 0x4242, p_flags = 0x0100, p_questions = [\<lparr>q_name = zone, q_type = SOA, q_class = CLASS_IN\<rparr>],
      p_answers = [], p_authority = [], p_additional = [], edns_udp_size = 0, dnssec_ok = False\<rparr>"

lemma peer_query_serialize: "peer_query zone = serialize (soa_query zone) False"
  by (simp add: peer_query_def serialize_def soa_query_def with_opt_def)

lemma soa_rdata_serial_b_soa:
  assumes "wf_name m" "wf_name r"
  shows "soa_rdata_serial (b_soa m r serial refresh retry expire minimum) = Inr serial"
proof -
  define buf where "buf = b_soa m r serial refresh retry expire minimum"
  have "holds_at buf 0 (b_soa m r serial refresh retry expire minimum)" by (simp add: buf_def)
  then have h: "holds_at buf 0 (b_name m)" "holds_at buf (length (b_name m)) (b_name r)"
    "holds_at buf (length (b_name m) + length (b_name r)) (be32 serial)"
    by (simp_all add: b_soa_def)
  have "soa_rdata_serial buf = Inr serial"
    using cname.dec_enc [OF assms(1) h(1)] cname.dec_enc [OF assms(2) h(2)] readsD [OF p_u32_reads h(3)]
    by (simp add: soa_rdata_serial_def rbind_def)
  then show ?thesis by (simp add: buf_def)
qed

text \<open>
  The question a peer is asked is for the SOA of the zone, and the serial it holds is returned when
  its reply, of at most 4096 bytes, carries the SOA in the answer or, without one there, in the authority
  section.  Nothing ties the reply to the query: the id, the question and the sender are not looked at.
\<close>

theorem peer_serial:
  assumes zone: "wf_name zone" and reply: "wf_packet p" "length (serialize p edns) \<le> 4096"
    and soa: "find (\<lambda>r. r_type r = SOA) (p_answers p @ p_authority p) = Some rec"
      "r_rdata rec = b_soa m r serial refresh retry expire minimum" "wf_name m" "wf_name r"
  shows "parse (peer_query zone) = Inr (soa_query zone) \<and>
    get_peer_serial (\<lambda>_ _. Inr (serialize p edns)) peer zone = Inr serial"
proof
  have "canonical_rtype SOA" by (rule canonical_rtype_known) simp
  then have "wf_packet (soa_query zone)" using zone by (simp add: wf_packet_def soa_query_def wf_question_def)
  moreover have "sent_packet (soa_query zone) False = soa_query zone" by (simp add: sent_packet_def with_opt_def soa_query_def)
  ultimately show "parse (peer_query zone) = Inr (soa_query zone)" by (simp add: peer_query_serialize parse_of_serialize)
  have "p_answers (sent_packet p edns) = p_answers p" "p_authority (sent_packet p edns) = p_authority p"
    by (simp_all add: sent_packet_def)
  then show "get_peer_serial (\<lambda>_ _. Inr (serialize p edns)) peer zone = Inr serial"
    using soa(1,2) soa_rdata_serial_b_soa [OF soa(3,4)] reply(2)
    by (simp add: get_peer_serial_def parse_of_serialize [OF reply(1)])
qed

text \<open>A reply with another id and without a question.\<close>

definition forged_reply :: packet where
  "forged_reply = xfr_packet [soa_rr 77]"

lemma peer_serial_witness:
  "get_peer_serial (\<lambda>_ _. Inr (serialize forged_reply False)) ''192.0.2.1:53'' ''e'' = Inr 77 \<and>
    p_id forged_reply \<noteq> 0x4242 \<and> p_questions forged_reply = []"
proof -
  have wf: "wf_packet forged_reply" using wf_soa_rr by (simp add: forged_reply_def wf_packet_def)
  have "length (serialize forged_reply False) \<le> 4096"
    by (simp add: serialize_def forged_reply_def with_opt_def b_record_def soa_rr_def b_soa_def b_name_def b_label_def
        trim_end_dots_def)
  moreover have "find (\<lambda>r. r_type r = SOA) (p_answers forged_reply @ p_authority forged_reply) = Some (soa_rr 77)"
    by (simp add: forged_reply_def soa_rr_def)
  moreover have "r_rdata (soa_rr 77) = b_soa ''ns.e'' ''h.e'' 77 7200 900 604800 300" by (simp add: soa_rr_def)
  ultimately have "get_peer_serial (\<lambda>_ _. Inr (serialize forged_reply False)) ''192.0.2.1:53'' ''e'' = Inr 77"
    using peer_serial [OF _ wf, of "''e''" False "soa_rr 77"] sample_names_wf by blast
  then show ?thesis by (simp add: forged_reply_def)
qed

section \<open>The NSEC3 hash generator and the served hashes\<close>

lemma rehash_iterates: "rehash sha1 salt n h = ((\<lambda>h. sha1 (h @ salt)) ^^ n) h"
  by (induction n arbitrary: h) (simp_all add: funpow_Suc_right del: funpow.simps)

text \<open>
  Both iterate alike, but not on the same bytes: the denial of existence starts from the lower-case wire
  form of the name, the generator from its text as written, so that two spellings of one name may have
  different hashes here and never have there.
\<close>

lemma generator_hash:
  "generator_hash_name sha1 hex \<lparr>ng_iterations = n, ng_salt = salt\<rparr> name =
    hex (((\<lambda>h. sha1 (h @ salt)) ^^ unat n) (sha1 (str_bytes name @ salt)))"
  by (simp add: generator_hash_name_def rehash_iterates)

lemma generator_case_sensitive:
  "hash_name sha1 ps ''A.e'' = hash_name sha1 ps ''a.e''"
  "generator_hash_name (\<lambda>x. x) bytes_str \<lparr>ng_iterations = 0, ng_salt = []\<rparr> ''A.e'' \<noteq>
    generator_hash_name (\<lambda>x. x) bytes_str \<lparr>ng_iterations = 0, ng_salt = []\<rparr> ''a.e''"
proof -
  have "to_lower ''A.e'' = ''a.e''" "to_lower ''a.e'' = ''a.e''" by (simp_all add: to_lower_def ascii_lower_def char_of_eq_iff)
  then have "canonical_name ''A.e'' = canonical_name ''a.e''" by (simp add: canonical_name_def)
  then show "hash_name sha1 ps ''A.e'' = hash_name sha1 ps ''a.e''" by (simp add: hash_name_def)
qed (simp add: generator_hash char_of_byte_def byte_of_char_def)

end
