(* ===== verification/Spec2Isabelle.thy ===== *)
theory Spec2Isabelle
  imports Prelude Proto Wire Names Message Cache Zone Nsec Nsec3 ZoneManager ZoneTransfer Tsig Sha2 Dnssec
    Net RateLimit Resolver Metrics Config Server ServerSpec ServerRuns ZoneSigning SignedZones
    Text Addresses ZoneFile ZoneText ZoneEntries ZoneFaults ConfigFile ConfigText Startup ThreadPool Listeners Doh
    Deferral MetricsPage Services ResolverWork Advanced
begin

text \<open>
  A verification library for ironbind, a DNS server in Rust (the sources are under \<open>src/src\<close>).

  \<^bold>\<open>The program.\<close>  A datagram or a message of a TCP session goes through the rate limiter
  (\<open>ratelimit.rs\<close>) into \<open>handle_query\<close> (\<open>server.rs\<close>), which checks its TSIG (\<open>tsig.rs\<close>), parses it
  (\<open>proto.rs\<close>) and answers from the authoritative zones (\<open>zone.rs\<close>), from the cache (\<open>cache.rs\<close>)
  or by asking other servers (\<open>resolver.rs\<close>), whose signatures it may validate (\<open>dnssec.rs\<close>,
  \<open>anchor.rs\<close>).  The zone manager (\<open>zone_manager.rs\<close>) loads zones and keeps their history, from
  which \<open>axfr.rs\<close> builds transfers.  Every query is one function from the shared state to a reply
  and the next state; what lies outside the program is an argument.

  \<^bold>\<open>Theories and sources.\<close>
  \<^item> \<^theory_text>\<open>Prelude\<close>: bytes, words, string operations of Rust, generic lemmas and the locale
    \<open>transition_invariant\<close>.
  \<^item> \<^theory_text>\<open>Proto\<close>, \<^theory_text>\<open>Wire\<close>, \<^theory_text>\<open>Names\<close>, \<^theory_text>\<open>Message\<close>: \<open>proto.rs\<close>.  The data model and header flags; the
    parser as readers over a buffer and a position, with the locales \<open>wire_reader\<close> and
    \<open>wire_codec\<close> for the laws of a reader and its writer; names with compression; whole messages,
    RRSIG, DNSKEY and DS rdata, key tags.  They show that messages round-trip, stay within the
    datagram and that parsed names are in lower case.
  \<^item> \<^theory_text>\<open>Cache\<close>: \<open>cache.rs\<close>.  The locale \<open>timed_cache\<close> is the contract of a cache with lifetimes; the
    lookups are shown to be those of the history of insertions.
  \<^item> \<^theory_text>\<open>Zone\<close>, \<^theory_text>\<open>Nsec\<close>, \<^theory_text>\<open>Nsec3\<close>: the zone of \<open>zone.rs\<close>, its lookups, existing names, closest
    enclosers and the two denial chains; type bitmaps and Base32hex against reference definitions.
  \<^item> \<^theory_text>\<open>ZoneManager\<close>: \<open>zone_manager.rs\<close>.  The locale \<open>version_log\<close> is a bounded log of differences; the
    chain of deltas served for a serial leads from what was published under it to what is served.
  \<^item> \<^theory_text>\<open>ZoneSigning\<close>, \<^theory_text>\<open>SignedZones\<close>: \<open>zone_signing.rs\<close> and \<open>ZoneManager::sign_zone\<close>.  A signed RRset
    validates; every RRset of a signed zone, as the server sends it, validates with the published keys.
  \<^item> \<^theory_text>\<open>ZoneTransfer\<close>: \<open>axfr.rs\<close>.  What a secondary reads from a transfer.
  \<^item> \<^theory_text>\<open>Tsig\<close>: \<open>tsig.rs\<close>.  Signing, verification and their round trip; the MAC is an argument.
  \<^item> \<^theory_text>\<open>Sha2\<close>, \<^theory_text>\<open>Dnssec\<close>: \<open>dnssec.rs\<close> and \<open>anchor.rs\<close>.  The SHA-2 routines against FIPS 180-4, the signed
    data of RFC 4034, what validators accept; the public-key primitives are an argument.
  \<^item> \<^theory_text>\<open>Net\<close>, \<^theory_text>\<open>Config\<close>: the address ranges, the data and the defaults of \<open>config.rs\<close>.
  \<^item> \<^theory_text>\<open>Text\<close>, \<^theory_text>\<open>Addresses\<close>: the operations of \<open>str\<close> and the parsers of numbers and addresses of the
    standard library that the readers of files use, with printers and round trips; \<open>Network::parse\<close>.
  \<^item> \<^theory_text>\<open>ConfigFile\<close>, \<^theory_text>\<open>ConfigText\<close>: the TOML reader, \<open>ServerConfig::load\<close> and secrets of \<open>config.rs\<close>.
    Documents are read as their assignments; who may use recursion is what the file lists.
  \<^item> \<^theory_text>\<open>ZoneFile\<close>, \<^theory_text>\<open>ZoneText\<close>, \<^theory_text>\<open>ZoneEntries\<close>, \<^theory_text>\<open>ZoneFaults\<close>: \<open>Zone::load_file\<close> of \<open>zone.rs\<close>.  Printed
    entries load as their records; the files that make the loader panic, and records it misreads.
  \<^item> \<^theory_text>\<open>Startup\<close>: \<open>main.rs\<close> and \<open>/etc/resolv.conf\<close>.  When the start fails, what a started server
    serves from its files, and the invariant of all states it reaches.
  \<^item> \<^theory_text>\<open>RateLimit\<close>: \<open>ratelimit.rs\<close>.  The token buckets and the global window: the table is bounded, the
    rate of a source and of all sources is bounded, and what concurrent receivers can exceed.  The
    atomic operations of the window also appear as the step relation \<open>gstep\<close>.
  \<^item> \<^theory_text>\<open>Resolver\<close>: \<open>resolver.rs\<close>.  Exchanges, forwarding and iteration from the root; only matching
    replies are used and only records inside the zone asked are kept.  \<^theory_text>\<open>ResolverWork\<close>: one resolution
    ends after a bounded number of exchanges; the locale \<open>bounded_lookup\<close> is what each level of nested
    lookups promises to the level above.
  \<^item> \<^theory_text>\<open>Metrics\<close>, \<^theory_text>\<open>MetricsPage\<close>: the counters of \<open>metrics.rs\<close>, their ratios and the Prometheus page, which
    is read back as a scraper reads it.
  \<^item> \<^theory_text>\<open>Server\<close>: the state and the query pipeline of \<open>server.rs\<close>, one definition per branch; UDP, TCP,
    transfers, sweep, reload and supervisor.  \<^theory_text>\<open>ServerSpec\<close>: the form of replies, who may use cache and
    recursion, what authoritative replies contain.  \<^theory_text>\<open>ServerRuns\<close>: the invariant of reachable states
    (step relation \<open>server_step\<close>), sessions, transfers, datagram sizes, validation and caching of
    upstream answers.  \<^theory_text>\<open>Deferral\<close>: handing a query to the recursion pool does not change its answer.
  \<^item> \<^theory_text>\<open>ThreadPool\<close>: \<open>threadpool.rs\<close> as the step relation \<open>pool_step\<close>: every accepted job is run once,
    in order, and ends; the bounds hold whichever jobs panic.
  \<^item> \<^theory_text>\<open>Listeners\<close>: \<open>dot.rs\<close>, \<open>signals.rs\<close> and what \<open>run\<close> of \<open>server.rs\<close> builds around the pipeline.
    The locale \<open>framed_session\<close> (in \<open>ServerRuns\<close>) is the contract of a session over a stream, for TCP and TLS;
    lookups in flight are bounded, no SIGHUP is lost.
  \<^item> \<^theory_text>\<open>Doh\<close>: \<open>doh.rs\<close>.  Replies depend on the bytes only; a posted message reaches the pipeline unchanged.
  \<^item> \<^theory_text>\<open>Services\<close>: what \<open>run\<close> starts, the listeners of TCP, TLS and HTTPS, the reload in which the loader
    panics.  The page accounts for every query and every connection of a started server; the step
    relations \<open>traffic\<close> and \<open>conn_step\<close> are its runs, the locale \<open>keeping_session\<close> extends
    \<open>framed_session\<close> by a part of the state that no message changes.
  \<^item> \<^theory_text>\<open>Advanced\<close>: \<open>advanced.rs\<close>, which no other module calls: signers, the rotation clock, the transfer
    builder, the NSEC3 hash generator, the serial of a peer.

  \<^bold>\<open>Correspondence.\<close>  A \<open>struct\<close> is a record, an \<open>enum\<close> a datatype, fixed-width integers are words,
  \<open>usize\<close> is \<open>nat\<close>, a \<open>String\<close> is its bytes.  Errors are \<open>Inl\<close> or \<open>None\<close>, also where the code panics;
  arithmetic is that of a release build.
  A \<open>HashMap\<close> is a \<open>mapping\<close> or an association list whose order stands for the unspecified one.
  A lock held for one operation makes it one step.  Times are nanoseconds; \<open>Instant::now()\<close> is an
  argument.  Rates are rationals and every \<open>f64\<close> operation is followed by a rounding function, of
  which only monotonicity and exactness on small integers are used.

  \<^bold>\<open>Bounds.\<close>  No definition needs fuel beyond what the code bounds itself: 20 referrals and 5 levels
  of nested name server lookups, 8 aliases, 20 compression pointers in a name, one
  list of datagrams per exchange (the deadline ends it).  The supervisor runs for a given list of
  uptimes and a TCP session over the bytes that arrive, so both are total.  \<open>resolution_ends\<close> turns the
  limits of the resolver into a bound on its exchanges: no server is asked twice for a name, and a
  message of 65535 bytes holds at most 5956 records.

  \<^bold>\<open>Arguments.\<close>  The crates: \<open>hmac\<close> (\<open>mac\<close>), \<open>rsa\<close>, \<open>p256\<close>, \<open>p384\<close>, \<open>ed25519-dalek\<close> (\<open>crypto\<close>), \<open>sha1\<close>,
  \<open>rand\<close> (\<open>net_id\<close>), the hash of an address, the network (\<open>network_io\<close>: every exchange has a number and
  may be answered differently; the fetches of one validation share a number, so equal fetches agree),
  clocks and the contents of files; \<open>load_zone\<close> takes the reading of a zone as an argument.  Of the \<open>rsa\<close> crate the signing
  theories use \<open>rsa_sound\<close>: keys sign every digest and their signatures verify.

  In \<open>advanced.rs\<close> also the signing sides (\<open>sign_crates\<close>), \<open>hex\<close> and the socket; the page assumes of
  rounding in addition that it keeps what is a float already.

  \<^bold>\<open>Not modelled.\<close>  The TLS handshake and the parsing of certificates (\<open>rustls\<close>), the system calls of
  sockets and threads, whose results are arguments, the key chain programs, and log lines; the two
  structs \<open>ZoneSigningConfig\<close>, which nothing reads.
\<close>

end
